(* ===== verification/M86_Prelude.thy ===== *)
theory M86_Prelude
  imports Main "HOL-Library.Word"
begin

text \<open>
  Shared vocabulary of the development: the machine integer types of the C and C++
  sources, Linux error numbers and the \<^verbatim>\<open>-errno\<close> convention of the HAL entry
  points, decimal formatting (\<^verbatim>\<open>%d\<close>, \<^verbatim>\<open>std::to_string\<close>), little-endian byte
  strings of integers, and the generic lemmas on lists the components use.
  It also holds the locale of deterministic machines with an invariant, which every
  component with state interprets.
\<close>

unbundle bit_operations_syntax

section \<open>Collections of rewrite rules\<close>

named_theorems posix_frame \<open>what a system call leaves unchanged\<close>
named_theorems posix_len \<open>how system calls consume the fault script\<close>

section \<open>Machine integers\<close>

type_synonym u8 = "8 word"
type_synonym u32 = "32 word"
type_synonym u64 = "64 word"
type_synonym byte = u8
type_synonym path = string

text \<open>The range tests of C's signed types; a value outside is an overflow.\<close>

definition fits_s32 :: "int \<Rightarrow> bool" where
  "fits_s32 v \<longleftrightarrow> - (2 ^ 31) \<le> v \<and> v < 2 ^ 31"

definition fits_s64 :: "int \<Rightarrow> bool" where
  "fits_s64 v \<longleftrightarrow> - (2 ^ 63) \<le> v \<and> v < 2 ^ 63"

text \<open>The limit of \<^verbatim>\<open>limits.h\<close> on the length of a path, with its terminator.\<close>

definition PATH_MAX :: nat where
  "PATH_MAX = 4096"

text \<open>C's \<^verbatim>\<open>/\<close> truncates towards zero.\<close>

definition cdiv :: "int \<Rightarrow> int \<Rightarrow> int" where
  "cdiv a b = sgn a * sgn b * (\<bar>a\<bar> div \<bar>b\<bar>)"

section \<open>Error numbers\<close>

text \<open>
  The error numbers the sources name, with their Linux values; \<open>EOther\<close> stands for
  the numbers no source line tests for (they are above the values listed here).
\<close>

datatype errno =
    EPERM | ENOENT | EINTR | EIO | EBADF | EAGAIN | ENOMEM | EFAULT | EBUSY | ENODEV
  | EINVAL | ENOSPC | ENAMETOOLONG | ENOSYS | EOVERFLOW | EOther nat

primrec errno_code :: "errno \<Rightarrow> int" where
  "errno_code EPERM = 1"
| "errno_code ENOENT = 2"
| "errno_code EINTR = 4"
| "errno_code EIO = 5"
| "errno_code EBADF = 9"
| "errno_code EAGAIN = 11"
| "errno_code ENOMEM = 12"
| "errno_code EFAULT = 14"
| "errno_code EBUSY = 16"
| "errno_code ENODEV = 19"
| "errno_code EINVAL = 22"
| "errno_code ENOSPC = 28"
| "errno_code ENAMETOOLONG = 36"
| "errno_code ENOSYS = 38"
| "errno_code EOVERFLOW = 75"
| "errno_code (EOther n) = 134 + int n"

text \<open>The value of \<^verbatim>\<open>-EXXX\<close>.\<close>

abbreviation neg :: "errno \<Rightarrow> int" where
  "neg e \<equiv> - errno_code e"

section \<open>Decimal formatting\<close>

fun dec_of_nat :: "nat \<Rightarrow> string" where
  "dec_of_nat n =
     (if n < 10 then [char_of (48 + n)] else dec_of_nat (n div 10) @ [char_of (48 + n mod 10)])"

declare dec_of_nat.simps [simp del]

definition dec_of_int :: "int \<Rightarrow> string" where
  "dec_of_int i = (if i < 0 then CHR ''-'' # dec_of_nat (nat (- i)) else dec_of_nat (nat i))"

text \<open>Reading a decimal string back, the reference for the round trip.\<close>

definition nat_of_dec :: "string \<Rightarrow> nat" where
  "nat_of_dec s = foldl (\<lambda>v c. 10 * v + (of_char c - 48)) 0 s"

text \<open>
  The conversion \<^verbatim>\<open>%d\<close> of \<^verbatim>\<open>fscanf\<close>: white space is skipped, then an optional sign and digits.
  What the conversion of a number outside \<^verbatim>\<open>int\<close> yields is undefined in C: a parameter.
  \<^verbatim>\<open>atoi\<close> converts the same way and yields 0 where there is no number.
\<close>

definition is_space :: "char \<Rightarrow> bool" where
  "is_space c \<longleftrightarrow> c \<in> {CHR '' '', CHR 0x09, CHR 0x0A, CHR 0x0B, CHR 0x0C, CHR 0x0D}"

definition is_digit :: "char \<Rightarrow> bool" where
  "is_digit c \<longleftrightarrow> (of_char c :: nat) \<in> {48..57}"

definition scan_int :: "(int \<Rightarrow> int) \<Rightarrow> string \<Rightarrow> (int \<times> string) option" where
  "scan_int outside s =
     (let s1 = dropWhile is_space s;
          negative = (s1 \<noteq> [] \<and> hd s1 = CHR ''-'');
          s2 = (if s1 \<noteq> [] \<and> (hd s1 = CHR ''-'' \<or> hd s1 = CHR ''+'') then tl s1 else s1);
          digits = takeWhile is_digit s2;
          v = (if negative then - int (nat_of_dec digits) else int (nat_of_dec digits))
      in if digits = [] then None
         else Some (if fits_s32 v then v else outside v, dropWhile is_digit s2))"

definition atoi :: "(int \<Rightarrow> int) \<Rightarrow> string \<Rightarrow> int" where
  "atoi outside s = (case scan_int outside s of None \<Rightarrow> 0 | Some (v, rest) \<Rightarrow> v)"

section \<open>Little-endian byte strings\<close>

fun le_bytes :: "nat \<Rightarrow> nat \<Rightarrow> byte list" where
  "le_bytes 0 v = []"
| "le_bytes (Suc k) v = of_nat (v mod 256) # le_bytes k (v div 256)"

fun le_value :: "byte list \<Rightarrow> nat" where
  "le_value [] = 0"
| "le_value (b # bs) = unat b + 256 * le_value bs"

section \<open>Machines with an invariant\<close>

text \<open>
  A component that reacts to events one at a time: an executable step, the states the
  component can start in and a well-formedness invariant every step keeps.
\<close>

locale machine =
  fixes step :: "'s \<Rightarrow> 'e \<Rightarrow> 's"
    and start :: "'s \<Rightarrow> bool"
    and inv :: "'s \<Rightarrow> bool"
  assumes start_inv: "start s \<Longrightarrow> inv s"
    and step_inv: "inv s \<Longrightarrow> inv (step s e)"
begin

lemma run_inv: "inv s \<Longrightarrow> inv (foldl step s es)"
  by (induction es arbitrary: s) (auto intro: step_inv)

lemma reach_inv: "start s \<Longrightarrow> inv (foldl step s es)"
  by (rule run_inv, rule start_inv)

lemma run_keeps:
  assumes keep: "\<And>s e. inv s \<Longrightarrow> f (step s e) = f s"
  shows "inv s \<Longrightarrow> f (foldl step s es) = f s"
proof (induction es arbitrary: s)
  case Nil
  then show ?case by simp
next
  case (Cons e es)
  then have "f (foldl step (step s e) es) = f (step s e)" by (intro Cons.IH step_inv)
  with Cons.prems show ?case by (simp add: keep)
qed

lemma run_mono:
  assumes up: "\<And>s e. inv s \<Longrightarrow> f s \<le> (f (step s e) :: nat)"
  shows "inv s \<Longrightarrow> f s \<le> f (foldl step s es)"
proof (induction es arbitrary: s)
  case Nil
  then show ?case by simp
next
  case (Cons e es)
  have "f s \<le> f (step s e)" using Cons.prems by (rule up)
  also have "\<dots> \<le> f (foldl step (step s e) es)"
    using Cons.prems by (intro Cons.IH step_inv)
  finally show ?case by simp
qed

end

section \<open>Shared lemmas\<close>

lemma errno_code_pos [simp]: "0 < errno_code e"
  by (cases e) auto

lemma errno_code_nonneg [simp]: "0 \<le> errno_code e"
  by (cases e) auto

lemma errno_code_nonzero [simp]: "errno_code e \<noteq> 0"
  by (cases e) auto

lemma errno_code_inject [simp]: "errno_code e = errno_code e' \<longleftrightarrow> e = e'"
  by (cases e; cases e') auto

lemma neg_less_zero [simp]: "neg e < 0"
  by simp

lemma dec_of_nat_not_Nil [simp]: "dec_of_nat n \<noteq> []"
  by (subst dec_of_nat.simps) simp

lemma dec_of_int_not_Nil [simp]: "dec_of_int i \<noteq> []"
  by (simp add: dec_of_int_def)

lemma of_char_digit: "d < 10 \<Longrightarrow> of_char (char_of (48 + d) :: char) = 48 + (d :: nat)"
  by (simp add: take_bit_eq_mod)

lemma nat_of_dec_snoc:
  "nat_of_dec (s @ [c]) = 10 * nat_of_dec s + (of_char c - 48)"
  by (simp add: nat_of_dec_def)

lemma nat_of_dec_of_nat [simp]: "nat_of_dec (dec_of_nat n) = n"
proof (induction n rule: dec_of_nat.induct)
  case (1 n)
  show ?case
  proof (cases "n < 10")
    case True
    then show ?thesis
      by (subst dec_of_nat.simps) (simp add: nat_of_dec_def of_char_digit del: of_char_of)
  next
    case False
    have "nat_of_dec (dec_of_nat n) = 10 * (n div 10) + (48 + n mod 10 - 48)"
      using False "1.IH" [OF False] of_char_digit [of "n mod 10"]
      by (subst dec_of_nat.simps) (simp add: nat_of_dec_snoc del: of_char_of)
    then show ?thesis by simp
  qed
qed

lemma dec_of_nat_inject [simp]: "dec_of_nat m = dec_of_nat n \<longleftrightarrow> m = n"
  by (metis nat_of_dec_of_nat)

lemma length_dec_of_nat: "n < 10 ^ Suc k \<Longrightarrow> length (dec_of_nat n) \<le> Suc k"
proof (induction k arbitrary: n)
  case 0
  then show ?case by (subst dec_of_nat.simps) simp
next
  case (Suc k)
  show ?case
  proof (cases "n < 10")
    case True
    then show ?thesis by (subst dec_of_nat.simps) simp
  next
    case False
    from Suc.prems have "n div 10 < 10 ^ Suc k"
      by (simp add: less_mult_imp_div_less)
    then have "length (dec_of_nat (n div 10)) \<le> Suc k" by (rule Suc.IH)
    with False show ?thesis by (subst dec_of_nat.simps) simp
  qed
qed

lemma length_le_bytes [simp]: "length (le_bytes k v) = k"
  by (induction k arbitrary: v) auto

lemma le_value_le_bytes: "v < 256 ^ k \<Longrightarrow> le_value (le_bytes k v) = v"
proof (induction k arbitrary: v)
  case 0
  then show ?case by simp
next
  case (Suc k)
  then have "v div 256 < 256 ^ k"
    by (simp add: less_mult_imp_div_less mult.commute)
  then have "le_value (le_bytes k (v div 256)) = v div 256" by (rule Suc.IH)
  then show ?case by (simp add: unat_of_nat)
qed

lemma le_value_less: "le_value bs < 256 ^ length bs"
proof (induction bs)
  case Nil
  then show ?case by simp
next
  case (Cons b bs)
  have "unat b < 256" using unsigned_less [of b] by simp
  then have "le_value (b # bs) < 256 * (le_value bs + 1)" by simp
  also have "\<dots> \<le> 256 * 256 ^ length bs" using Cons.IH by simp
  finally show ?case by simp
qed

lemma unat_u32_less: "unat (v :: u32) < 256 ^ 4"
  using unsigned_less [of v] by simp

lemma unat_u64_less: "unat (v :: u64) < 256 ^ 8"
  using unsigned_less [of v] by simp

lemma all_upto_5: "(\<forall>k. 1 \<le> k \<and> k \<le> (5::nat) \<longrightarrow> P k) \<longleftrightarrow> P 1 \<and> P 2 \<and> P 3 \<and> P 4 \<and> P 5"
proof -
  have "k \<in> {1, 2, 3, 4, 5}" if "1 \<le> k" "k \<le> 5" for k :: nat using that by auto
  then show ?thesis by auto
qed

end
