(* ===== verification/M86_Posix.thy ===== *)
theory M86_Posix
  imports M86_Prelude
begin

text \<open>
  The system calls the HALs make, over an explicit world: the readable contents of
  paths, the kernel's random pool, the process's descriptor table, the log of values the
  kernel accepted through device nodes, and a script of the outcomes the kernel gives to
  the calls to come. Each call takes one outcome from the script: \<open>Fail\<close> an error,
  \<open>Limit\<close> a transfer of at most so many bytes (a short read or write), or \<open>Done\<close>;
  an exhausted script means that the calls from there on meet no fault. The script is
  finite, so a loop that retries after a signal gets through in the end, and every loop
  of the sources is a total function here. The last section holds the contract of an
  interruptible call and what \<^verbatim>\<open>TEMP_FAILURE_RETRY\<close> makes of it.
\<close>

section \<open>The world\<close>

datatype outcome = Fail errno | Limit nat | Done

datatype file_kind = RegularFile | NodeFile | RandomDev

record ofile =
  ofile_kind :: file_kind
  ofile_path :: path
  ofile_pos :: nat

record world =
  files :: "path \<rightharpoonup> byte list"
  entropy :: "byte list"
  fds :: "(nat \<times> ofile) list"
  stores :: "(path \<times> string) list"
  faults :: "outcome list"

type_synonym 'a sysres = "(errno + 'a) \<times> world"

definition take_outcome :: "world \<Rightarrow> outcome \<times> world" where
  "take_outcome w = (case faults w of [] \<Rightarrow> (Done, w) | f # fs \<Rightarrow> (f, w\<lparr>faults := fs\<rparr>))"

definition transfer :: "outcome \<Rightarrow> nat \<Rightarrow> nat" where
  "transfer c n = (case c of Limit k \<Rightarrow> min k n | _ \<Rightarrow> n)"

definition urandom_path :: path where
  "urandom_path = ''/dev/urandom''"

section \<open>Descriptors\<close>

definition fresh_fd :: "(nat \<times> ofile) list \<Rightarrow> nat" where
  "fresh_fd t = Suc (foldr (\<lambda>p. max (fst p)) t 2)"

definition alloc_fd :: "file_kind \<Rightarrow> path \<Rightarrow> world \<Rightarrow> nat sysres" where
  "alloc_fd k p w =
     (let fd = fresh_fd (fds w)
      in (Inr fd, w\<lparr>fds := (fd, \<lparr>ofile_kind = k, ofile_path = p, ofile_pos = 0\<rparr>) # fds w\<rparr>))"

definition advance :: "nat \<Rightarrow> nat \<Rightarrow> world \<Rightarrow> world" where
  "advance fd n w =
     w\<lparr>fds := map (\<lambda>(d, f). if d = fd then (d, f\<lparr>ofile_pos := ofile_pos f + n\<rparr>) else (d, f)) (fds w)\<rparr>"

section \<open>Calls\<close>

text \<open>\<^verbatim>\<open>open(path, O_RDONLY | O_CLOEXEC)\<close>\<close>

definition sys_open_rd :: "path \<Rightarrow> world \<Rightarrow> nat sysres" where
  "sys_open_rd p w = (case take_outcome w of
     (Fail e, w') \<Rightarrow> (Inl e, w')
   | (_, w') \<Rightarrow>
       if p = urandom_path then alloc_fd RandomDev p w'
       else (case files w' p of None \<Rightarrow> (Inl ENOENT, w') | Some _ \<Rightarrow> alloc_fd RegularFile p w'))"

text \<open>\<^verbatim>\<open>open(path, O_WRONLY | O_CREAT | O_TRUNC | O_CLOEXEC, 0600)\<close>\<close>

definition sys_open_trunc :: "path \<Rightarrow> world \<Rightarrow> nat sysres" where
  "sys_open_trunc p w = (case take_outcome w of
     (Fail e, w') \<Rightarrow> (Inl e, w')
   | (_, w') \<Rightarrow> alloc_fd RegularFile p (w'\<lparr>files := (files w')(p \<mapsto> [])\<rparr>))"

text \<open>\<^verbatim>\<open>open(path, O_WRONLY | O_CLOEXEC)\<close> on a device or sysfs node\<close>

definition sys_open_node :: "path \<Rightarrow> world \<Rightarrow> nat sysres" where
  "sys_open_node p w = (case take_outcome w of
     (Fail e, w') \<Rightarrow> (Inl e, w')
   | (_, w') \<Rightarrow> alloc_fd NodeFile p w')"

text \<open>\<^verbatim>\<open>read(fd, buffer, n)\<close>: the bytes delivered.\<close>

definition sys_read :: "nat \<Rightarrow> nat \<Rightarrow> world \<Rightarrow> byte list sysres" where
  "sys_read fd n w = (case take_outcome w of
     (Fail e, w') \<Rightarrow> (Inl e, w')
   | (c, w') \<Rightarrow> (case map_of (fds w') fd of
       None \<Rightarrow> (Inl EBADF, w')
     | Some f \<Rightarrow> (case ofile_kind f of
         RegularFile \<Rightarrow>
           (let bs = (case files w' (ofile_path f) of
                        None \<Rightarrow> [] | Some content \<Rightarrow> take (transfer c n) (drop (ofile_pos f) content))
            in (Inr bs, advance fd (length bs) w'))
       | RandomDev \<Rightarrow>
           (let bs = take (transfer c n) (entropy w')
            in (Inr bs, w'\<lparr>entropy := drop (length bs) (entropy w')\<rparr>))
       | NodeFile \<Rightarrow> (Inl EBADF, w'))))"

text \<open>\<^verbatim>\<open>pread(fd, buffer, n, offset)\<close>\<close>

definition sys_pread :: "nat \<Rightarrow> nat \<Rightarrow> nat \<Rightarrow> world \<Rightarrow> byte list sysres" where
  "sys_pread fd n off w = (case take_outcome w of
     (Fail e, w') \<Rightarrow> (Inl e, w')
   | (c, w') \<Rightarrow> (case map_of (fds w') fd of
       None \<Rightarrow> (Inl EBADF, w')
     | Some f \<Rightarrow> (case files w' (ofile_path f) of
         None \<Rightarrow> (Inr [], w')
       | Some content \<Rightarrow> (Inr (take (transfer c n) (drop off content)), w'))))"

text \<open>\<^verbatim>\<open>write(fd, buffer, n)\<close> on a regular file, at the descriptor's position\<close>

definition sys_write :: "nat \<Rightarrow> byte list \<Rightarrow> world \<Rightarrow> nat sysres" where
  "sys_write fd data w = (case take_outcome w of
     (Fail e, w') \<Rightarrow> (Inl e, w')
   | (c, w') \<Rightarrow> (case map_of (fds w') fd of
       None \<Rightarrow> (Inl EBADF, w')
     | Some f \<Rightarrow>
         (let k = transfer c (length data);
              old = (case files w' (ofile_path f) of None \<Rightarrow> [] | Some content \<Rightarrow> content);
              new = take (ofile_pos f) old @ take k data @ drop (ofile_pos f + k) old
          in (Inr k, advance fd k (w'\<lparr>files := (files w')(ofile_path f \<mapsto> new)\<rparr>)))))"

text \<open>\<^verbatim>\<open>write(fd, value, n)\<close> on a node: what the kernel's store handler accepted is logged.\<close>

definition sys_write_node :: "nat \<Rightarrow> string \<Rightarrow> world \<Rightarrow> nat sysres" where
  "sys_write_node fd data w = (case take_outcome w of
     (Fail e, w') \<Rightarrow> (Inl e, w')
   | (c, w') \<Rightarrow> (case map_of (fds w') fd of
       None \<Rightarrow> (Inl EBADF, w')
     | Some f \<Rightarrow>
         (let k = transfer c (length data)
          in (Inr k, if k = 0 then w'
                     else w'\<lparr>stores := stores w' @ [(ofile_path f, take k data)]\<rparr>))))"

text \<open>\<^verbatim>\<open>close(fd)\<close> gives the descriptor up even when it reports an error, as Linux does.\<close>

definition sys_close :: "nat \<Rightarrow> world \<Rightarrow> unit sysres" where
  "sys_close fd w =
     (let (c, w') = take_outcome w; w'' = w'\<lparr>fds := filter (\<lambda>p. fst p \<noteq> fd) (fds w')\<rparr>
      in case c of Fail e \<Rightarrow> (Inl e, w'') | _ \<Rightarrow> (Inr (), w''))"

definition sys_fsync :: "nat \<Rightarrow> world \<Rightarrow> unit sysres" where
  "sys_fsync fd w = (case take_outcome w of (Fail e, w') \<Rightarrow> (Inl e, w') | (_, w') \<Rightarrow> (Inr (), w'))"

definition sys_rename :: "path \<Rightarrow> path \<Rightarrow> world \<Rightarrow> unit sysres" where
  "sys_rename p q w = (case take_outcome w of
     (Fail e, w') \<Rightarrow> (Inl e, w')
   | (_, w') \<Rightarrow> (case files w' p of
       None \<Rightarrow> (Inl ENOENT, w')
     | Some content \<Rightarrow> (Inr (), w'\<lparr>files := (files w')(q \<mapsto> content, p := None)\<rparr>)))"

definition sys_unlink :: "path \<Rightarrow> world \<Rightarrow> unit sysres" where
  "sys_unlink p w = (case take_outcome w of
     (Fail e, w') \<Rightarrow> (Inl e, w')
   | (_, w') \<Rightarrow> (case files w' p of
       None \<Rightarrow> (Inl ENOENT, w')
     | Some _ \<Rightarrow> (Inr (), w'\<lparr>files := (files w')(p := None)\<rparr>)))"

text \<open>\<^verbatim>\<open>access(path, F_OK)\<close>: the script says whether the node has appeared.\<close>

definition sys_access :: "path \<Rightarrow> world \<Rightarrow> unit sysres" where
  "sys_access p w = (case take_outcome w of (Fail e, w') \<Rightarrow> (Inl e, w') | (_, w') \<Rightarrow> (Inr (), w'))"

text \<open>
  \<^verbatim>\<open>TEMP_FAILURE_RETRY(call)\<close> and the sources' own \<^verbatim>\<open>do ... while (r < 0 && errno == EINTR)\<close>:
  the call is repeated while it reports a signal. The length test only makes the
  recursion total: every interrupted call has used up a fault (the contract below).
\<close>

function retry_eintr :: "(world \<Rightarrow> 'a sysres) \<Rightarrow> world \<Rightarrow> 'a sysres" where
  "retry_eintr call w =
     (if fst (call w) = Inl EINTR \<and> length (faults (snd (call w))) < length (faults w)
      then retry_eintr call (snd (call w)) else call w)"
  by pat_completeness auto
termination
  by (relation "measure (\<lambda>(call, w). length (faults w))") auto

declare retry_eintr.simps [simp del]

section \<open>How calls use the script and the descriptor table\<close>

lemma take_outcome_cases:
  obtains "faults w = []" "take_outcome w = (Done, w)"
  | c fs where "faults w = c # fs" "take_outcome w = (c, w\<lparr>faults := fs\<rparr>)"
  by (cases "faults w") (auto simp: take_outcome_def)

lemma take_outcome_len [posix_len]: "length (faults (snd (take_outcome w))) \<le> length (faults w)"
  by (cases w rule: take_outcome_cases) auto

lemma take_outcome_Fail: "take_outcome w = (Fail e, w') \<Longrightarrow> length (faults w') < length (faults w)"
  by (cases w rule: take_outcome_cases) auto

lemma take_outcome_frame:
  "take_outcome w = (c, w') \<Longrightarrow> w' = w\<lparr>faults := faults w'\<rparr>"
  by (cases w rule: take_outcome_cases) auto

lemma take_outcome_no_fault: "faults w = [] \<Longrightarrow> take_outcome w = (Done, w)"
  by (simp add: take_outcome_def)

lemma transfer_le [simp]: "transfer c n \<le> n"
  by (cases c) (auto simp: transfer_def)

lemma transfer_Done [simp]: "transfer Done n = n"
  by (simp add: transfer_def)

lemma fresh_fd_greater: "(d, f) \<in> set t \<Longrightarrow> d < fresh_fd t"
  by (induction t) (auto simp: fresh_fd_def less_Suc_eq_le max_def)

lemma fresh_fd_notin: "(fresh_fd t, f) \<notin> set t"
  using fresh_fd_greater by blast

lemma filter_fresh [simp]: "filter (\<lambda>p. fst p \<noteq> fresh_fd t) t = t"
  using fresh_fd_notin by (fastforce simp: filter_id_conv)

lemma map_fresh_id:
  "map (\<lambda>(d, f). if d = fresh_fd t then g d f else (d, f)) t = t"
  using fresh_fd_notin by (intro map_idI) (auto split: prod.splits)


section \<open>Each call as an update of the world\<close>

text \<open>
  What a call does, in the form the component proofs compose: the world after the call is
  the world before it with these fields changed and some suffix of the fault script.
\<close>

abbreviation new_ofile :: "file_kind \<Rightarrow> path \<Rightarrow> ofile" where
  "new_ofile k p \<equiv> \<lparr>ofile_kind = k, ofile_path = p, ofile_pos = 0\<rparr>"

lemma take_outcome_world:
  "take_outcome w = (c, w') \<Longrightarrow> \<exists>fs. w' = w\<lparr>faults := fs\<rparr> \<and> length fs \<le> length (faults w)"
  by (cases w rule: take_outcome_cases) (auto intro: exI [of _ "[]"])

lemma sys_open_node_Inl:
  "sys_open_node p w = (Inl e, w') \<Longrightarrow> \<exists>fs. w' = w\<lparr>faults := fs\<rparr> \<and> length fs < length (faults w)"
  by (cases w rule: take_outcome_cases)
    (auto simp: sys_open_node_def alloc_fd_def Let_def split: outcome.splits)

lemma sys_open_node_Inr:
  "sys_open_node p w = (Inr fd, w') \<Longrightarrow> fd = fresh_fd (fds w) \<and>
     (\<exists>fs. w' = w\<lparr>faults := fs, fds := (fd, new_ofile NodeFile p) # fds w\<rparr> \<and>
           length fs \<le> length (faults w))"
  by (cases w rule: take_outcome_cases)
    (auto simp: sys_open_node_def alloc_fd_def Let_def split: outcome.splits)

lemma sys_open_rd_Inl:
  "sys_open_rd p w = (Inl e, w') \<Longrightarrow>
     \<exists>fs. w' = w\<lparr>faults := fs\<rparr> \<and> length fs \<le> length (faults w) \<and>
          (e = ENOENT \<or> length fs < length (faults w))"
  by (cases w rule: take_outcome_cases)
    (auto simp: sys_open_rd_def alloc_fd_def Let_def split: outcome.splits option.splits if_splits)

lemma sys_open_rd_Inr:
  "sys_open_rd p w = (Inr fd, w') \<Longrightarrow> fd = fresh_fd (fds w) \<and>
     (\<exists>fs. w' = w\<lparr>faults := fs, fds := (fd, new_ofile (if p = urandom_path then RandomDev else RegularFile) p) # fds w\<rparr> \<and>
           length fs \<le> length (faults w)) \<and> (p = urandom_path \<or> files w p \<noteq> None)"
  by (cases w rule: take_outcome_cases)
    (auto simp: sys_open_rd_def alloc_fd_def Let_def split: outcome.splits option.splits if_splits)

lemma sys_open_trunc_Inl:
  "sys_open_trunc p w = (Inl e, w') \<Longrightarrow> \<exists>fs. w' = w\<lparr>faults := fs\<rparr> \<and> length fs < length (faults w)"
  by (cases w rule: take_outcome_cases)
    (auto simp: sys_open_trunc_def alloc_fd_def Let_def split: outcome.splits)

lemma sys_open_trunc_Inr:
  "sys_open_trunc p w = (Inr fd, w') \<Longrightarrow> fd = fresh_fd (fds w) \<and>
     (\<exists>fs. w' = w\<lparr>faults := fs, files := (files w)(p \<mapsto> []),
                  fds := (fd, new_ofile RegularFile p) # fds w\<rparr> \<and>
           length fs \<le> length (faults w))"
  by (cases w rule: take_outcome_cases)
    (auto simp: sys_open_trunc_def alloc_fd_def Let_def split: outcome.splits)

lemma sys_write_node_Inl:
  "sys_write_node fd v w = (Inl e, w') \<Longrightarrow>
     \<exists>fs. w' = w\<lparr>faults := fs\<rparr> \<and> length fs \<le> length (faults w) \<and>
          (e = EBADF \<or> length fs < length (faults w))"
  by (cases w rule: take_outcome_cases)
    (auto simp: sys_write_node_def Let_def split: outcome.splits option.splits if_splits)

lemma sys_write_node_Inr:
  "sys_write_node fd v w = (Inr k, w') \<Longrightarrow> map_of (fds w) fd = Some f \<Longrightarrow> k \<le> length v \<and>
     (\<exists>fs. w' = w\<lparr>faults := fs, stores := stores w @ (if k = 0 then [] else [(ofile_path f, take k v)])\<rparr> \<and>
           length fs \<le> length (faults w))"
  by (cases w rule: take_outcome_cases)
    (auto simp: sys_write_node_def Let_def split: outcome.splits option.splits if_splits)

lemma sys_close_world:
  "\<exists>fs. snd (sys_close fd w) = w\<lparr>faults := fs, fds := filter (\<lambda>p. fst p \<noteq> fd) (fds w)\<rparr> \<and>
        length fs \<le> length (faults w)"
  by (cases w rule: take_outcome_cases) (auto simp: sys_close_def Let_def split: outcome.splits)

lemma sys_close_Pair:
  "sys_close fd w = (r, w') \<Longrightarrow>
     \<exists>fs. w' = w\<lparr>faults := fs, fds := filter (\<lambda>p. fst p \<noteq> fd) (fds w)\<rparr> \<and>
          length fs \<le> length (faults w)"
  using sys_close_world [of fd w] by auto

lemma sys_fsync_Pair:
  "sys_fsync fd w = (r, w') \<Longrightarrow> \<exists>fs. w' = w\<lparr>faults := fs\<rparr> \<and> length fs \<le> length (faults w)"
  by (cases w rule: take_outcome_cases)
    (auto simp: sys_fsync_def split: outcome.splits intro: exI [of _ "[]"])

lemma sys_access_Pair:
  "sys_access p w = (r, w') \<Longrightarrow> \<exists>fs. w' = w\<lparr>faults := fs\<rparr> \<and> length fs \<le> length (faults w)"
  by (cases w rule: take_outcome_cases)
    (auto simp: sys_access_def split: outcome.splits intro: exI [of _ "[]"])

lemma sys_read_Inl:
  "sys_read fd n w = (Inl e, w') \<Longrightarrow>
     \<exists>fs. w' = w\<lparr>faults := fs\<rparr> \<and> length fs \<le> length (faults w) \<and>
          (e = EBADF \<or> length fs < length (faults w))"
  by (cases w rule: take_outcome_cases)
    (auto simp: sys_read_def Let_def
      split: outcome.splits option.splits file_kind.splits intro: exI [of _ "[]"])

lemma sys_read_Inr_len:
  "sys_read fd n w = (Inr bs, w') \<Longrightarrow>
     length bs \<le> n \<and> length (faults w') \<le> length (faults w) \<and>
     files w' = files w \<and> stores w' = stores w"
  by (cases w rule: take_outcome_cases)
    (auto simp: sys_read_def Let_def advance_def
      split: outcome.splits option.splits file_kind.splits
      intro: order_trans [OF min.cobounded2 transfer_le])

lemma sys_write_Inl:
  "sys_write fd v w = (Inl e, w') \<Longrightarrow>
     \<exists>fs. w' = w\<lparr>faults := fs\<rparr> \<and> length fs \<le> length (faults w) \<and>
          (e = EBADF \<or> length fs < length (faults w))"
  by (cases w rule: take_outcome_cases)
    (auto simp: sys_write_def Let_def
      split: outcome.splits option.splits intro: exI [of _ "[]"])

lemma sys_write_Inr_len:
  "sys_write fd v w = (Inr k, w') \<Longrightarrow> k \<le> length v \<and> length (faults w') \<le> length (faults w)"
  by (cases w rule: take_outcome_cases)
    (auto simp: sys_write_def Let_def advance_def split: outcome.splits option.splits)

lemma sys_pread_Inl:
  "sys_pread fd n off w = (Inl e, w') \<Longrightarrow>
     \<exists>fs. w' = w\<lparr>faults := fs\<rparr> \<and> length fs \<le> length (faults w) \<and>
          (e = EBADF \<or> length fs < length (faults w))"
  by (cases w rule: take_outcome_cases)
    (auto simp: sys_pread_def split: outcome.splits option.splits intro: exI [of _ "[]"])

lemma sys_pread_Inr:
  "sys_pread fd n off w = (Inr bs, w') \<Longrightarrow>
     length bs \<le> n \<and> (\<exists>fs. w' = w\<lparr>faults := fs\<rparr> \<and> length fs \<le> length (faults w)) \<and>
     (\<exists>f. map_of (fds w) fd = Some f \<and>
          bs = take (length bs) (drop off (case files w (ofile_path f) of None \<Rightarrow> [] | Some c \<Rightarrow> c)))"
  by (cases w rule: take_outcome_cases)
    (auto simp: sys_pread_def min_def
      split: outcome.splits option.splits
      intro: exI [of _ "[]"] le_trans [OF _ transfer_le])

lemmas sys_world =
  sys_open_node_Inl sys_open_node_Inr sys_open_rd_Inl sys_open_rd_Inr sys_open_trunc_Inl
  sys_open_trunc_Inr sys_write_node_Inl sys_close_Pair sys_fsync_Pair sys_access_Pair
  sys_read_Inl sys_write_Inl

text \<open>A world to evaluate examples in, and the definitions that evaluate calls in it.\<close>

definition idle_world :: world where
  "idle_world = \<lparr>files = Map.empty, entropy = [1, 2, 3, 4, 5, 6, 7, 8], fds = [], stores = [], faults = []\<rparr>"

lemmas sys_eval =
  take_outcome_def transfer_def alloc_fd_def fresh_fd_def advance_def sys_open_rd_def
  sys_open_trunc_def sys_open_node_def sys_read_def sys_pread_def sys_write_def sys_write_node_def
  sys_close_def sys_fsync_def sys_rename_def sys_unlink_def sys_access_def Let_def

section \<open>Interruptible calls\<close>

text \<open>
  The contract \<^verbatim>\<open>TEMP_FAILURE_RETRY\<close> relies on: an interrupted call has had no effect
  but to use up a fault. The retried call then behaves as one call made at a moment when
  no signal arrives.
\<close>

locale interruptible =
  fixes call :: "world \<Rightarrow> 'a sysres"
  assumes interrupted:
    "call w = (Inl EINTR, w') \<Longrightarrow> \<exists>fs. w' = w\<lparr>faults := fs\<rparr> \<and> length fs < length (faults w)"
begin

lemma retry_is_call:
  "\<exists>fs. retry_eintr call w = call (w\<lparr>faults := fs\<rparr>) \<and> length fs \<le> length (faults w) \<and>
        fst (retry_eintr call w) \<noteq> Inl EINTR"
proof (induction "length (faults w)" arbitrary: w rule: less_induct)
  case less
  show ?case
  proof (cases "fst (call w) = Inl EINTR")
    case False
    then have "retry_eintr call w = call w" by (simp add: retry_eintr.simps [of call w])
    with False show ?thesis by (intro exI [of _ "faults w"]) simp
  next
    case True
    then obtain fs where w': "snd (call w) = w\<lparr>faults := fs\<rparr>" and fs: "length fs < length (faults w)"
      using interrupted [of w "snd (call w)"] by (metis prod.collapse)
    have step: "retry_eintr call w = retry_eintr call (w\<lparr>faults := fs\<rparr>)"
      using True fs by (simp add: retry_eintr.simps [of call w] w')
    from less [of "w\<lparr>faults := fs\<rparr>"] fs show ?thesis
      unfolding step by (auto intro: less_imp_le order_trans)
  qed
qed

lemma retryE:
  assumes "retry_eintr call w = (r, w')"
  obtains fs where "call (w\<lparr>faults := fs\<rparr>) = (r, w')" "length fs \<le> length (faults w)" "r \<noteq> Inl EINTR"
  using retry_is_call [of w] assms by auto

end

interpretation open_node: interruptible "sys_open_node p" for p
  by unfold_locales (blast dest: sys_open_node_Inl)

interpretation write_node_call: interruptible "sys_write_node fd v" for fd v
  by unfold_locales (blast dest: sys_write_node_Inl)

interpretation read_call: interruptible "sys_read fd n" for fd n
  by unfold_locales (blast dest: sys_read_Inl)

end
