(* ===== verification/Fp_Device.thy ===== *)
theory Fp_Device
  imports M86_Posix
begin

text \<open>
  Data of the FPC1020 fingerprint HAL (\<^verbatim>\<open>fingerprint/FingerprintHAL.c\<close>): the device
  structure, the messages it sends to the framework, and the platform it runs on.
  libfprint, the AOSP headers, the clock and \<^verbatim>\<open>pthread_create\<close> are not part of the
  repository: they are the fields of a \<open>platform\<close>, an argument of every operation that
  calls them, over a state type of their own.
  The device mutex has no field: every region the code runs under the lock is one step.
\<close>

section \<open>Constants\<close>

definition MAX_TEMPLATES :: nat where
  "MAX_TEMPLATES = 5"

definition METADATA_MAGIC :: u32 where
  "METADATA_MAGIC = 0x4d383646"

definition METADATA_VERSION :: u32 where
  "METADATA_VERSION = 1"

definition METADATA_NAME :: string where
  "METADATA_NAME = ''.m86-fingerprint-metadata''"

datatype worker_operation = OPERATION_IDLE | OPERATION_ENROLL | OPERATION_AUTHENTICATE

record fingerprint_metadata =
  md_magic :: u32
  md_version :: u32
  md_secure_user_id :: u64
  md_authenticator_id :: u64

section \<open>Messages\<close>

datatype fp_error =
    FINGERPRINT_ERROR_HW_UNAVAILABLE | FINGERPRINT_ERROR_UNABLE_TO_PROCESS
  | FINGERPRINT_ERROR_TIMEOUT | FINGERPRINT_ERROR_NO_SPACE | FINGERPRINT_ERROR_CANCELED

datatype acquired_info = FINGERPRINT_ACQUIRED_GOOD | FINGERPRINT_ACQUIRED_INSUFFICIENT

record hw_auth_token =
  tok_version :: u8
  tok_challenge :: u64
  tok_user_id :: u64
  tok_authenticator_id :: u64
  tok_authenticator_type :: u32
  tok_timestamp :: u64
  tok_hmac :: "byte list"

text \<open>
  \<^verbatim>\<open>fingerprint_msg_t\<close>, one constructor per \<^verbatim>\<open>type\<close>, with the members of the union the
  code sets: group id, finger id and a count of what remains, or the token.
\<close>

datatype message =
    MsgError fp_error
  | MsgAcquired acquired_info
  | MsgEnrolling u32 u32 u32
  | MsgAuthenticated u32 u32 hw_auth_token
  | MsgEnumerating u32 u32 u32
  | MsgRemoved u32 u32 u32

definition zero_token :: hw_auth_token where
  "zero_token = \<lparr>tok_version = 0, tok_challenge = 0, tok_user_id = 0, tok_authenticator_id = 0,
     tok_authenticator_type = 0, tok_timestamp = 0, tok_hmac = replicate 32 0\<rparr>"

section \<open>The platform\<close>

datatype enroll_status =
    ENROLL_NEGATIVE | FP_ENROLL_COMPLETE | FP_ENROLL_FAIL | FP_ENROLL_PASS | FP_ENROLL_RETRY
  | FP_ENROLL_RETRY_TOO_SHORT | FP_ENROLL_RETRY_CENTER_FINGER | FP_ENROLL_RETRY_REMOVE_FINGER
  | ENROLL_UNLISTED

datatype verify_status = VERIFY_NEGATIVE | FP_VERIFY_MATCH | FP_VERIFY_NO_MATCH | VERIFY_UNLISTED

record ('x, 'p, 'd) platform =
  fp_discover_prints :: "path \<Rightarrow> 'x \<Rightarrow> 'p list option \<times> 'x"
  fp_dscv_print_get_finger :: "'p \<Rightarrow> u32"
  fp_print_data_from_dscv_print :: "'p \<Rightarrow> 'x \<Rightarrow> (int \<times> 'd option) \<times> 'x"
  fp_dev_supports_print_data :: "'d \<Rightarrow> bool"
  fp_print_data_free :: "'d option \<Rightarrow> 'x \<Rightarrow> 'x"
  fp_dscv_prints_free :: "'p list \<Rightarrow> 'x \<Rightarrow> 'x"
  fp_print_data_save :: "'d \<Rightarrow> u32 \<Rightarrow> path \<Rightarrow> 'x \<Rightarrow> int \<times> 'x"
  fp_print_data_delete :: "u32 \<Rightarrow> 'x \<Rightarrow> int \<times> 'x"
  fp_enroll_finger :: "'d option \<Rightarrow> 'x \<Rightarrow> (enroll_status \<times> 'd option) \<times> 'x"
  fp_identify_finger :: "'d list \<Rightarrow> 'x \<Rightarrow> (verify_status \<times> int) \<times> 'x"
  fp_dev_get_nr_enroll_stages :: "'x \<Rightarrow> u32"
  fp_dev_mode :: "nat \<Rightarrow> 'x \<Rightarrow> 'x"
  fp_enroll_reset :: "'x \<Rightarrow> 'x"
  fp_dev_close :: "'x \<Rightarrow> 'x"
  fp_exit :: "'x \<Rightarrow> 'x"
  fp_init :: "'x \<Rightarrow> int \<times> 'x"
  fp_discover_devs :: "'x \<Rightarrow> nat list option \<times> 'x"
  fp_dscv_devs_free :: "nat list option \<Rightarrow> 'x \<Rightarrow> 'x"
  fp_dev_open :: "nat \<Rightarrow> 'x \<Rightarrow> bool \<times> 'x"
  sys_calloc :: "'x \<Rightarrow> bool \<times> 'x"
  sys_free :: "'x \<Rightarrow> 'x"
  pthread_mutex_init :: "'x \<Rightarrow> errno option \<times> 'x"
  pthread_mutex_destroy :: "'x \<Rightarrow> 'x"
  pthread_create :: "'x \<Rightarrow> errno option \<times> 'x"
  sys_time :: "'x \<Rightarrow> int \<times> 'x"
  clock_monotonic :: "'x \<Rightarrow> (u64 \<times> u64) \<times> 'x"
  HW_AUTH_TOKEN_VERSION :: u8
  HW_AUTH_PASSWORD :: u32
  HW_AUTH_FINGERPRINT :: u32

section \<open>The device\<close>

text \<open>
  \<^verbatim>\<open>struct m86_fingerprint_device\<close>: a callback is a number, \<open>None\<close> the null pointer;
  the two arrays keep their C lengths, \<open>None\<close> a null template. Behind the members of
  the structure: the world of system calls, the platform's state and the log of
  messages delivered, each with the callback that received it.
\<close>

record ('x, 'd) fpdev =
  notify :: "nat option"
  worker_active :: bool
  worker_joinable :: bool
  cancel_requested :: bool
  operation :: worker_operation
  active_gid :: u32
  enroll_timeout_sec :: u32
  challenge :: u64
  operation_id :: u64
  secure_user_id :: u64
  authenticator_id :: u64
  store_path :: path
  templates :: "'d option list"
  template_ids :: "u32 list"
  template_count :: nat
  posix :: world
  lib :: 'x
  sent :: "(nat \<times> message) list"

text \<open>What \<^verbatim>\<open>calloc\<close> returns: every member zero, the arrays null.\<close>

definition blank_device :: "'x \<Rightarrow> world \<Rightarrow> ('x, 'd) fpdev" where
  "blank_device x w =
     \<lparr>notify = None, worker_active = False, worker_joinable = False, cancel_requested = False,
      operation = OPERATION_IDLE, active_gid = 0, enroll_timeout_sec = 0, challenge = 0,
      operation_id = 0, secure_user_id = 0, authenticator_id = 0, store_path = [],
      templates = replicate (MAX_TEMPLATES + 1) None, template_ids = replicate MAX_TEMPLATES 0,
      template_count = 0, posix = w, lib = x, sent = []\<rparr>"

definition notify_message :: "('x, 'd) fpdev \<Rightarrow> message \<Rightarrow> ('x, 'd) fpdev" where
  "notify_message d m =
     (case notify d of None \<Rightarrow> d | Some cb \<Rightarrow> d\<lparr>sent := sent d @ [(cb, m)]\<rparr>)"

definition notify_error :: "('x, 'd) fpdev \<Rightarrow> fp_error \<Rightarrow> ('x, 'd) fpdev" where
  "notify_error d e = notify_message d (MsgError e)"

definition operation_cancelled :: "('x, 'd) fpdev \<Rightarrow> bool" where
  "operation_cancelled d = cancel_requested d"

text \<open>Byte order of the token: the processor is little-endian, so \<^verbatim>\<open>htobe\<close> swaps.\<close>

definition htobe32 :: "u32 \<Rightarrow> u32" where
  "htobe32 v = of_nat (le_value (rev (le_bytes 4 (unat v))))"

definition be32toh :: "u32 \<Rightarrow> u32" where
  "be32toh v = htobe32 v"

definition htobe64 :: "u64 \<Rightarrow> u64" where
  "htobe64 v = of_nat (le_value (rev (le_bytes 8 (unat v))))"

section \<open>A platform to evaluate examples on\<close>

text \<open>
  A small instance of the platform, for evaluating the operations on concrete inputs: a
  print store in memory, scripted scans, and a clock that advances by one at each reading.
\<close>

record demo_lib =
  demo_prints :: "(u32 \<times> nat) list"
  demo_enroll :: "enroll_status list"
  demo_verify :: "(verify_status \<times> int) list"
  demo_clock :: nat

definition demo_lib0 :: demo_lib where
  "demo_lib0 = \<lparr>demo_prints = [], demo_enroll = [], demo_verify = [], demo_clock = 0\<rparr>"

definition demo_platform :: "(demo_lib, u32 \<times> nat, nat) platform" where
  "demo_platform =
     \<lparr>fp_discover_prints = (\<lambda>p x. (Some (demo_prints x), x)),
      fp_dscv_print_get_finger = fst,
      fp_print_data_from_dscv_print = (\<lambda>p x. ((0, Some (snd p)), x)),
      fp_dev_supports_print_data = (\<lambda>t. True),
      fp_print_data_free = (\<lambda>t x. x),
      fp_dscv_prints_free = (\<lambda>ps x. x),
      fp_print_data_save = (\<lambda>t fid p x. (0, x\<lparr>demo_prints := demo_prints x @ [(fid, t)]\<rparr>)),
      fp_print_data_delete = (\<lambda>fid x. (0, x\<lparr>demo_prints := filter (\<lambda>q. fst q \<noteq> fid) (demo_prints x)\<rparr>)),
      fp_enroll_finger = (\<lambda>t x. case demo_enroll x of [] \<Rightarrow> ((ENROLL_NEGATIVE, None), x)
                                 | st # sts \<Rightarrow> ((st, Some 42), x\<lparr>demo_enroll := sts\<rparr>)),
      fp_identify_finger = (\<lambda>g x. case demo_verify x of [] \<Rightarrow> ((VERIFY_NEGATIVE, -1), x)
                                   | v # vs \<Rightarrow> (v, x\<lparr>demo_verify := vs\<rparr>)),
      fp_dev_get_nr_enroll_stages = (\<lambda>x. 3),
      fp_dev_mode = (\<lambda>m x. x),
      fp_enroll_reset = (\<lambda>x. x),
      fp_dev_close = (\<lambda>x. x),
      fp_exit = (\<lambda>x. x),
      fp_init = (\<lambda>x. (0, x)),
      fp_discover_devs = (\<lambda>x. (Some [0], x)),
      fp_dscv_devs_free = (\<lambda>ds x. x),
      fp_dev_open = (\<lambda>i x. (True, x)),
      sys_calloc = (\<lambda>x. (True, x)),
      sys_free = (\<lambda>x. x),
      pthread_mutex_init = (\<lambda>x. (None, x)),
      pthread_mutex_destroy = (\<lambda>x. x),
      pthread_create = (\<lambda>x. (None, x)),
      sys_time = (\<lambda>x. (int (demo_clock x), x\<lparr>demo_clock := Suc (demo_clock x)\<rparr>)),
      clock_monotonic = (\<lambda>x. ((3, 500000000), x)),
      HW_AUTH_TOKEN_VERSION = 0,
      HW_AUTH_PASSWORD = 1,
      HW_AUTH_FINGERPRINT = 2\<rparr>"

section \<open>The gallery invariant\<close>

text \<open>
  What keeps the two arrays memory-safe and the gallery that is handed to
  \<^verbatim>\<open>fp_identify_finger\<close> terminated: the slots below the count are filled, the slots from
  the count on are null, and there is always a null slot behind the last template.
\<close>

definition gallery_ok :: "('x, 'd) fpdev \<Rightarrow> bool" where
  "gallery_ok d \<longleftrightarrow>
     length (templates d) = MAX_TEMPLATES + 1 \<and> length (template_ids d) = MAX_TEMPLATES \<and>
     template_count d \<le> MAX_TEMPLATES \<and>
     (\<forall>i < MAX_TEMPLATES + 1. templates d ! i \<noteq> None \<longleftrightarrow> i < template_count d) \<and>
     (\<forall>i < template_count d. 1 \<le> template_ids d ! i \<and> template_ids d ! i \<le> 10)"

text \<open>The identifiers and the templates a caller sees.\<close>

definition live_ids :: "('x, 'd) fpdev \<Rightarrow> u32 list" where
  "live_ids d = take (template_count d) (template_ids d)"

definition gallery :: "('x, 'd) fpdev \<Rightarrow> 'd list" where
  "gallery d = map the (takeWhile (\<lambda>t. t \<noteq> None) (templates d))"

section \<open>Lemmas\<close>

lemma demo_platform_simps [simp]:
  "fp_discover_prints demo_platform = (\<lambda>p x. (Some (demo_prints x), x))"
  "fp_dscv_print_get_finger demo_platform = fst"
  "fp_print_data_from_dscv_print demo_platform = (\<lambda>p x. ((0, Some (snd p)), x))"
  "fp_dev_supports_print_data demo_platform = (\<lambda>t. True)"
  "fp_print_data_free demo_platform = (\<lambda>t x. x)"
  "fp_dscv_prints_free demo_platform = (\<lambda>ps x. x)"
  "fp_print_data_save demo_platform = (\<lambda>t fid p x. (0, x\<lparr>demo_prints := demo_prints x @ [(fid, t)]\<rparr>))"
  "fp_print_data_delete demo_platform = (\<lambda>fid x. (0, x\<lparr>demo_prints := filter (\<lambda>q. fst q \<noteq> fid) (demo_prints x)\<rparr>))"
  "fp_enroll_finger demo_platform = (\<lambda>t x. case demo_enroll x of [] \<Rightarrow> ((ENROLL_NEGATIVE, None), x) | st # sts \<Rightarrow> ((st, Some 42), x\<lparr>demo_enroll := sts\<rparr>))"
  "fp_identify_finger demo_platform = (\<lambda>g x. case demo_verify x of [] \<Rightarrow> ((VERIFY_NEGATIVE, -1), x) | v # vs \<Rightarrow> (v, x\<lparr>demo_verify := vs\<rparr>))"
  "fp_dev_get_nr_enroll_stages demo_platform = (\<lambda>x. 3)"
  "fp_dev_mode demo_platform = (\<lambda>m x. x)"
  "fp_enroll_reset demo_platform = (\<lambda>x. x)"
  "fp_dev_close demo_platform = (\<lambda>x. x)"
  "fp_exit demo_platform = (\<lambda>x. x)"
  "fp_init demo_platform = (\<lambda>x. (0, x))"
  "fp_discover_devs demo_platform = (\<lambda>x. (Some [0], x))"
  "fp_dscv_devs_free demo_platform = (\<lambda>ds x. x)"
  "fp_dev_open demo_platform = (\<lambda>i x. (True, x))"
  "sys_calloc demo_platform = (\<lambda>x. (True, x))"
  "sys_free demo_platform = (\<lambda>x. x)"
  "pthread_mutex_init demo_platform = (\<lambda>x. (None, x))"
  "pthread_mutex_destroy demo_platform = (\<lambda>x. x)"
  "pthread_create demo_platform = (\<lambda>x. (None, x))"
  "sys_time demo_platform = (\<lambda>x. (int (demo_clock x), x\<lparr>demo_clock := Suc (demo_clock x)\<rparr>))"
  "clock_monotonic demo_platform = (\<lambda>x. ((3, 500000000), x))"
  "HW_AUTH_TOKEN_VERSION demo_platform = 0"
  "HW_AUTH_PASSWORD demo_platform = 1"
  "HW_AUTH_FINGERPRINT demo_platform = 2"
  by (simp_all add: demo_platform_def)

lemma blank_device_simps [simp]:
  "notify (blank_device x w) = None"
  "worker_active (blank_device x w) = False"
  "worker_joinable (blank_device x w) = False"
  "cancel_requested (blank_device x w) = False"
  "operation (blank_device x w) = OPERATION_IDLE"
  "active_gid (blank_device x w) = 0"
  "enroll_timeout_sec (blank_device x w) = 0"
  "challenge (blank_device x w) = 0"
  "operation_id (blank_device x w) = 0"
  "secure_user_id (blank_device x w) = 0"
  "authenticator_id (blank_device x w) = 0"
  "store_path (blank_device x w) = []"
  "templates (blank_device x w) = replicate (MAX_TEMPLATES + 1) None"
  "template_ids (blank_device x w) = replicate MAX_TEMPLATES 0"
  "template_count (blank_device x w) = 0"
  "posix (blank_device x w) = w"
  "lib (blank_device x w) = x"
  "sent (blank_device x w) = []"
  by (simp_all add: blank_device_def)

lemma notify_message_fields [simp]:
  "notify (notify_message d m) = notify d"
  "worker_active (notify_message d m) = worker_active d"
  "worker_joinable (notify_message d m) = worker_joinable d"
  "cancel_requested (notify_message d m) = cancel_requested d"
  "operation (notify_message d m) = operation d"
  "active_gid (notify_message d m) = active_gid d"
  "enroll_timeout_sec (notify_message d m) = enroll_timeout_sec d"
  "challenge (notify_message d m) = challenge d"
  "operation_id (notify_message d m) = operation_id d"
  "secure_user_id (notify_message d m) = secure_user_id d"
  "authenticator_id (notify_message d m) = authenticator_id d"
  "store_path (notify_message d m) = store_path d"
  "templates (notify_message d m) = templates d"
  "template_ids (notify_message d m) = template_ids d"
  "template_count (notify_message d m) = template_count d"
  "posix (notify_message d m) = posix d"
  "lib (notify_message d m) = lib d"
  by (simp_all add: notify_message_def split: option.split)

lemma sent_notify_message:
  "sent (notify_message d m) = sent d @ (case notify d of None \<Rightarrow> [] | Some cb \<Rightarrow> [(cb, m)])"
  by (simp add: notify_message_def split: option.split)

lemma gallery_ok_cong:
  "templates d' = templates d \<Longrightarrow> template_ids d' = template_ids d \<Longrightarrow>
   template_count d' = template_count d \<Longrightarrow> gallery_ok d' \<longleftrightarrow> gallery_ok d"
  by (simp add: gallery_ok_def)

lemma gallery_ok_notify [simp]: "gallery_ok (notify_message d m) \<longleftrightarrow> gallery_ok d"
  by (rule gallery_ok_cong) simp_all

lemma gallery_ok_update [simp]:
  "gallery_ok (d\<lparr>notify := v0\<rparr>) \<longleftrightarrow> gallery_ok d"
  "gallery_ok (d\<lparr>worker_active := v1\<rparr>) \<longleftrightarrow> gallery_ok d"
  "gallery_ok (d\<lparr>worker_joinable := v2\<rparr>) \<longleftrightarrow> gallery_ok d"
  "gallery_ok (d\<lparr>cancel_requested := v3\<rparr>) \<longleftrightarrow> gallery_ok d"
  "gallery_ok (d\<lparr>operation := v4\<rparr>) \<longleftrightarrow> gallery_ok d"
  "gallery_ok (d\<lparr>active_gid := v5\<rparr>) \<longleftrightarrow> gallery_ok d"
  "gallery_ok (d\<lparr>enroll_timeout_sec := v6\<rparr>) \<longleftrightarrow> gallery_ok d"
  "gallery_ok (d\<lparr>challenge := v7\<rparr>) \<longleftrightarrow> gallery_ok d"
  "gallery_ok (d\<lparr>operation_id := v8\<rparr>) \<longleftrightarrow> gallery_ok d"
  "gallery_ok (d\<lparr>secure_user_id := v9\<rparr>) \<longleftrightarrow> gallery_ok d"
  "gallery_ok (d\<lparr>authenticator_id := v10\<rparr>) \<longleftrightarrow> gallery_ok d"
  "gallery_ok (d\<lparr>store_path := v11\<rparr>) \<longleftrightarrow> gallery_ok d"
  "gallery_ok (d\<lparr>posix := v12\<rparr>) \<longleftrightarrow> gallery_ok d"
  "gallery_ok (d\<lparr>lib := v13\<rparr>) \<longleftrightarrow> gallery_ok d"
  "gallery_ok (d\<lparr>sent := v14\<rparr>) \<longleftrightarrow> gallery_ok d"
  by (simp_all add: gallery_ok_def)

lemma gallery_ok_blank: "gallery_ok (blank_device x w)"
  by (simp add: gallery_ok_def del: replicate_Suc)

lemma length_live_ids: "gallery_ok d \<Longrightarrow> length (live_ids d) = template_count d"
  by (simp add: gallery_ok_def live_ids_def)

lemma takeWhile_upto:
  "k < length xs \<Longrightarrow> \<forall>i < k. P (xs ! i) \<Longrightarrow> \<not> P (xs ! k) \<Longrightarrow> takeWhile P xs = take k xs"
  by (rule takeWhile_eq_take_P_nth) auto

lemma gallery_eq: "gallery_ok d \<Longrightarrow> gallery d = map the (take (template_count d) (templates d))"
proof -
  assume g: "gallery_ok d"
  then have "template_count d < length (templates d)"
    and "\<forall>i < template_count d. templates d ! i \<noteq> None"
    and "\<not> templates d ! template_count d \<noteq> None"
    by (auto simp: gallery_ok_def)
  from takeWhile_upto [OF this] show ?thesis by (simp add: gallery_def)
qed

lemma length_gallery: "gallery_ok d \<Longrightarrow> length (gallery d) = template_count d"
  by (simp add: gallery_eq) (simp add: gallery_ok_def)

lemma unat_of_nat_le_value:
  "length bs = 4 \<Longrightarrow> unat (of_nat (le_value bs) :: u32) = le_value bs"
  using le_value_less [of bs] by (simp add: unat_of_nat take_bit_eq_mod)

lemma le_bytes_le_value: "le_bytes (length bs) (le_value bs) = bs"
proof (induction bs)
  case Nil
  then show ?case by simp
next
  case (Cons b bs)
  have b: "unat b < 256" using unsigned_less [of b] by simp
  then have "(unat b + 256 * le_value bs) div 256 = le_value bs"
    and "(unat b + 256 * le_value bs) mod 256 = unat b"
    by simp_all
  with Cons.IH show ?case by simp
qed

lemma htobe32_involution [simp]: "htobe32 (htobe32 v) = v"
proof -
  let ?bs = "rev (le_bytes 4 (unat v))"
  have "unat (of_nat (le_value ?bs) :: u32) = le_value ?bs"
    by (rule unat_of_nat_le_value) simp
  then have "htobe32 (htobe32 v) = of_nat (le_value (rev (le_bytes 4 (le_value ?bs))))"
    by (simp add: htobe32_def)
  also have "le_bytes 4 (le_value ?bs) = ?bs"
    using le_bytes_le_value [of ?bs] by simp
  finally show ?thesis
    using le_value_le_bytes [OF unat_u32_less [of v]] by simp
qed

end
