(* ===== verification/Fp_Store.thy ===== *)
theory Fp_Store
  imports Fp_Device
begin

text \<open>
  Persistent state of the fingerprint HAL: exact reads and writes, random identifiers,
  the metadata file with its write-to-temporary-and-rename update, and the template
  gallery loaded from libfprint's store.
\<close>

section \<open>Exact transfers\<close>

text \<open>\<^verbatim>\<open>read_exact\<close> returns the code and the bytes it put into the buffer.\<close>

function read_exact :: "nat \<Rightarrow> nat \<Rightarrow> world \<Rightarrow> (int \<times> byte list) \<times> world" where
  "read_exact fd len w =
     (if len = 0 then ((0, []), w)
      else case sys_read fd len w of
        (Inl e, w') \<Rightarrow> if e = EINTR then read_exact fd len w' else ((neg e, []), w')
      | (Inr bs, w') \<Rightarrow>
          if bs = [] then ((neg EIO, []), w')
          else (case read_exact fd (len - length bs) w' of
                  ((r, rest), w'') \<Rightarrow> ((r, bs @ rest), w'')))"
  by pat_completeness auto
termination
proof (relation "measures [\<lambda>(fd, len, w). length (faults w), \<lambda>(fd, len, w). len]", goal_cases)
  case 1
  then show ?case by simp
next
  case (2 fd len w x w' e)
  then show ?case using sys_read_Inl [of fd len w EINTR w'] by auto
next
  case (3 fd len w x w' bs)
  then show ?case using sys_read_Inr_len [of fd len w bs w'] by (auto simp: le_less)
qed

function write_exact :: "nat \<Rightarrow> byte list \<Rightarrow> world \<Rightarrow> int \<times> world" where
  "write_exact fd data w =
     (if data = [] then (0, w)
      else case sys_write fd data w of
        (Inl e, w') \<Rightarrow> if e = EINTR then write_exact fd data w' else (neg e, w')
      | (Inr k, w') \<Rightarrow>
          if k = 0 then (neg EIO, w') else write_exact fd (drop k data) w')"
  by pat_completeness auto
termination
proof (relation "measures [\<lambda>(fd, data, w). length (faults w), \<lambda>(fd, data, w). length data]", goal_cases)
  case 1
  then show ?case by simp
next
  case (2 fd data w x w' e)
  then show ?case using sys_write_Inl [of fd data w EINTR w'] by auto
next
  case (3 fd data w x w' k)
  then show ?case using sys_write_Inr_len [of fd data w k w'] by (auto simp: le_less)
qed

declare read_exact.simps [simp del] write_exact.simps [simp del]

definition random_u64 :: "world \<Rightarrow> u64 \<times> world" where
  "random_u64 w = (case sys_open_rd urandom_path w of
     (Inl e, w1) \<Rightarrow> (0, w1)
   | (Inr fd, w1) \<Rightarrow> (case read_exact fd 8 w1 of
       ((result, bs), w2) \<Rightarrow>
         (let w3 = snd (sys_close fd w2)
          in if result < 0 then (0, w3)
             else (let value = of_nat (le_value bs) in (if value = 0 then 1 else value, w3)))))"

section \<open>The metadata file\<close>

text \<open>The structure as the 24 bytes C writes: no padding, little-endian members.\<close>

definition encode_metadata :: "fingerprint_metadata \<Rightarrow> byte list" where
  "encode_metadata m =
     le_bytes 4 (unat (md_magic m)) @ le_bytes 4 (unat (md_version m)) @
     le_bytes 8 (unat (md_secure_user_id m)) @ le_bytes 8 (unat (md_authenticator_id m))"

definition decode_metadata :: "byte list \<Rightarrow> fingerprint_metadata" where
  "decode_metadata bs =
     \<lparr>md_magic = of_nat (le_value (take 4 bs)),
      md_version = of_nat (le_value (take 4 (drop 4 bs))),
      md_secure_user_id = of_nat (le_value (take 8 (drop 8 bs))),
      md_authenticator_id = of_nat (le_value (take 8 (drop 16 bs)))\<rparr>"

definition metadata_path :: "('x, 'd) fpdev \<Rightarrow> int \<times> path" where
  "metadata_path d =
     (if store_path d = [] then (neg EINVAL, [])
      else let p = store_path d @ ''/'' @ METADATA_NAME
           in if length p \<ge> PATH_MAX then (neg ENAMETOOLONG, take (PATH_MAX - 1) p) else (0, p))"

definition load_metadata_locked :: "('x, 'd) fpdev \<Rightarrow> int \<times> ('x, 'd) fpdev" where
  "load_metadata_locked d0 =
     (let d = d0\<lparr>secure_user_id := 0, authenticator_id := 0\<rparr>; (result, p) = metadata_path d
      in if result < 0 then (result, d)
         else case sys_open_rd p (posix d) of
           (Inl e, w1) \<Rightarrow> (if e = ENOENT then 0 else neg e, d\<lparr>posix := w1\<rparr>)
         | (Inr fd, w1) \<Rightarrow> (case read_exact fd 24 w1 of
             ((r, bs), w2) \<Rightarrow>
               (let w3 = snd (sys_close fd w2); m = decode_metadata bs
                in if r < 0 \<or> md_magic m \<noteq> METADATA_MAGIC \<or> md_version m \<noteq> METADATA_VERSION
                   then (if r < 0 then r else neg EINVAL, d\<lparr>posix := w3\<rparr>)
                   else (0, d\<lparr>posix := w3, secure_user_id := md_secure_user_id m,
                              authenticator_id := md_authenticator_id m\<rparr>))))"

definition device_metadata :: "('x, 'd) fpdev \<Rightarrow> fingerprint_metadata" where
  "device_metadata d =
     \<lparr>md_magic = METADATA_MAGIC, md_version = METADATA_VERSION,
      md_secure_user_id = secure_user_id d, md_authenticator_id = authenticator_id d\<rparr>"

text \<open>
  The steps on the open temporary file, in the order of the code: write, sync, close,
  rename, and on any error remove the temporary file.
\<close>

definition commit_metadata :: "nat \<Rightarrow> path \<Rightarrow> path \<Rightarrow> byte list \<Rightarrow> world \<Rightarrow> int \<times> world" where
  "commit_metadata fd temporary p data w =
     (let (r1, w1) = write_exact fd data w;
          (r2, w2) = (if r1 = 0 then (case sys_fsync fd w1 of
                                        (Inl e, w') \<Rightarrow> (neg e, w') | (Inr _, w') \<Rightarrow> (r1, w'))
                      else (r1, w1));
          (r3, w3) = (case sys_close fd w2 of
                        (Inl e, w') \<Rightarrow> (if r2 = 0 then neg e else r2, w') | (Inr _, w') \<Rightarrow> (r2, w'));
          (r4, w4) = (if r3 = 0 then (case sys_rename temporary p w3 of
                                        (Inl e, w') \<Rightarrow> (neg e, w') | (Inr _, w') \<Rightarrow> (r3, w'))
                      else (r3, w3))
      in (r4, if r4 < 0 then snd (sys_unlink temporary w4) else w4))"

definition save_metadata_locked :: "('x, 'd) fpdev \<Rightarrow> int \<times> world" where
  "save_metadata_locked d =
     (let (result, p) = metadata_path d; temporary = p @ ''.tmp''
      in if result < 0 then (result, posix d)
         else if length temporary \<ge> PATH_MAX then (neg ENAMETOOLONG, posix d)
         else case sys_open_trunc temporary (posix d) of
           (Inl e, w1) \<Rightarrow> (neg e, w1)
         | (Inr fd, w1) \<Rightarrow> commit_metadata fd temporary p (encode_metadata (device_metadata d)) w1)"

section \<open>The template gallery\<close>

definition free_slot :: "('x, 'p, 'd) platform \<Rightarrow> nat \<Rightarrow> ('x, 'd) fpdev \<Rightarrow> ('x, 'd) fpdev" where
  "free_slot L i d =
     d\<lparr>lib := fp_print_data_free L (templates d ! i) (lib d),
       templates := (templates d)[i := None], template_ids := (template_ids d)[i := 0]\<rparr>"

definition free_templates_locked :: "('x, 'p, 'd) platform \<Rightarrow> ('x, 'd) fpdev \<Rightarrow> ('x, 'd) fpdev" where
  "free_templates_locked L d =
     (fold (free_slot L) [0..<template_count d] d)\<lparr>template_count := 0\<rparr>"

text \<open>One round of the loading loop.\<close>

definition load_print :: "('x, 'p, 'd) platform \<Rightarrow> 'p \<Rightarrow> ('x, 'd) fpdev \<Rightarrow> ('x, 'd) fpdev" where
  "load_print L p d =
     (let fid = fp_dscv_print_get_finger L p
      in if fid = 0 \<or> fid > 10 \<or> template_count d \<ge> MAX_TEMPLATES then d
         else case fp_print_data_from_dscv_print L p (lib d) of
           ((r, data), x) \<Rightarrow>
             if r \<noteq> 0 \<or> data = None \<or> \<not> fp_dev_supports_print_data L (the data)
             then d\<lparr>lib := fp_print_data_free L data x\<rparr>
             else d\<lparr>lib := x, templates := (templates d)[template_count d := data],
                    template_ids := (template_ids d)[template_count d := fid],
                    template_count := Suc (template_count d)\<rparr>)"

definition load_templates_locked ::
    "('x, 'p, 'd) platform \<Rightarrow> ('x, 'd) fpdev \<Rightarrow> int \<times> ('x, 'd) fpdev" where
  "load_templates_locked L d0 =
     (let d = free_templates_locked L d0
      in case fp_discover_prints L (store_path d) (lib d) of
           (None, x) \<Rightarrow> (0, d\<lparr>lib := x\<rparr>)
         | (Some ps, x) \<Rightarrow>
             (let d' = fold (load_print L) ps (d\<lparr>lib := x\<rparr>)
              in (0, d'\<lparr>lib := fp_dscv_prints_free L ps (lib d')\<rparr>)))"

definition rotate_authenticator_locked :: "('x, 'd) fpdev \<Rightarrow> int \<times> ('x, 'd) fpdev" where
  "rotate_authenticator_locked d0 =
     (if template_count d0 = 0 then
        (let d = d0\<lparr>authenticator_id := 0\<rparr>; (r, w) = save_metadata_locked d
         in (r, d\<lparr>posix := w\<rparr>))
      else
        (let (v, w0) = random_u64 (posix d0); d = d0\<lparr>authenticator_id := v, posix := w0\<rparr>
         in if v = 0 then (neg EIO, d)
            else (let (r, w) = save_metadata_locked d in (r, d\<lparr>posix := w\<rparr>))))"

text \<open>\<^verbatim>\<open>find_free_fid_locked\<close>: the candidates in order, each searched among the live identifiers.\<close>

fun fid_used :: "u32 list \<Rightarrow> u32 \<Rightarrow> bool" where
  "fid_used [] c = False"
| "fid_used (i # is) c = (if i = c then True else fid_used is c)"

function find_free_from :: "u32 list \<Rightarrow> nat \<Rightarrow> u32" where
  "find_free_from ids candidate =
     (if candidate \<le> MAX_TEMPLATES then
        (if fid_used ids (of_nat candidate) then find_free_from ids (Suc candidate)
         else of_nat candidate)
      else 0)"
  by pat_completeness auto
termination
  by (relation "measure (\<lambda>(ids, candidate). Suc MAX_TEMPLATES - candidate)") auto

declare find_free_from.simps [simp del]

definition find_free_fid_locked :: "('x, 'd) fpdev \<Rightarrow> u32" where
  "find_free_fid_locked d = find_free_from (live_ids d) 1"


section \<open>Lemmas: exact transfers\<close>

text \<open>
  A descriptor the code has just opened sits on top of the table; reads and writes move
  its position only, and closing it restores the table.
\<close>

definition holds :: "nat \<Rightarrow> ofile \<Rightarrow> (nat \<times> ofile) list \<Rightarrow> world \<Rightarrow> bool" where
  "holds fd f t w \<longleftrightarrow> fds w = (fd, f) # t \<and> fd = fresh_fd t"

lemma advance_holds: "holds fd f t w \<Longrightarrow> holds fd (f\<lparr>ofile_pos := ofile_pos f + n\<rparr>) t (advance fd n w)"
  using map_fresh_id [of t "\<lambda>d f. (d, f\<lparr>ofile_pos := ofile_pos f + n\<rparr>)"]
  by (simp add: holds_def advance_def split_def)

lemma advance_fields [simp]:
  "files (advance fd n w) = files w" "stores (advance fd n w) = stores w"
  "entropy (advance fd n w) = entropy w" "faults (advance fd n w) = faults w"
  by (simp_all add: advance_def)

lemma holds_lookup: "holds fd f t w \<Longrightarrow> map_of (fds w) fd = Some f"
  by (simp add: holds_def)

lemma holds_cong: "fds w' = fds w \<Longrightarrow> holds fd f t w' \<longleftrightarrow> holds fd f t w"
  by (simp add: holds_def)

lemma sys_write_append:
  assumes "holds fd f t w" and "files w (ofile_path f) = Some c" and "length c = ofile_pos f"
    and "sys_write fd v w = (Inr k, w')"
  shows "k \<le> length v \<and> holds fd (f\<lparr>ofile_pos := ofile_pos f + k\<rparr>) t w' \<and>
    files w' = (files w)(ofile_path f \<mapsto> c @ take k v) \<and> stores w' = stores w \<and>
    entropy w' = entropy w"
proof -
  obtain o' w1 where o: "take_outcome w = (o', w1)" by fastforce
  then obtain fs where w1: "w1 = w\<lparr>faults := fs\<rparr>" using take_outcome_world by blast
  have nf: "\<forall>e. o' \<noteq> Fail e" using assms(4) o by (auto simp: sys_write_def)
  have k: "k = transfer o' (length v)"
    and w': "w' = advance fd k (w1\<lparr>files := (files w1)(ofile_path f \<mapsto> take (ofile_pos f) c @ take k v @ drop (ofile_pos f + k) c)\<rparr>)"
    using assms nf o holds_lookup [OF assms(1)] w1
    by (auto simp: sys_write_def Let_def split: outcome.splits)
  have "holds fd (f\<lparr>ofile_pos := ofile_pos f + k\<rparr>) t w'"
    unfolding w' by (rule advance_holds) (use assms(1) in \<open>simp add: w1 holds_def\<close>)
  then show ?thesis using assms(3) by (simp add: k w' w1)
qed


lemma write_exact_Nil [simp]: "write_exact fd [] w = (0, w)"
  by (simp add: write_exact.simps)

lemma read_exact_0 [simp]: "read_exact fd 0 w = ((0, []), w)"
  by (simp add: read_exact.simps)

text \<open>One round of the writing loop, by what the call returned.\<close>

lemma write_exact_round:
  assumes "write_exact fd data w = (r, w')" and "data \<noteq> []"
  obtains (intr) w1 where "sys_write fd data w = (Inl EINTR, w1)" "write_exact fd data w1 = (r, w')"
  | (err) e where "sys_write fd data w = (Inl e, w')" "e \<noteq> EINTR" "r = neg e"
  | (zero) "sys_write fd data w = (Inr 0, w')" "r = neg EIO"
  | (more) k w1 where "sys_write fd data w = (Inr k, w1)" "k \<noteq> 0"
      "write_exact fd (drop k data) w1 = (r, w')"
  using assms by (auto simp: write_exact.simps [of fd data w] split: prod.splits sum.splits if_splits)

lemma write_exact_append:
  assumes "holds fd f t w" and "files w (ofile_path f) = Some c" and "length c = ofile_pos f"
    and "write_exact fd data w = (r, w')"
  shows "\<exists>k \<le> length data. \<exists>f'. holds fd f' t w' \<and>
    files w' = (files w)(ofile_path f \<mapsto> c @ take k data) \<and> stores w' = stores w \<and>
    entropy w' = entropy w \<and> (if r = 0 then k = length data else r < 0)"
  using assms
proof (induction fd data w arbitrary: f c r w' rule: write_exact.induct)
  case (1 fd data w)
  show ?case
  proof (cases "data = []")
    case True
    with "1.prems" show ?thesis by (auto simp: map_upd_triv)
  next
    case False
    from "1.prems"(4) False show ?thesis
    proof (cases rule: write_exact_round)
      case (intr w1)
      obtain fs where w1: "w1 = w\<lparr>faults := fs\<rparr>" using sys_write_Inl [OF intr(1)] by blast
      from "1.IH"(1) [OF False intr(1) [symmetric] refl refl, of f c r w'] intr(2) "1.prems"(1-3)
      show ?thesis by (simp add: w1 holds_def)
    next
      case (err e)
      obtain fs where "w' = w\<lparr>faults := fs\<rparr>" using sys_write_Inl [OF err(1)] by blast
      with err "1.prems"(1-3) show ?thesis
        by (intro exI [of _ 0]) (auto simp: holds_def map_upd_triv)
    next
      case zero
      then show ?thesis using sys_write_append [OF "1.prems"(1-3) zero(1)]
        by (intro exI [of _ 0]) auto
    next
      case (more k w1)
      note ap = sys_write_append [OF "1.prems"(1-3) more(1)]
      have "\<exists>j \<le> length (drop k data). \<exists>f'. holds fd f' t w' \<and>
          files w' = (files w1)(ofile_path (f\<lparr>ofile_pos := ofile_pos f + k\<rparr>)
                                \<mapsto> (c @ take k data) @ take j (drop k data)) \<and>
          stores w' = stores w1 \<and> entropy w' = entropy w1 \<and>
          (if r = 0 then j = length (drop k data) else r < 0)"
        by (rule "1.IH"(2) [OF False more(1) [symmetric] refl more(2)])
          (use ap more(3) "1.prems"(3) in \<open>simp_all add: min_def\<close>)
      then obtain j f' where "j \<le> length data - k" "holds fd f' t w'"
        "files w' = (files w1)(ofile_path f \<mapsto> c @ take k data @ take j (drop k data))"
        "stores w' = stores w1" "entropy w' = entropy w1" "if r = 0 then j = length data - k else r < 0"
        by (auto simp: fun_upd_def)
      then show ?thesis using ap
        by (intro exI [of _ "k + j"]) (auto simp: take_add split: if_splits)
    qed
  qed
qed


lemma read_exact_round:
  assumes "read_exact fd len w = ((r, bs), w')" and "len \<noteq> 0"
  obtains (intr) w1 where "sys_read fd len w = (Inl EINTR, w1)" "read_exact fd len w1 = ((r, bs), w')"
  | (err) e where "sys_read fd len w = (Inl e, w')" "e \<noteq> EINTR" "r = neg e" "bs = []"
  | (eof) "sys_read fd len w = (Inr [], w')" "r = neg EIO" "bs = []"
  | (more) ds rest w1 where "sys_read fd len w = (Inr ds, w1)" "ds \<noteq> []" "bs = ds @ rest"
      "read_exact fd (len - length ds) w1 = ((r, rest), w')"
  using assms by (auto simp: read_exact.simps [of fd len w] split: prod.splits sum.splits if_splits)

definition file_bytes :: "world \<Rightarrow> path \<Rightarrow> byte list" where
  "file_bytes w p = (case files w p of None \<Rightarrow> [] | Some c \<Rightarrow> c)"

lemma sys_read_Inr_holds:
  assumes "holds fd f t w" and "sys_read fd n w = (Inr bs, w')"
  shows "files w' = files w \<and> stores w' = stores w \<and> length bs \<le> n \<and>
    (\<exists>f'. holds fd f' t w' \<and> ofile_kind f' = ofile_kind f \<and> ofile_path f' = ofile_path f \<and>
          (ofile_kind f = RegularFile \<longrightarrow> ofile_pos f' = ofile_pos f + length bs \<and>
             bs = take (length bs) (drop (ofile_pos f) (file_bytes w (ofile_path f)))))"
proof -
  obtain c w1 where o: "take_outcome w = (c, w1)" by fastforce
  then obtain fs where w1: "w1 = w\<lparr>faults := fs\<rparr>" using take_outcome_world by blast
  have nf: "\<forall>e. c \<noteq> Fail e" using assms(2) o by (auto simp: sys_read_def)
  have h1: "holds fd f t w1" using assms(1) by (simp add: holds_def w1)
  have look: "map_of (fds w1) fd = Some f" using h1 by (rule holds_lookup)
  have len: "length bs \<le> n" using sys_read_Inr_len [OF assms(2)] by simp
  show ?thesis
  proof (cases "ofile_kind f")
    case RegularFile
    then have bs: "bs = take (transfer c n) (drop (ofile_pos f) (file_bytes w (ofile_path f)))"
      and w': "w' = advance fd (length bs) w1"
      using assms(2) o nf look
      by (auto simp: sys_read_def Let_def file_bytes_def w1 split: outcome.splits option.splits)
    have "bs = take (length bs) (drop (ofile_pos f) (file_bytes w (ofile_path f)))"
      by (metis append_take_drop_id append_eq_conv_conj bs)
    with advance_holds [OF h1, of "length bs"] len RegularFile show ?thesis by (auto simp: w' w1)
  next
    case RandomDev
    then have "fds w' = fds w1" "files w' = files w" "stores w' = stores w"
      using assms(2) o nf look by (auto simp: sys_read_def Let_def w1 split: outcome.splits)
    with h1 len RandomDev show ?thesis by (auto simp: holds_def)
  next
    case NodeFile
    then show ?thesis using assms(2) o nf look by (auto simp: sys_read_def split: outcome.splits)
  qed
qed

lemma read_exact_spec:
  assumes "holds fd f t w" and "read_exact fd len w = ((r, bs), w')"
  shows "files w' = files w \<and> stores w' = stores w \<and> (\<exists>f'. holds fd f' t w') \<and>
    (if r = 0 then length bs = len else r < 0) \<and>
    (ofile_kind f = RegularFile \<and> r = 0 \<longrightarrow>
       bs = take len (drop (ofile_pos f) (file_bytes w (ofile_path f))))"
  using assms
proof (induction fd len w arbitrary: f r bs w' rule: read_exact.induct)
  case (1 fd len w)
  show ?case
  proof (cases "len = 0")
    case True
    with "1.prems" show ?thesis by auto
  next
    case False
    from "1.prems"(2) False show ?thesis
    proof (cases rule: read_exact_round)
      case (intr w1)
      obtain fs where w1: "w1 = w\<lparr>faults := fs\<rparr>" using sys_read_Inl [OF intr(1)] by blast
      from "1.IH"(1) [OF False intr(1) [symmetric] refl refl _ intr(2), of f] "1.prems"(1)
      show ?thesis by (simp add: w1 holds_def file_bytes_def)
    next
      case (err e)
      obtain fs where "w' = w\<lparr>faults := fs\<rparr>" using sys_read_Inl [OF err(1)] by blast
      with err "1.prems"(1) show ?thesis by (auto simp: holds_def)
    next
      case eof
      then show ?thesis using sys_read_Inr_holds [OF "1.prems"(1) eof(1)] by auto
    next
      case (more ds rest w1)
      from sys_read_Inr_holds [OF "1.prems"(1) more(1)]
      obtain g where g: "holds fd g t w1" and gk: "ofile_kind g = ofile_kind f" "ofile_path g = ofile_path f"
        and fr: "files w1 = files w" "stores w1 = stores w" "length ds \<le> len"
        and gp: "ofile_kind f = RegularFile \<longrightarrow> ofile_pos g = ofile_pos f + length ds \<and>
            ds = take (length ds) (drop (ofile_pos f) (file_bytes w (ofile_path f)))"
        by blast
      have fb: "file_bytes w1 = file_bytes w" by (simp add: file_bytes_def fun_eq_iff fr)
      note IH = "1.IH"(2) [OF False more(1) [symmetric] refl more(2) g more(4)]
      have "bs = take len (drop (ofile_pos f) (file_bytes w (ofile_path f)))"
        if k: "ofile_kind f = RegularFile" and r: "r = 0"
      proof -
        have "rest = take (len - length ds) (drop (length ds) (drop (ofile_pos f) (file_bytes w (ofile_path f))))"
          using IH k r gk gp fb by (simp add: add.commute)
        moreover have "ds = take (length ds) (drop (ofile_pos f) (file_bytes w (ofile_path f)))"
          using gp k by simp
        ultimately show ?thesis
          using more(3) fr(3) by (metis le_add_diff_inverse take_add)
      qed
      with IH fr more(3) show ?thesis by (auto split: if_splits)
    qed
  qed
qed

lemma read_exact_no_fault:
  assumes "holds fd f t w" and "faults w = []" and "ofile_kind f = RegularFile"
    and "ofile_pos f + len \<le> length (file_bytes w (ofile_path f))"
  shows "\<exists>w'. read_exact fd len w = ((0, take len (drop (ofile_pos f) (file_bytes w (ofile_path f)))), w')"
proof (cases "len = 0")
  case True
  then show ?thesis by simp
next
  case False
  let ?bs = "take len (drop (ofile_pos f) (file_bytes w (ofile_path f)))"
  have len: "length ?bs = len" using assms(4) by simp
  have "sys_read fd len w = (Inr ?bs, advance fd len w)"
    using assms len holds_lookup [OF assms(1)]
    by (auto simp: sys_read_def take_outcome_no_fault Let_def file_bytes_def split: option.splits)
  moreover have "?bs \<noteq> []" using False len by (metis list.size(3))
  ultimately show ?thesis using len by (simp add: read_exact.simps [of fd len w])
qed


section \<open>Lemmas: the metadata file\<close>

lemma length_encode_metadata [simp]: "length (encode_metadata m) = 24"
  by (simp add: encode_metadata_def)

lemma encode_metadata_not_Nil [simp]: "encode_metadata m \<noteq> []"
  using length_encode_metadata [of m] by fastforce

lemma decode_encode_metadata [simp]: "decode_metadata (encode_metadata m) = m"
  using le_value_le_bytes [OF unat_u32_less [of "md_magic m"]]
    le_value_le_bytes [OF unat_u32_less [of "md_version m"]]
    le_value_le_bytes [OF unat_u64_less [of "md_secure_user_id m"]]
    le_value_le_bytes [OF unat_u64_less [of "md_authenticator_id m"]]
  by (simp add: decode_metadata_def encode_metadata_def)

lemma close_holds: "holds fd f t w \<Longrightarrow> sys_close fd w = (r, w') \<Longrightarrow>
    fds w' = t \<and> files w' = files w \<and> stores w' = stores w \<and> entropy w' = entropy w"
  using sys_close_Pair [of fd w r w'] by (auto simp: holds_def)

lemma sys_unlink_frame:
  "sys_unlink p w = (r, w') \<Longrightarrow>
     fds w' = fds w \<and> stores w' = stores w \<and> entropy w' = entropy w \<and>
     (\<forall>q. q \<noteq> p \<longrightarrow> files w' q = files w q)"
  by (cases w rule: take_outcome_cases)
    (auto simp: sys_unlink_def split: outcome.splits option.splits)

lemma sys_rename_Pair:
  assumes "sys_rename p q w = (r, w')" and "files w p = Some c"
  shows "fds w' = fds w \<and> stores w' = stores w \<and> entropy w' = entropy w \<and>
    (case r of Inl e \<Rightarrow> files w' = files w | Inr _ \<Rightarrow> files w' = (files w)(q \<mapsto> c, p := None))"
  using assms
  by (cases w rule: take_outcome_cases)
    (auto simp: sys_rename_def split: outcome.splits option.splits)

text \<open>
  The commit sequence on an empty temporary file either installs exactly the data under
  the final name and leaves no temporary file, or reports an error and changes nothing
  but the temporary file.
\<close>

lemma commit_metadata_atomic:
  assumes h: "holds fd f t w" and fp: "ofile_path f = tmp" "ofile_pos f = 0"
    and tmp: "files w tmp = Some []" "tmp \<noteq> p"
    and run: "commit_metadata fd tmp p data w = (r, w')"
  shows "fds w' = t \<and> stores w' = stores w \<and> entropy w' = entropy w \<and>
    (if r = 0 then files w' = (files w)(p \<mapsto> data, tmp := None)
     else r < 0 \<and> (\<forall>q. q \<noteq> tmp \<longrightarrow> files w' q = files w q))"
proof -
  obtain r1 w1 where wr: "write_exact fd data w = (r1, w1)" by fastforce
  from write_exact_append [OF h _ _ wr, of "[]"] fp tmp
  obtain k f1 where k: "holds fd f1 t w1" "files w1 = (files w)(tmp \<mapsto> take k data)"
    "stores w1 = stores w" "entropy w1 = entropy w" "if r1 = 0 then k = length data else r1 < 0"
    by auto
  obtain x2 w2 where fs: "sys_fsync fd w1 = (x2, w2)" by fastforce
  define r2 where "r2 = (if r1 = 0 then (case x2 of Inl e \<Rightarrow> neg e | Inr _ \<Rightarrow> r1) else r1)"
  define v2 where "v2 = (if r1 = 0 then w2 else w1)"
  have v2: "holds fd f1 t v2" "files v2 = files w1" "stores v2 = stores w" "entropy v2 = entropy w"
    using k sys_fsync_Pair [OF fs] by (auto simp: v2_def holds_def)
  have r2: "if r2 = 0 then k = length data else r2 < 0"
    using k(5) by (auto simp: r2_def split: sum.splits if_splits)
  obtain x3 w3 where cl: "sys_close fd v2 = (x3, w3)" by fastforce
  define r3 where "r3 = (case x3 of Inl e \<Rightarrow> if r2 = 0 then neg e else r2 | Inr _ \<Rightarrow> r2)"
  have w3: "fds w3 = t" "files w3 = files w1" "stores w3 = stores w" "entropy w3 = entropy w"
    using close_holds [OF v2(1) cl] v2 by simp_all
  have r3: "if r3 = 0 then k = length data else r3 < 0"
    using r2 by (auto simp: r3_def split: sum.splits if_splits)
  obtain x4 w4 where rn: "sys_rename tmp p w3 = (x4, w4)" by fastforce
  define r4 where "r4 = (if r3 = 0 then (case x4 of Inl e \<Rightarrow> neg e | Inr _ \<Rightarrow> r3) else r3)"
  define v4 where "v4 = (if r3 = 0 then w4 else w3)"
  have run': "r = r4" "w' = (if r4 < 0 then snd (sys_unlink tmp v4) else v4)"
    using run wr fs cl rn
    by (auto simp: commit_metadata_def Let_def r2_def v2_def r3_def r4_def v4_def split: sum.splits if_splits)
  note rnf = sys_rename_Pair [OF rn, of "take k data"]
  have v4: "fds v4 = t" "stores v4 = stores w" "entropy v4 = entropy w"
    "if r4 = 0 then files v4 = (files w)(p \<mapsto> data, tmp := None)
     else r4 < 0 \<and> (\<forall>q. q \<noteq> tmp \<longrightarrow> files v4 q = files w q)"
    using rnf w3 k(2) r3 tmp(2) by (auto simp: r4_def v4_def split: sum.splits if_splits)
  show ?thesis
  proof (cases "r4 < 0")
    case True
    with v4 run' sys_unlink_frame [of tmp v4] show ?thesis
      by (metis less_irrefl prod.collapse)
  next
    case False
    with v4 run' show ?thesis by (auto split: if_splits)
  qed
qed

lemma metadata_path_cases:
  "metadata_path d = (r, p) \<Longrightarrow>
     (r = 0 \<and> p = store_path d @ ''/'' @ METADATA_NAME \<and> store_path d \<noteq> []) \<or> r < 0"
  by (auto simp: metadata_path_def Let_def split: if_splits)

text \<open>The path of the metadata file, where the HAL has one.\<close>

definition metadata_file :: "('x, 'd) fpdev \<Rightarrow> path" where
  "metadata_file d = store_path d @ ''/'' @ METADATA_NAME"

lemma save_metadata_atomic_world:
  assumes "save_metadata_locked d = (r, w')"
  shows "fds w' = fds (posix d) \<and> stores w' = stores (posix d) \<and> entropy w' = entropy (posix d) \<and>
    (if r = 0
     then files w' = (files (posix d))(metadata_file d \<mapsto> encode_metadata (device_metadata d),
                                       metadata_file d @ ''.tmp'' := None)
     else r < 0 \<and> (\<forall>q. q \<noteq> metadata_file d @ ''.tmp'' \<longrightarrow> files w' q = files (posix d) q))"
proof -
  obtain result p where mp: "metadata_path d = (result, p)" by fastforce
  let ?tmp = "p @ ''.tmp''"
  show ?thesis
  proof (cases "result < 0 \<or> length ?tmp \<ge> PATH_MAX")
    case True
    with assms mp show ?thesis by (auto simp: save_metadata_locked_def Let_def split: if_splits)
  next
    case ok: False
    with metadata_path_cases [OF mp] have p: "p = metadata_file d" by (auto simp: metadata_file_def)
    obtain x w1 where op: "sys_open_trunc ?tmp (posix d) = (x, w1)" by fastforce
    show ?thesis
    proof (cases x)
      case (Inl e)
      with assms mp ok op sys_open_trunc_Inl [of ?tmp "posix d" e w1] show ?thesis
        by (auto simp: save_metadata_locked_def Let_def)
    next
      case (Inr fd)
      have run: "commit_metadata fd ?tmp p (encode_metadata (device_metadata d)) w1 = (r, w')"
        using assms mp ok op Inr by (auto simp: save_metadata_locked_def Let_def)
      from sys_open_trunc_Inr [of ?tmp "posix d" fd w1] op Inr
      have h: "holds fd (new_ofile RegularFile ?tmp) (fds (posix d)) w1"
        and w1: "files w1 = (files (posix d))(?tmp \<mapsto> [])" "stores w1 = stores (posix d)"
          "entropy w1 = entropy (posix d)"
        by (auto simp: holds_def)
      from commit_metadata_atomic [OF h _ _ _ _ run] w1 p show ?thesis
        by (auto simp: fun_upd_twist split: if_splits)
    qed
  qed
qed


lemma load_metadata_frame:
  assumes "load_metadata_locked d = (r, d')"
  shows "files (posix d') = files (posix d) \<and> stores (posix d') = stores (posix d) \<and>
    fds (posix d') = fds (posix d) \<and>
    d' = d\<lparr>posix := posix d', secure_user_id := secure_user_id d', authenticator_id := authenticator_id d'\<rparr> \<and>
    (r \<noteq> 0 \<longrightarrow> r < 0 \<and> secure_user_id d' = 0 \<and> authenticator_id d' = 0)"
proof -
  obtain result p where mp: "metadata_path (d\<lparr>secure_user_id := 0, authenticator_id := 0\<rparr>) = (result, p)"
    by fastforce
  show ?thesis
  proof (cases "result < 0")
    case True
    with assms mp show ?thesis by (auto simp: load_metadata_locked_def Let_def)
  next
    case ok: False
    obtain x w1 where op: "sys_open_rd p (posix d) = (x, w1)" by fastforce
    show ?thesis
    proof (cases x)
      case (Inl e)
      with assms mp ok op sys_open_rd_Inl [of p "posix d" e w1] show ?thesis
        by (auto simp: load_metadata_locked_def Let_def split: if_splits)
    next
      case (Inr fd)
      obtain r2 bs w2 where rd: "read_exact fd 24 w1 = ((r2, bs), w2)" by (metis prod.collapse)
      from sys_open_rd_Inr [of p "posix d" fd w1] op Inr
      obtain f where h: "holds fd f (fds (posix d)) w1"
        and w1: "files w1 = files (posix d)" "stores w1 = stores (posix d)"
        by (auto simp: holds_def)
      from read_exact_spec [OF h rd] obtain f2 where h2: "holds fd f2 (fds (posix d)) w2"
        and w2: "files w2 = files (posix d)" "stores w2 = stores (posix d)" using w1 by auto
      have w3: "fds (snd (sys_close fd w2)) = fds (posix d)" "files (snd (sys_close fd w2)) = files (posix d)"
        "stores (snd (sys_close fd w2)) = stores (posix d)"
        using close_holds [OF h2, of "fst (sys_close fd w2)" "snd (sys_close fd w2)"] w2 by simp_all
      with assms mp ok op Inr rd show ?thesis
        by (auto simp: load_metadata_locked_def Let_def split: if_splits)
    qed
  qed
qed

lemma load_metadata_found:
  assumes len: "length (metadata_file d) < PATH_MAX" and sp: "store_path d \<noteq> []"
    and content: "files (posix d) (metadata_file d) = Some (encode_metadata m)"
    and nf: "faults (posix d) = []"
    and m: "md_magic m = METADATA_MAGIC" "md_version m = METADATA_VERSION"
    and nu: "metadata_file d \<noteq> urandom_path"
  shows "\<exists>w. load_metadata_locked d =
    (0, d\<lparr>posix := w, secure_user_id := md_secure_user_id m, authenticator_id := md_authenticator_id m\<rparr>)"
proof -
  let ?p = "metadata_file d" and ?w = "posix d"
  define fd where "fd = fresh_fd (fds ?w)"
  define w1 where "w1 = ?w\<lparr>fds := (fd, new_ofile RegularFile ?p) # fds ?w\<rparr>"
  have op: "sys_open_rd ?p ?w = (Inr fd, w1)"
    using nf content nu by (simp add: sys_open_rd_def take_outcome_no_fault alloc_fd_def Let_def fd_def w1_def)
  have h: "holds fd (new_ofile RegularFile ?p) (fds ?w) w1" by (simp add: holds_def w1_def fd_def)
  have fb: "file_bytes w1 ?p = encode_metadata m" using content by (simp add: file_bytes_def w1_def)
  have "\<exists>w'. read_exact fd 24 w1 = ((0, take 24 (drop 0 (encode_metadata m))), w')"
    using read_exact_no_fault [OF h, of 24] nf fb by (simp add: w1_def)
  then obtain w2 where rd: "read_exact fd 24 w1 = ((0, encode_metadata m), w2)" by auto
  have mp: "metadata_path (d\<lparr>secure_user_id := 0, authenticator_id := 0\<rparr>) = (0, ?p)"
    using len sp by (simp add: metadata_path_def metadata_file_def Let_def)
  show ?thesis using mp op rd m
    by (auto simp: load_metadata_locked_def Let_def)
qed

text \<open>Everything the code uses of a random identifier: it is zero only when the pool failed.\<close>

lemma random_u64_frame:
  assumes "random_u64 w = (v, w')"
  shows "files w' = files w \<and> stores w' = stores w \<and> fds w' = fds w"
proof -
  obtain x w1 where op: "sys_open_rd urandom_path w = (x, w1)" by fastforce
  show ?thesis
  proof (cases x)
    case (Inl e)
    with assms op sys_open_rd_Inl [of urandom_path w e w1] show ?thesis by (auto simp: random_u64_def)
  next
    case (Inr fd)
    from sys_open_rd_Inr [of urandom_path w fd w1] op Inr
    obtain f where h: "holds fd f (fds w) w1" and w1: "files w1 = files w" "stores w1 = stores w"
      by (auto simp: holds_def)
    obtain r bs w2 where rd: "read_exact fd 8 w1 = ((r, bs), w2)" by (metis prod.collapse)
    from read_exact_spec [OF h rd] obtain f2 where h2: "holds fd f2 (fds w) w2"
      and w2: "files w2 = files w" "stores w2 = stores w" using w1 by auto
    have "w' = snd (sys_close fd w2)"
      using assms op Inr rd by (auto simp: random_u64_def Let_def split: if_splits)
    with close_holds [OF h2, of "fst (sys_close fd w2)" w'] w2 show ?thesis by simp
  qed
qed


section \<open>Lemmas: the gallery\<close>

text \<open>
  The fields the gallery operations never write, as one function: what the operations
  keep of a device.
\<close>

definition control :: "('x, 'd) fpdev \<Rightarrow>
    (bool \<times> bool \<times> bool \<times> worker_operation) \<times> (nat option \<times> u32 \<times> u32 \<times> u64 \<times> u64 \<times> path)" where
  "control d = ((worker_active d, worker_joinable d, cancel_requested d, operation d),
     (notify d, active_gid d, enroll_timeout_sec d, challenge d, operation_id d, store_path d))"

lemma control_eqD:
  assumes "control d' = control d"
  shows "worker_active d' = worker_active d" "worker_joinable d' = worker_joinable d"
    "cancel_requested d' = cancel_requested d" "operation d' = operation d" "notify d' = notify d"
    "active_gid d' = active_gid d" "enroll_timeout_sec d' = enroll_timeout_sec d"
    "challenge d' = challenge d" "operation_id d' = operation_id d" "store_path d' = store_path d"
  using assms by (simp_all add: control_def)

lemma control_notify_message [simp]: "control (notify_message d m) = control d"
  by (simp add: control_def)

lemma fold_free_slot:
  assumes "n \<le> length (templates d)" and "n \<le> length (template_ids d)"
  shows "templates (fold (free_slot L) [0..<n] d) = replicate n None @ drop n (templates d) \<and>
    template_ids (fold (free_slot L) [0..<n] d) = replicate n 0 @ drop n (template_ids d)"
  using assms
proof (induction n)
  case 0
  then show ?case by simp
next
  case (Suc n)
  then have "drop n (templates d) = templates d ! n # drop (Suc n) (templates d)"
    and "drop n (template_ids d) = template_ids d ! n # drop (Suc n) (template_ids d)"
    by (simp_all add: Cons_nth_drop_Suc)
  with Suc show ?case
    by (simp add: free_slot_def list_update_append replicate_append_same
        flip: replicate_Suc)
qed

lemma fold_free_slot_frame:
  "control (fold (free_slot L) is d) = control d \<and> sent (fold (free_slot L) is d) = sent d \<and>
   posix (fold (free_slot L) is d) = posix d \<and> secure_user_id (fold (free_slot L) is d) = secure_user_id d \<and>
   authenticator_id (fold (free_slot L) is d) = authenticator_id d"
  by (induction "is" arbitrary: d) (simp_all add: free_slot_def control_def)

lemma free_templates_frame [simp]:
  "control (free_templates_locked L d) = control d" "sent (free_templates_locked L d) = sent d"
  "posix (free_templates_locked L d) = posix d"
  "secure_user_id (free_templates_locked L d) = secure_user_id d"
  "authenticator_id (free_templates_locked L d) = authenticator_id d"
  "template_count (free_templates_locked L d) = 0"
  using fold_free_slot_frame [of L "[0..<template_count d]" d]
  by (simp_all add: free_templates_locked_def control_def)

lemma free_templates_gallery:
  assumes "gallery_ok d"
  shows "templates (free_templates_locked L d) = replicate (MAX_TEMPLATES + 1) None"
    "gallery_ok (free_templates_locked L d)"
proof -
  let ?n = "template_count d"
  from assms have n: "?n \<le> length (templates d)" "?n \<le> length (template_ids d)"
    by (auto simp: gallery_ok_def)
  note f = fold_free_slot [OF n, of L]
  have tail: "drop ?n (templates d) = replicate (MAX_TEMPLATES + 1 - ?n) None"
  proof (rule nth_equalityI)
    fix i
    assume "i < length (drop ?n (templates d))"
    with assms have i: "?n + i < MAX_TEMPLATES + 1" by (simp add: gallery_ok_def)
    with assms have "\<not> templates d ! (?n + i) \<noteq> None"
      unfolding gallery_ok_def by (metis not_add_less1)
    with i n show "drop ?n (templates d) ! i = replicate (MAX_TEMPLATES + 1 - ?n) None ! i" by simp
  qed (use assms in \<open>simp add: gallery_ok_def\<close>)
  show t: "templates (free_templates_locked L d) = replicate (MAX_TEMPLATES + 1) None"
    using f tail n assms
    by (simp add: free_templates_locked_def gallery_ok_def replicate_add [symmetric] del: replicate_Suc)
  show "gallery_ok (free_templates_locked L d)"
    using f t n assms unfolding gallery_ok_def
    by (simp add: free_templates_locked_def del: replicate_Suc)
qed

lemma load_print_frame:
  "control (load_print L p d) = control d \<and> sent (load_print L p d) = sent d \<and>
   posix (load_print L p d) = posix d \<and> secure_user_id (load_print L p d) = secure_user_id d \<and>
   authenticator_id (load_print L p d) = authenticator_id d"
  by (simp add: load_print_def Let_def control_def split: prod.split)

lemma load_prints_frame:
  "control (fold (load_print L) ps d) = control d \<and> sent (fold (load_print L) ps d) = sent d \<and>
   posix (fold (load_print L) ps d) = posix d \<and> secure_user_id (fold (load_print L) ps d) = secure_user_id d \<and>
   authenticator_id (fold (load_print L) ps d) = authenticator_id d"
  by (induction ps arbitrary: d) (simp_all add: load_print_frame)

lemma u32_ge_1: "(v :: u32) \<noteq> 0 \<Longrightarrow> 1 \<le> v"
  by (simp add: word_le_nat_alt Suc_le_eq unat_gt_0)

lemma load_print_gallery: "gallery_ok d \<Longrightarrow> gallery_ok (load_print L p d)"
  unfolding load_print_def Let_def
  by (auto simp: gallery_ok_def nth_list_update less_Suc_eq u32_ge_1 not_less split: prod.split)

lemma load_prints_gallery: "gallery_ok d \<Longrightarrow> gallery_ok (fold (load_print L) ps d)"
  by (induction ps arbitrary: d) (simp_all add: load_print_gallery)

lemma control_lib [simp]: "control (d\<lparr>lib := x\<rparr>) = control d"
  by (simp add: control_def)

lemma control_posix [simp]: "control (d\<lparr>posix := w\<rparr>) = control d"
  by (simp add: control_def)

lemma load_templates_result [simp]: "fst (load_templates_locked L d) = 0"
  by (simp add: load_templates_locked_def Let_def split: prod.split option.split)

lemma load_templates_gallery: "gallery_ok d \<Longrightarrow> gallery_ok (snd (load_templates_locked L d))"
  by (auto simp: load_templates_locked_def Let_def free_templates_gallery load_prints_gallery
      split: prod.split option.split)

lemma load_templates_frame [simp]:
  "control (snd (load_templates_locked L d)) = control d"
  "sent (snd (load_templates_locked L d)) = sent d"
  "posix (snd (load_templates_locked L d)) = posix d"
  "secure_user_id (snd (load_templates_locked L d)) = secure_user_id d"
  "authenticator_id (snd (load_templates_locked L d)) = authenticator_id d"
  by (simp_all add: load_templates_locked_def Let_def load_prints_frame split: prod.split option.split)


text \<open>
  The reference for the loading loop: which discovered prints are accepted, given what
  libfprint parses out of each.
\<close>

definition loadable :: "('x, 'p, 'd) platform \<Rightarrow> ('p \<Rightarrow> int \<times> 'd option) \<Rightarrow> 'p \<Rightarrow> bool" where
  "loadable L parse p \<longleftrightarrow>
     (let fid = fp_dscv_print_get_finger L p
      in 1 \<le> fid \<and> fid \<le> 10 \<and> fst (parse p) = 0 \<and>
         (case snd (parse p) of None \<Rightarrow> False | Some t \<Rightarrow> fp_dev_supports_print_data L t))"

lemma live_ids_snoc:
  assumes "gallery_ok d" and "template_count d < MAX_TEMPLATES"
  shows "live_ids (d\<lparr>lib := x, templates := (templates d)[template_count d := Some t],
      template_ids := (template_ids d)[template_count d := v],
      template_count := Suc (template_count d)\<rparr>) = live_ids d @ [v]"
  using assms by (simp add: live_ids_def gallery_ok_def take_Suc_conv_app_nth)

lemma gallery_snoc:
  assumes "gallery_ok d" and "template_count d < MAX_TEMPLATES" and "1 \<le> v" "v \<le> 10"
  shows "gallery (d\<lparr>lib := x, templates := (templates d)[template_count d := Some t],
      template_ids := (template_ids d)[template_count d := v],
      template_count := Suc (template_count d)\<rparr>) = gallery d @ [t]"
proof -
  let ?d = "d\<lparr>lib := x, templates := (templates d)[template_count d := Some t],
      template_ids := (template_ids d)[template_count d := v],
      template_count := Suc (template_count d)\<rparr>"
  have "gallery_ok ?d"
    using assms by (auto simp: gallery_ok_def nth_list_update less_Suc_eq)
  then show ?thesis
    using assms by (simp add: gallery_eq) (simp add: gallery_ok_def take_Suc_conv_app_nth)
qed

lemma load_print_spec:
  assumes g: "gallery_ok d" and parse: "fst (fp_print_data_from_dscv_print L p (lib d)) = parse p"
  shows "(live_ids (load_print L p d), gallery (load_print L p d), template_count (load_print L p d)) =
    (if template_count d < MAX_TEMPLATES \<and> loadable L parse p
     then (live_ids d @ [fp_dscv_print_get_finger L p], gallery d @ [the (snd (parse p))], Suc (template_count d))
     else (live_ids d, gallery d, template_count d))"
proof -
  obtain r t x where f: "fp_print_data_from_dscv_print L p (lib d) = ((r, t), x)" by (metis prod.collapse)
  then have pp: "parse p = (r, t)" using parse by simp
  have nz: "fp_dscv_print_get_finger L p \<noteq> 0 \<longleftrightarrow> 1 \<le> fp_dscv_print_get_finger L p"
    by (cases "fp_dscv_print_get_finger L p = 0") (simp_all add: u32_ge_1)
  show ?thesis
    using f pp live_ids_snoc [OF g] gallery_snoc [OF g] nz
    by (cases t) (auto simp: load_print_def loadable_def Let_def live_ids_def gallery_def not_less)
qed

lemma load_prints_spec:
  assumes "\<And>p x. fst (fp_print_data_from_dscv_print L p x) = parse p" and "gallery_ok d"
  shows "live_ids (fold (load_print L) ps d) = live_ids d @
      map (fp_dscv_print_get_finger L) (take (MAX_TEMPLATES - template_count d) (filter (loadable L parse) ps)) \<and>
    gallery (fold (load_print L) ps d) = gallery d @
      map (\<lambda>p. the (snd (parse p))) (take (MAX_TEMPLATES - template_count d) (filter (loadable L parse) ps))"
  using assms(2)
proof (induction ps arbitrary: d)
  case Nil
  then show ?case by simp
next
  case (Cons p ps)
  note one = load_print_spec [OF Cons.prems, of L p parse, OF assms(1)]
  note IH = Cons.IH [OF load_print_gallery [OF Cons.prems, of L p]]
  show ?case
  proof (cases "template_count d < MAX_TEMPLATES")
    case True
    then obtain k where "MAX_TEMPLATES - template_count d = Suc k" "MAX_TEMPLATES - Suc (template_count d) = k"
      by (metis Suc_diff_Suc)
    with one IH show ?thesis by (auto split: if_splits)
  next
    case False
    with one IH show ?thesis by auto
  qed
qed

section \<open>Lemmas: identifiers\<close>

lemma fid_used_iff [simp]: "fid_used ids c \<longleftrightarrow> c \<in> set ids"
  by (induction ids) auto

lemma find_free_from_spec:
  assumes "1 \<le> c"
  shows "(find_free_from ids c = 0 \<longleftrightarrow> (\<forall>k. c \<le> k \<and> k \<le> MAX_TEMPLATES \<longrightarrow> of_nat k \<in> set ids)) \<and>
    (find_free_from ids c \<noteq> 0 \<longrightarrow>
       (\<exists>k. c \<le> k \<and> k \<le> MAX_TEMPLATES \<and> find_free_from ids c = of_nat k \<and> of_nat k \<notin> set ids \<and>
            (\<forall>j. c \<le> j \<and> j < k \<longrightarrow> of_nat j \<in> set ids)))"
  using assms
proof (induction ids c rule: find_free_from.induct)
  case (1 ids c)
  show ?case
  proof (cases "c \<le> MAX_TEMPLATES \<and> of_nat c \<in> set ids")
    case True
    with "1.IH" "1.prems" have IH: "(find_free_from ids (Suc c) = 0 \<longleftrightarrow>
        (\<forall>k. Suc c \<le> k \<and> k \<le> MAX_TEMPLATES \<longrightarrow> of_nat k \<in> set ids)) \<and>
      (find_free_from ids (Suc c) \<noteq> 0 \<longrightarrow>
       (\<exists>k. Suc c \<le> k \<and> k \<le> MAX_TEMPLATES \<and> find_free_from ids (Suc c) = of_nat k \<and> of_nat k \<notin> set ids \<and>
            (\<forall>j. Suc c \<le> j \<and> j < k \<longrightarrow> of_nat j \<in> set ids)))" by simp
    have eq: "find_free_from ids c = find_free_from ids (Suc c)"
      using True by (simp add: find_free_from.simps [of ids c])
    show ?thesis unfolding eq using IH True
      by (metis Suc_leD Suc_leI le_neq_implies_less)
  next
    case False
    have small: "of_nat c \<noteq> (0 :: u32)" if "c \<le> MAX_TEMPLATES"
    proof
      assume "of_nat c = (0 :: u32)"
      then have "unat (of_nat c :: u32) = 0" by simp
      with that "1.prems" show False by (simp add: unat_of_nat take_bit_eq_mod MAX_TEMPLATES_def)
    qed
    from False small "1.prems" show ?thesis
      by (auto simp: find_free_from.simps [of ids c])
  qed
qed


lemma rotate_authenticator_spec:
  assumes "rotate_authenticator_locked d = (r, d')"
  shows "control d' = control d \<and> sent d' = sent d \<and> templates d' = templates d \<and>
    template_ids d' = template_ids d \<and> template_count d' = template_count d \<and> lib d' = lib d \<and>
    secure_user_id d' = secure_user_id d \<and>
    fds (posix d') = fds (posix d) \<and> stores (posix d') = stores (posix d) \<and>
    (if r = 0 then files (posix d') (metadata_file d') = Some (encode_metadata (device_metadata d')) \<and>
                   (authenticator_id d' = 0 \<longleftrightarrow> template_count d' = 0)
     else r < 0 \<and> files (posix d') (metadata_file d') = files (posix d) (metadata_file d))"
proof (cases "template_count d = 0")
  case True
  let ?d = "d\<lparr>authenticator_id := 0\<rparr>"
  obtain w where s: "save_metadata_locked ?d = (r, w)" and d': "d' = ?d\<lparr>posix := w\<rparr>"
    using assms True by (auto simp: rotate_authenticator_locked_def Let_def split: prod.splits)
  show ?thesis using save_metadata_atomic_world [OF s] True
    by (auto simp: d' control_def metadata_file_def device_metadata_def split: if_splits)
next
  case False
  obtain v w0 where rnd: "random_u64 (posix d) = (v, w0)" by fastforce
  let ?d = "d\<lparr>authenticator_id := v, posix := w0\<rparr>"
  note rf = random_u64_frame [OF rnd]
  show ?thesis
  proof (cases "v = 0")
    case True
    with assms False rnd rf show ?thesis
      by (auto simp: rotate_authenticator_locked_def Let_def control_def metadata_file_def)
  next
    case v: False
    obtain w where s: "save_metadata_locked ?d = (r, w)" and d': "d' = ?d\<lparr>posix := w\<rparr>"
      using assms False v rnd by (auto simp: rotate_authenticator_locked_def Let_def split: prod.splits)
    show ?thesis using save_metadata_atomic_world [OF s] False v rf
      by (auto simp: d' control_def metadata_file_def device_metadata_def split: if_splits)
  qed
qed

lemma metadata_file_not_urandom: "metadata_file d \<noteq> urandom_path"
proof
  assume "metadata_file d = urandom_path"
  then have "last (metadata_file d) = last urandom_path" by simp
  then show False by (simp add: metadata_file_def METADATA_NAME_def urandom_path_def)
qed

lemma save_ok_path:
  assumes "save_metadata_locked d = (0, w)"
  shows "store_path d \<noteq> []" "length (metadata_file d) < PATH_MAX"
  using assms
  by (auto simp: save_metadata_locked_def metadata_path_def metadata_file_def Let_def split: if_splits)

section \<open>Properties\<close>

text \<open>
  C3: Updating the fingerprint metadata is atomic and leaks no descriptor, whatever
  faults the kernel reports on the way. \<open>save_metadata_locked\<close> either returns 0 with
  the new record under the final name and no temporary file, or returns a negative code
  and no file but the temporary one has changed: the previous metadata survive.
\<close>

theorem save_metadata_atomic:
  "let (r, w') = save_metadata_locked d; p = metadata_file d; tmp = p @ ''.tmp''
   in fds w' = fds (posix d) \<and>
      (if r = 0
       then files w' = (files (posix d))(p \<mapsto> encode_metadata (device_metadata d), tmp := None)
       else r < 0 \<and> files w' |` (- {tmp}) = files (posix d) |` (- {tmp}))"
proof -
  obtain r w' where s: "save_metadata_locked d = (r, w')" by fastforce
  show ?thesis using save_metadata_atomic_world [OF s]
    by (auto simp: s Let_def restrict_map_def fun_eq_iff)
qed

text \<open>
  C15: What \<open>save_metadata_locked\<close> stored is what \<open>load_metadata_locked\<close> reads back:
  after a successful save, a later load that meets no fault returns 0 and restores the
  secure user id and the authenticator id that were saved, whatever the ids of the
  device that loads them were.
\<close>

theorem metadata_roundtrip:
  assumes "save_metadata_locked d = (0, w)" and "store_path d' = store_path d"
    and "posix d' = w\<lparr>faults := []\<rparr>"
  shows "\<exists>w'. load_metadata_locked d' =
    (0, d'\<lparr>posix := w', secure_user_id := secure_user_id d, authenticator_id := authenticator_id d\<rparr>)"
proof -
  have mf: "metadata_file d' = metadata_file d" using assms(2) by (simp add: metadata_file_def)
  have "files (posix d') (metadata_file d') = Some (encode_metadata (device_metadata d))"
    using save_metadata_atomic_world [OF assms(1)] assms(3) mf by simp
  from load_metadata_found [of d', OF _ _ this] save_ok_path [OF assms(1)] assms mf
  show ?thesis by (simp add: metadata_file_not_urandom device_metadata_def)
qed

theorem metadata_roundtrip_witness:
  "let d = (blank_device () idle_world)\<lparr>store_path := ''/data'', secure_user_id := 7, authenticator_id := 9,
             posix := idle_world\<lparr>faults := [Done, Fail EINTR, Limit 5, Done]\<rparr>\<rparr> :: (unit, unit) fpdev;
       (r, w) = save_metadata_locked d
   in r = 0 \<and> (\<exists>w'. load_metadata_locked (d\<lparr>secure_user_id := 0, posix := w\<lparr>faults := []\<rparr>\<rparr>) =
        (0, d\<lparr>posix := w', secure_user_id := 7, authenticator_id := 9\<rparr>))"
proof -
  let ?d = "(blank_device () idle_world)\<lparr>store_path := ''/data'', secure_user_id := 7, authenticator_id := 9,
             posix := idle_world\<lparr>faults := [Done, Fail EINTR, Limit 5, Done]\<rparr>\<rparr> :: (unit, unit) fpdev"
  have "fst (save_metadata_locked ?d) = 0"
    by (simp add: save_metadata_locked_def metadata_path_def blank_device_def idle_world_def
        METADATA_NAME_def PATH_MAX_def commit_metadata_def write_exact.simps sys_eval)
  then obtain w where s: "save_metadata_locked ?d = (0, w)" by (metis prod.collapse)
  from metadata_roundtrip [OF s, of "?d\<lparr>secure_user_id := 0, posix := w\<lparr>faults := []\<rparr>\<rparr>"]
  show ?thesis by (simp add: s)
qed


text \<open>
  C24: Loading the gallery is the reference selection: of the prints libfprint discovers in
  the store, those whose finger number is 1 to 10 and whose data parse and suit the
  sensor, the first five in order, identifiers and templates in step; and the gallery
  handed to the matcher is null-terminated inside its array. The hypothesis is that what
  libfprint parses out of a discovered print depends on the print alone.
\<close>

theorem load_templates_selects:
  assumes "\<And>p x. fst (fp_print_data_from_dscv_print L p x) = parse p"
    and "gallery_ok d"
    and "fst (fp_discover_prints L (store_path d) (lib (free_templates_locked L d))) = Some ps"
  shows "let d' = snd (load_templates_locked L d);
             chosen = take MAX_TEMPLATES (filter (loadable L parse) ps)
         in live_ids d' = map (fp_dscv_print_get_finger L) chosen \<and>
            gallery d' = map (\<lambda>p. the (snd (parse p))) chosen \<and>
            template_count d' = length chosen \<and> gallery_ok d'"
proof -
  let ?f = "free_templates_locked L d"
  obtain x where x: "fp_discover_prints L (store_path d) (lib ?f) = (Some ps, x)"
    using assms(3) by (metis prod.collapse)
  let ?d' = "snd (load_templates_locked L d)"
  let ?l = "fold (load_print L) ps (?f\<lparr>lib := x\<rparr>)"
  have sp: "store_path ?f = store_path d" using free_templates_frame(1) by (rule control_eqD)
  have d': "?d' = ?l\<lparr>lib := fp_dscv_prints_free L ps (lib ?l)\<rparr>"
    by (simp add: load_templates_locked_def Let_def sp x)
  have start: "live_ids (?f\<lparr>lib := x\<rparr>) = []" "gallery (?f\<lparr>lib := x\<rparr>) = []"
    using free_templates_gallery(1) [OF assms(2), of L] by (simp_all add: live_ids_def gallery_def)
  have "gallery_ok (?f\<lparr>lib := x\<rparr>)" using free_templates_gallery(2) [OF assms(2)] by simp
  from load_prints_spec [OF assms(1) this, of ps] start
  have *: "live_ids ?d' = map (fp_dscv_print_get_finger L) (take MAX_TEMPLATES (filter (loadable L parse) ps))"
    "gallery ?d' = map (\<lambda>p. the (snd (parse p))) (take MAX_TEMPLATES (filter (loadable L parse) ps))"
    by (simp_all add: d' live_ids_def gallery_def)
  have g: "gallery_ok ?d'" using assms(2) by (rule load_templates_gallery)
  from length_live_ids [OF g] * g show ?thesis by (simp add: Let_def)
qed

theorem load_templates_selects_witness:
  "let prints = [(3, 30), (0, 1), (11, 2), (7, 70)] :: (u32 \<times> nat) list;
       d = blank_device (demo_lib0\<lparr>demo_prints := prints\<rparr>) idle_world
   in live_ids (snd (load_templates_locked demo_platform d)) = [3, 7] \<and>
      gallery (snd (load_templates_locked demo_platform d)) = [30, 70]"
  using load_templates_selects
    [of demo_platform "\<lambda>p. (0, Some (snd p))"
        "blank_device (demo_lib0\<lparr>demo_prints := [(3, 30), (0, 1), (11, 2), (7, 70)]\<rparr>) idle_world"
        "[(3, 30), (0, 1), (11, 2), (7, 70)]"]
  by (simp add: gallery_ok_blank free_templates_locked_def loadable_def Let_def MAX_TEMPLATES_def)

text \<open>
  The identifier given to a new template is the smallest of 1 to 5 that no live
  template carries, and 0 exactly when all five are taken; so an enrolment never reuses
  the identifier of a stored finger.
\<close>

theorem find_free_fid_least:
  "if {1, 2, 3, 4, 5} \<subseteq> set (live_ids d) then find_free_fid_locked d = 0
   else \<exists>k \<in> {1..5}. find_free_fid_locked d = of_nat k \<and> of_nat k \<notin> set (live_ids d) \<and>
          of_nat ` {1..<k} \<subseteq> set (live_ids d)"
proof -
  note f = find_free_from_spec [of 1 "live_ids d"]
  have all: "{1, 2, 3, 4, 5} \<subseteq> set (live_ids d) \<longleftrightarrow>
      (\<forall>k. 1 \<le> k \<and> k \<le> MAX_TEMPLATES \<longrightarrow> (of_nat k :: u32) \<in> set (live_ids d))"
    unfolding MAX_TEMPLATES_def all_upto_5 by simp
  show ?thesis
  proof (cases "{1, 2, 3, 4, 5} \<subseteq> set (live_ids d)")
    case True
    with f all show ?thesis by (simp add: find_free_fid_locked_def)
  next
    case False
    with f all obtain k where "1 \<le> k" "k \<le> 5" "find_free_from (live_ids d) 1 = of_nat k"
      "of_nat k \<notin> set (live_ids d)" "\<forall>j. 1 \<le> j \<and> j < k \<longrightarrow> of_nat j \<in> set (live_ids d)"
      by (auto simp: MAX_TEMPLATES_def)
    with False show ?thesis by (auto simp: find_free_fid_locked_def intro!: bexI [of _ k])
  qed
qed

text \<open>
  Rotating the authenticator keeps memory and disk in step: when
  \<open>rotate_authenticator_locked\<close> returns 0, the metadata file decodes to the ids the
  device now holds, and the authenticator id is 0 exactly when no template is left; when
  it fails, the file on disk is the old one. The gallery and the flags are untouched.
\<close>

theorem rotate_authenticator_consistent:
  "let (r, d') = rotate_authenticator_locked d
   in control d' = control d \<and> live_ids d' = live_ids d \<and> gallery d' = gallery d \<and>
      (if r = 0
       then map_option decode_metadata (files (posix d') (metadata_file d)) = Some (device_metadata d') \<and>
            (authenticator_id d' = 0 \<longleftrightarrow> template_count d = 0)
       else r < 0 \<and> files (posix d') (metadata_file d) = files (posix d) (metadata_file d))"
proof -
  obtain r d' where r: "rotate_authenticator_locked d = (r, d')" by fastforce
  note s = rotate_authenticator_spec [OF r]
  have "metadata_file d' = metadata_file d"
    using s control_eqD(10) [of d' d] by (simp add: metadata_file_def)
  with s show ?thesis by (simp add: r live_ids_def gallery_def split: if_splits)
qed

end
