(* ===== verification/Fp_Worker.thy ===== *)
theory Fp_Worker
  imports Fp_Store
begin

text \<open>
  The worker threads of the fingerprint HAL. A thread is a program counter with the
  local variables of \<^verbatim>\<open>enroll_worker\<close> or \<^verbatim>\<open>authenticate_worker\<close>; \<open>worker_step\<close>
  runs the thread from one point where it looks at state another thread may change
  (the cancel flag, the clock, the sensor) to the next, so that a cancel request can
  fall between any two steps.
\<close>

section \<open>Program counters\<close>

text \<open>
  The locals of enrolment: samples remaining, the deadline and the template being built.
  \<open>EnrollAfter\<close> looks at the cancel flag behind the scan, \<open>EnrollResult\<close> acts on its status;
  \<open>EnrollTail\<close> and \<open>EnrollExpired\<close> are the code behind the loop, \<open>EnrollDone\<close> the label \<^verbatim>\<open>done\<close>.
\<close>

datatype 'd wpc =
    NoThread
  | EnrollStart
  | EnrollHead u32 int "'d option"
  | EnrollScan u32 int "'d option"
  | EnrollAfter u32 int "'d option" enroll_status
  | EnrollResult u32 int "'d option" enroll_status
  | EnrollSave u32 'd
  | EnrollReload u32 'd
  | EnrollTail int "'d option"
  | EnrollExpired int "'d option"
  | EnrollDone "'d option"
  | AuthStart
  | AuthHead
  | AuthScan
  | AuthAfter verify_status int
  | AuthResult verify_status int
  | AuthDone
  | Exited

fun enroll_pc :: "'d wpc \<Rightarrow> bool" where
  "enroll_pc EnrollStart = True"
| "enroll_pc (EnrollHead r dl e) = True"
| "enroll_pc (EnrollScan r dl e) = True"
| "enroll_pc (EnrollAfter r dl e st) = True"
| "enroll_pc (EnrollResult r dl e st) = True"
| "enroll_pc (EnrollSave fid e) = True"
| "enroll_pc (EnrollReload fid e) = True"
| "enroll_pc (EnrollTail dl e) = True"
| "enroll_pc (EnrollExpired dl e) = True"
| "enroll_pc (EnrollDone e) = True"
| "enroll_pc _ = False"

fun auth_pc :: "'d wpc \<Rightarrow> bool" where
  "auth_pc AuthStart = True"
| "auth_pc AuthHead = True"
| "auth_pc AuthScan = True"
| "auth_pc (AuthAfter st i) = True"
| "auth_pc (AuthResult st i) = True"
| "auth_pc AuthDone = True"
| "auth_pc _ = False"

definition running :: "'d wpc \<Rightarrow> bool" where
  "running pc \<longleftrightarrow> enroll_pc pc \<or> auth_pc pc"

section \<open>Shared pieces\<close>

definition finish_worker :: "('x, 'p, 'd) platform \<Rightarrow> ('x, 'd) fpdev \<Rightarrow> ('x, 'd) fpdev" where
  "finish_worker L d =
     d\<lparr>lib := fp_dev_mode L 0 (lib d), operation := OPERATION_IDLE, worker_active := False\<rparr>"

definition send_authentication_failure :: "('x, 'd) fpdev \<Rightarrow> ('x, 'd) fpdev" where
  "send_authentication_failure d = notify_message d (MsgAuthenticated (active_gid d) 0 zero_token)"

definition auth_token :: "('x, 'p, 'd) platform \<Rightarrow> ('x, 'd) fpdev \<Rightarrow> u64 \<Rightarrow> u64 \<Rightarrow> hw_auth_token" where
  "auth_token L d sec nsec =
     \<lparr>tok_version = HW_AUTH_TOKEN_VERSION L, tok_challenge = operation_id d,
      tok_user_id = secure_user_id d, tok_authenticator_id = authenticator_id d,
      tok_authenticator_type = htobe32 (HW_AUTH_FINGERPRINT L),
      tok_timestamp = htobe64 (sec * 1000 + nsec div 1000000),
      tok_hmac = replicate 32 0\<rparr>"

definition send_authentication_success ::
    "('x, 'p, 'd) platform \<Rightarrow> ('x, 'd) fpdev \<Rightarrow> nat \<Rightarrow> ('x, 'd) fpdev" where
  "send_authentication_success L d match_index =
     (let ((sec, nsec), x) = clock_monotonic L (lib d);
          authenticated = MsgAuthenticated (active_gid d) (template_ids d ! match_index)
                            (auth_token L d sec nsec);
          d1 = notify_message (d\<lparr>lib := x\<rparr>) (MsgAcquired FINGERPRINT_ACQUIRED_GOOD)
      in notify_message d1 authenticated)"

section \<open>Enrolment\<close>

definition enroll_start :: "('x, 'p, 'd) platform \<Rightarrow> ('x, 'd) fpdev \<Rightarrow> ('x, 'd) fpdev \<times> 'd wpc" where
  "enroll_start L d =
     (let remaining = fp_dev_get_nr_enroll_stages L (lib d);
          (now, x) = sys_time L (lib d);
          deadline = now + uint (enroll_timeout_sec d)
      in (d\<lparr>lib := fp_dev_mode L 1 x\<rparr>, EnrollHead remaining deadline None))"

definition enroll_head ::
    "('x, 'p, 'd) platform \<Rightarrow> u32 \<Rightarrow> int \<Rightarrow> 'd option \<Rightarrow> ('x, 'd) fpdev \<Rightarrow> ('x, 'd) fpdev \<times> 'd wpc" where
  "enroll_head L remaining deadline enrolled d =
     (if operation_cancelled d then (d, EnrollTail deadline enrolled)
      else let (now, x) = sys_time L (lib d)
           in (d\<lparr>lib := x\<rparr>, if now < deadline then EnrollScan remaining deadline enrolled
                           else EnrollTail deadline enrolled))"

definition enroll_scan ::
    "('x, 'p, 'd) platform \<Rightarrow> u32 \<Rightarrow> int \<Rightarrow> 'd option \<Rightarrow> ('x, 'd) fpdev \<Rightarrow> ('x, 'd) fpdev \<times> 'd wpc" where
  "enroll_scan L remaining deadline enrolled d =
     (let ((status, enrolled'), x) = fp_enroll_finger L enrolled (lib d)
      in (d\<lparr>lib := x\<rparr>, EnrollAfter remaining deadline enrolled' status))"

definition enroll_complete :: "'d option \<Rightarrow> ('x, 'd) fpdev \<Rightarrow> ('x, 'd) fpdev \<times> 'd wpc" where
  "enroll_complete enrolled d =
     (let fid = find_free_fid_locked d
      in case enrolled of
           None \<Rightarrow> (notify_error d FINGERPRINT_ERROR_NO_SPACE, EnrollDone enrolled)
         | Some t \<Rightarrow> if fid = 0 then (notify_error d FINGERPRINT_ERROR_NO_SPACE, EnrollDone enrolled)
                     else (d, EnrollSave fid t))"

definition enroll_after ::
    "u32 \<Rightarrow> int \<Rightarrow> 'd option \<Rightarrow> enroll_status \<Rightarrow> ('x, 'd) fpdev \<Rightarrow> ('x, 'd) fpdev \<times> 'd wpc" where
  "enroll_after remaining deadline enrolled status d =
     (d, if operation_cancelled d then EnrollTail deadline enrolled else EnrollResult remaining deadline enrolled status)"

definition enroll_result ::
    "u32 \<Rightarrow> int \<Rightarrow> 'd option \<Rightarrow> enroll_status \<Rightarrow> ('x, 'd) fpdev \<Rightarrow> ('x, 'd) fpdev \<times> 'd wpc" where
  "enroll_result remaining deadline enrolled status d =
     (case status of
        ENROLL_NEGATIVE \<Rightarrow>
          (notify_error d FINGERPRINT_ERROR_HW_UNAVAILABLE, EnrollTail deadline enrolled)
      | FP_ENROLL_RETRY \<Rightarrow>
          (notify_message d (MsgAcquired FINGERPRINT_ACQUIRED_INSUFFICIENT), EnrollHead remaining deadline enrolled)
      | FP_ENROLL_RETRY_TOO_SHORT \<Rightarrow>
          (notify_message d (MsgAcquired FINGERPRINT_ACQUIRED_INSUFFICIENT), EnrollHead remaining deadline enrolled)
      | FP_ENROLL_RETRY_CENTER_FINGER \<Rightarrow>
          (notify_message d (MsgAcquired FINGERPRINT_ACQUIRED_INSUFFICIENT), EnrollHead remaining deadline enrolled)
      | FP_ENROLL_RETRY_REMOVE_FINGER \<Rightarrow>
          (notify_message d (MsgAcquired FINGERPRINT_ACQUIRED_INSUFFICIENT), EnrollHead remaining deadline enrolled)
      | FP_ENROLL_PASS \<Rightarrow>
          (let remaining' = (if remaining > 1 then remaining - 1 else remaining)
           in (notify_message d (MsgEnrolling (active_gid d) 0 remaining'), EnrollHead remaining' deadline enrolled))
      | FP_ENROLL_COMPLETE \<Rightarrow> enroll_complete enrolled d
      | FP_ENROLL_FAIL \<Rightarrow>
          (notify_error d FINGERPRINT_ERROR_UNABLE_TO_PROCESS, EnrollDone enrolled)
      | ENROLL_UNLISTED \<Rightarrow>
          (notify_error d FINGERPRINT_ERROR_UNABLE_TO_PROCESS, EnrollDone enrolled))"

definition enroll_save ::
    "('x, 'p, 'd) platform \<Rightarrow> u32 \<Rightarrow> 'd \<Rightarrow> ('x, 'd) fpdev \<Rightarrow> ('x, 'd) fpdev \<times> 'd wpc" where
  "enroll_save L fid enrolled d =
     (let (result, x) = fp_print_data_save L enrolled fid (store_path d) (lib d); d' = d\<lparr>lib := x\<rparr>
      in if result < 0 then (notify_error d' FINGERPRINT_ERROR_UNABLE_TO_PROCESS, EnrollDone (Some enrolled))
         else (d', EnrollReload fid enrolled))"

definition enroll_reload ::
    "('x, 'p, 'd) platform \<Rightarrow> u32 \<Rightarrow> 'd \<Rightarrow> ('x, 'd) fpdev \<Rightarrow> ('x, 'd) fpdev \<times> 'd wpc" where
  "enroll_reload L fid enrolled d =
     (let d1 = snd (load_templates_locked L d);
          (result, d2) = rotate_authenticator_locked d1
      in (notify_message d2 (MsgEnrolling (active_gid d2) fid 0), EnrollDone (Some enrolled)))"

definition enroll_tail :: "int \<Rightarrow> 'd option \<Rightarrow> ('x, 'd) fpdev \<Rightarrow> ('x, 'd) fpdev \<times> 'd wpc" where
  "enroll_tail deadline enrolled d = (d, if operation_cancelled d then EnrollDone enrolled else EnrollExpired deadline enrolled)"

definition enroll_expired ::
    "('x, 'p, 'd) platform \<Rightarrow> int \<Rightarrow> 'd option \<Rightarrow> ('x, 'd) fpdev \<Rightarrow> ('x, 'd) fpdev \<times> 'd wpc" where
  "enroll_expired L deadline enrolled d =
     (let (now, x) = sys_time L (lib d); d' = d\<lparr>lib := x\<rparr>
      in (if now \<ge> deadline then notify_error d' FINGERPRINT_ERROR_TIMEOUT else d', EnrollDone enrolled))"

definition enroll_done ::
    "('x, 'p, 'd) platform \<Rightarrow> 'd option \<Rightarrow> ('x, 'd) fpdev \<Rightarrow> ('x, 'd) fpdev \<times> 'd wpc" where
  "enroll_done L enrolled d =
     (finish_worker L (d\<lparr>lib := fp_print_data_free L enrolled (fp_enroll_reset L (lib d))\<rparr>), Exited)"

section \<open>Authentication\<close>

definition auth_after :: "verify_status \<Rightarrow> int \<Rightarrow> ('x, 'd) fpdev \<Rightarrow> ('x, 'd) fpdev \<times> 'd wpc" where
  "auth_after status match_index d = (d, if operation_cancelled d then AuthDone else AuthResult status match_index)"

definition auth_result ::
    "('x, 'p, 'd) platform \<Rightarrow> verify_status \<Rightarrow> int \<Rightarrow> ('x, 'd) fpdev \<Rightarrow> ('x, 'd) fpdev \<times> 'd wpc" where
  "auth_result L status match_index d =
     (case status of
        VERIFY_NEGATIVE \<Rightarrow> (notify_error d FINGERPRINT_ERROR_HW_UNAVAILABLE, AuthDone)
      | FP_VERIFY_MATCH \<Rightarrow>
          (if match_index < 0 \<or> match_index \<ge> int (template_count d)
           then notify_error d FINGERPRINT_ERROR_UNABLE_TO_PROCESS
           else send_authentication_success L d (nat match_index), AuthDone)
      | FP_VERIFY_NO_MATCH \<Rightarrow> (send_authentication_failure d, AuthHead)
      | VERIFY_UNLISTED \<Rightarrow> (notify_message d (MsgAcquired FINGERPRINT_ACQUIRED_INSUFFICIENT), AuthHead))"

definition auth_scan :: "('x, 'p, 'd) platform \<Rightarrow> ('x, 'd) fpdev \<Rightarrow> ('x, 'd) fpdev \<times> 'd wpc" where
  "auth_scan L d =
     (let ((status, match_index), x) = fp_identify_finger L (gallery d) (lib d)
      in (d\<lparr>lib := x\<rparr>, AuthAfter status match_index))"

section \<open>One step of the thread\<close>

fun worker_step ::
    "('x, 'p, 'd) platform \<Rightarrow> ('x, 'd) fpdev \<Rightarrow> 'd wpc \<Rightarrow> ('x, 'd) fpdev \<times> 'd wpc" where
  "worker_step L d NoThread = (d, NoThread)"
| "worker_step L d EnrollStart = enroll_start L d"
| "worker_step L d (EnrollHead r dl e) = enroll_head L r dl e d"
| "worker_step L d (EnrollScan r dl e) = enroll_scan L r dl e d"
| "worker_step L d (EnrollAfter r dl e st) = enroll_after r dl e st d"
| "worker_step L d (EnrollResult r dl e st) = enroll_result r dl e st d"
| "worker_step L d (EnrollSave fid e) = enroll_save L fid e d"
| "worker_step L d (EnrollReload fid e) = enroll_reload L fid e d"
| "worker_step L d (EnrollTail dl e) = enroll_tail dl e d"
| "worker_step L d (EnrollExpired dl e) = enroll_expired L dl e d"
| "worker_step L d (EnrollDone e) = enroll_done L e d"
| "worker_step L d AuthStart = (d\<lparr>lib := fp_dev_mode L 1 (lib d)\<rparr>, AuthHead)"
| "worker_step L d AuthHead = (if operation_cancelled d then (d, AuthDone) else (d, AuthScan))"
| "worker_step L d AuthScan = auth_scan L d"
| "worker_step L d (AuthAfter st i) = auth_after st i d"
| "worker_step L d (AuthResult st i) = auth_result L st i d"
| "worker_step L d AuthDone = (finish_worker L d, Exited)"
| "worker_step L d Exited = (d, Exited)"

fun worker_run ::
    "('x, 'p, 'd) platform \<Rightarrow> nat \<Rightarrow> ('x, 'd) fpdev \<times> 'd wpc \<Rightarrow> ('x, 'd) fpdev \<times> 'd wpc" where
  "worker_run L 0 s = s"
| "worker_run L (Suc n) (d, pc) = worker_run L n (worker_step L d pc)"

lemmas worker_defs =
  enroll_start_def enroll_head_def enroll_scan_def enroll_complete_def enroll_after_def enroll_result_def enroll_save_def
  enroll_reload_def enroll_tail_def enroll_expired_def enroll_done_def auth_after_def auth_result_def auth_scan_def finish_worker_def
  send_authentication_failure_def send_authentication_success_def notify_error_def
  operation_cancelled_def Let_def


section \<open>Lemmas: what a step of the worker keeps\<close>

text \<open>The part of the device only the client writes.\<close>

definition client_view :: "('x, 'd) fpdev \<Rightarrow>
    (bool \<times> bool \<times> nat option \<times> u32 \<times> u32 \<times> u64) \<times> (u64 \<times> path \<times> u64 \<times> (nat \<times> ofile) list \<times> (path \<times> string) list)" where
  "client_view d =
     ((worker_joinable d, cancel_requested d, notify d, active_gid d, enroll_timeout_sec d, challenge d),
      (operation_id d, store_path d, secure_user_id d, fds (posix d), stores (posix d)))"

lemma client_viewD:
  assumes "client_view d' = client_view d"
  shows "worker_joinable d' = worker_joinable d" "cancel_requested d' = cancel_requested d"
    "notify d' = notify d" "active_gid d' = active_gid d" "challenge d' = challenge d"
    "operation_id d' = operation_id d" "store_path d' = store_path d"
    "secure_user_id d' = secure_user_id d" "fds (posix d') = fds (posix d)"
  using assms by (simp_all add: client_view_def)

lemma client_view_notify [simp]: "client_view (notify_message d m) = client_view d"
  by (simp add: client_view_def)

lemma client_view_lib [simp]: "client_view (d\<lparr>lib := x\<rparr>) = client_view d"
  by (simp add: client_view_def)

lemma control_client_view:
  "control d' = control d \<Longrightarrow> secure_user_id d' = secure_user_id d \<Longrightarrow> fds (posix d') = fds (posix d) \<Longrightarrow>
   stores (posix d') = stores (posix d) \<Longrightarrow> client_view d' = client_view d"
  by (simp add: client_view_def control_def)

lemma reload_rotate:
  assumes "rotate_authenticator_locked (snd (load_templates_locked L d)) = (r, d')"
  shows "control d' = control d" "client_view d' = client_view d" "sent d' = sent d"
    "gallery_ok d \<Longrightarrow> gallery_ok d'"
proof -
  note s = rotate_authenticator_spec [OF assms]
  show c: "control d' = control d" and "sent d' = sent d" using s by simp_all
  show "client_view d' = client_view d" using s c by (intro control_client_view) simp_all
  show "gallery_ok d'" if "gallery_ok d"
    using s load_templates_gallery [OF that, of L] by (simp add: gallery_ok_def)
qed

lemma enroll_reload_frame:
  assumes "enroll_reload L fid e d = (d', pc')"
  shows "control d' = control d" "client_view d' = client_view d" "gallery_ok d \<Longrightarrow> gallery_ok d'"
    "pc' = EnrollDone (Some e)"
proof -
  obtain r d2 where r: "rotate_authenticator_locked (snd (load_templates_locked L d)) = (r, d2)" by fastforce
  with assms have d': "d' = notify_message d2 (MsgEnrolling (active_gid d2) fid 0)"
    and "pc' = EnrollDone (Some e)" by (simp_all add: enroll_reload_def Let_def)
  then show "pc' = EnrollDone (Some e)" by simp
  show "control d' = control d" "client_view d' = client_view d" "gallery_ok d \<Longrightarrow> gallery_ok d'"
    using reload_rotate [OF r] by (simp_all add: d')
qed

lemma worker_step_view:
  assumes "worker_step L d pc = (d', pc')"
  shows "client_view d' = client_view d"
proof (cases pc)
  case (EnrollReload fid e)
  with assms enroll_reload_frame(2) show ?thesis by fastforce
qed (use assms in \<open>auto simp: worker_defs client_view_def split: if_splits prod.splits option.splits enroll_status.splits verify_status.splits\<close>)

lemma worker_step_gallery:
  assumes "worker_step L d pc = (d', pc')" and "gallery_ok d"
  shows "gallery_ok d'"
proof (cases pc)
  case (EnrollReload fid e)
  with assms enroll_reload_frame(3) show ?thesis by fastforce
qed (use assms in \<open>auto simp: worker_defs split: if_splits prod.splits option.splits enroll_status.splits verify_status.splits\<close>)

lemma worker_step_flags:
  assumes "worker_step L d pc = (d', pc')" and "running pc" and "worker_active d"
  shows "worker_active d' \<longleftrightarrow> running pc'"
    and "operation d' = (if running pc' then operation d else OPERATION_IDLE)"
    and "enroll_pc pc' \<Longrightarrow> enroll_pc pc" and "auth_pc pc' \<Longrightarrow> auth_pc pc" and "pc' \<noteq> NoThread"
proof -
  have "(worker_active d' \<longleftrightarrow> running pc') \<and> operation d' = (if running pc' then operation d else OPERATION_IDLE) \<and>
    (enroll_pc pc' \<longrightarrow> enroll_pc pc) \<and> (auth_pc pc' \<longrightarrow> auth_pc pc) \<and> pc' \<noteq> NoThread"
  proof (cases pc)
    case (EnrollReload fid e)
    with assms enroll_reload_frame [of L fid e d d' pc'] control_eqD(1,4) [of d' d] show ?thesis
      by (simp add: running_def)
  qed (use assms in \<open>auto simp: worker_defs running_def split: if_splits prod.splits option.splits enroll_status.splits verify_status.splits\<close>)
  then show "worker_active d' \<longleftrightarrow> running pc'"
    and "operation d' = (if running pc' then operation d else OPERATION_IDLE)"
    and "enroll_pc pc' \<Longrightarrow> enroll_pc pc" and "auth_pc pc' \<Longrightarrow> auth_pc pc" and "pc' \<noteq> NoThread"
    by simp_all
qed


text \<open>How many steps a worker that has been asked to stop can still take.\<close>

fun steps_left :: "'d wpc \<Rightarrow> nat" where
  "steps_left EnrollStart = 4"
| "steps_left (EnrollHead r dl e) = 3"
| "steps_left (EnrollScan r dl e) = 4"
| "steps_left (EnrollAfter r dl e st) = 3"
| "steps_left (EnrollResult r dl e st) = 4"
| "steps_left (EnrollSave fid e) = 3"
| "steps_left (EnrollReload fid e) = 2"
| "steps_left (EnrollTail dl e) = 2"
| "steps_left (EnrollExpired dl e) = 2"
| "steps_left (EnrollDone e) = 1"
| "steps_left AuthStart = 3"
| "steps_left AuthHead = 2"
| "steps_left AuthScan = 3"
| "steps_left (AuthAfter st i) = 2"
| "steps_left (AuthResult st i) = 3"
| "steps_left AuthDone = 1"
| "steps_left _ = 0"

lemma steps_left_le: "steps_left pc \<le> 4"
  by (cases pc) auto

lemma steps_left_0: "steps_left pc = 0 \<longleftrightarrow> \<not> running pc"
  by (cases pc) (auto simp: running_def)

lemma cancelled_step_decreases:
  assumes "worker_step L d pc = (d', pc')" and "cancel_requested d" and "running pc"
  shows "steps_left pc' < steps_left pc"
proof (cases pc)
  case (EnrollReload fid e)
  with assms enroll_reload_frame(4) [of L fid e d d' pc'] show ?thesis by simp
qed (use assms in \<open>auto simp: worker_defs running_def split: if_splits prod.splits option.splits enroll_status.splits verify_status.splits\<close>)

lemma worker_run_exits:
  assumes "cancel_requested d" and "running pc" and "steps_left pc \<le> n"
  shows "snd (worker_run L n (d, pc)) = Exited"
  using assms
proof (induction n arbitrary: d pc)
  case 0
  then show ?case using steps_left_0 [of pc] by simp
next
  case (Suc n)
  obtain d' pc' where st: "worker_step L d pc = (d', pc')" by fastforce
  have c: "cancel_requested d'"
    using client_viewD(2) [OF worker_step_view [OF st]] Suc.prems(1) by simp
  have lt: "steps_left pc' \<le> n"
    using cancelled_step_decreases [OF st Suc.prems(1,2)] Suc.prems(3) by simp
  show ?case
  proof (cases "running pc'")
    case True
    from Suc.IH [OF c True lt] st show ?thesis by simp
  next
    case False
    have "pc' = Exited"
    proof -
      have "pc' \<noteq> NoThread"
        using st Suc.prems(2) by (cases pc) (auto simp: worker_defs running_def split: if_splits prod.splits option.splits enroll_status.splits verify_status.splits)
      with False show ?thesis by (cases pc') (auto simp: running_def)
    qed
    moreover have "worker_run L n (d', Exited) = (d', Exited)" by (induction n) auto
    ultimately show ?thesis using st by simp
  qed
qed

text \<open>Enrolment up to the point where the gallery is reloaded.\<close>

definition enrolling :: "'d wpc \<Rightarrow> bool" where
  "enrolling pc \<longleftrightarrow> enroll_pc pc \<and> \<not> (\<exists>e. pc = EnrollDone e)"

lemma worker_step_count:
  assumes "worker_step L d pc = (d', pc')" and "enrolling pc'"
  shows "template_count d' = template_count d \<and> enrolling pc"
proof (cases pc)
  case (EnrollReload fid e)
  with assms enroll_reload_frame(4) [of L fid e d d' pc'] show ?thesis by (simp add: enrolling_def)
qed (use assms in \<open>auto simp: worker_defs enrolling_def split: if_splits prod.splits option.splits enroll_status.splits verify_status.splits\<close>)


lemma enroll_not_auth: "enroll_pc pc \<Longrightarrow> \<not> auth_pc pc"
  by (cases pc) auto

end
