(* ===== verification/Fp_Api.thy ===== *)
theory Fp_Api
  imports Fp_Worker
begin

text \<open>
  The entry points of the fingerprint HAL. Each operation is the code it runs while it
  holds the device lock; \<open>reap_finished_worker\<close>, which most entry points run first under
  a lock of its own, and the join of \<open>stop_worker\<close> are separate, because the worker may
  run between them. Results are the C return codes.
\<close>

section \<open>Starting and reaping workers\<close>

text \<open>The flag tells whether the code goes on to \<^verbatim>\<open>pthread_join\<close>.\<close>

definition reap_finished_worker :: "('x, 'd) fpdev \<Rightarrow> bool \<times> ('x, 'd) fpdev" where
  "reap_finished_worker d =
     (if worker_joinable d \<and> \<not> worker_active d then (True, d\<lparr>worker_joinable := False\<rparr>)
      else (False, d))"

definition start_worker_locked ::
    "('x, 'p, 'd) platform \<Rightarrow> worker_operation \<Rightarrow> ('x, 'd) fpdev \<Rightarrow> int \<times> ('x, 'd) fpdev" where
  "start_worker_locked L oper d =
     (if worker_active d \<or> worker_joinable d then (neg EBUSY, d)
      else (let d1 = d\<lparr>cancel_requested := False, operation := oper, worker_active := True\<rparr>;
                (result, x) = pthread_create L (lib d1)
            in case result of
                 Some e \<Rightarrow> (neg e, d1\<lparr>lib := x, worker_active := False, operation := OPERATION_IDLE\<rparr>)
               | None \<Rightarrow> (0, d1\<lparr>lib := x, worker_joinable := True\<rparr>)))"

text \<open>
  The locked region of \<open>stop_worker\<close>: whether to join, and whether the worker joined was
  still active.
\<close>

definition request_stop :: "('x, 'd) fpdev \<Rightarrow> (bool \<times> bool) \<times> ('x, 'd) fpdev" where
  "request_stop d =
     (if worker_joinable d
      then ((True, worker_active d),
            (if worker_active d then d\<lparr>cancel_requested := True\<rparr> else d)\<lparr>worker_joinable := False\<rparr>)
      else ((False, False), d))"

section \<open>Entry points\<close>

definition fingerprint_set_notify :: "nat option \<Rightarrow> ('x, 'd) fpdev \<Rightarrow> int \<times> ('x, 'd) fpdev" where
  "fingerprint_set_notify callback d =
     (case callback of None \<Rightarrow> (neg EINVAL, d) | Some cb \<Rightarrow> (0, d\<lparr>notify := Some cb\<rparr>))"

definition fingerprint_pre_enroll :: "('x, 'd) fpdev \<Rightarrow> u64 \<times> ('x, 'd) fpdev" where
  "fingerprint_pre_enroll d =
     (let (c, w) = random_u64 (posix d) in (c, d\<lparr>posix := w, challenge := c\<rparr>))"

text \<open>The checks of \<open>fingerprint_enroll\<close> before it takes the lock, then the locked region.\<close>

definition enroll_token_ok :: "('x, 'p, 'd) platform \<Rightarrow> hw_auth_token option \<Rightarrow> bool" where
  "enroll_token_ok L token =
     (case token of None \<Rightarrow> False | Some t \<Rightarrow> tok_version t = HW_AUTH_TOKEN_VERSION L)"

definition fingerprint_enroll ::
    "('x, 'p, 'd) platform \<Rightarrow> hw_auth_token \<Rightarrow> u32 \<Rightarrow> u32 \<Rightarrow> ('x, 'd) fpdev \<Rightarrow> int \<times> ('x, 'd) fpdev" where
  "fingerprint_enroll L token gid timeout_sec d =
     (if worker_active d \<or> worker_joinable d then (neg EBUSY, d)
      else if store_path d = [] \<or> gid \<noteq> active_gid d \<or> tok_challenge token \<noteq> challenge d \<or>
              be32toh (tok_authenticator_type token) AND HW_AUTH_PASSWORD L = 0
      then (neg EPERM, d)
      else if template_count d \<ge> MAX_TEMPLATES then (neg ENOSPC, d)
      else start_worker_locked L OPERATION_ENROLL
             (d\<lparr>secure_user_id := tok_user_id token,
                enroll_timeout_sec := (if timeout_sec = 0 then 60 else timeout_sec)\<rparr>))"

definition fingerprint_post_enroll :: "('x, 'd) fpdev \<Rightarrow> int \<times> ('x, 'd) fpdev" where
  "fingerprint_post_enroll d = (0, d\<lparr>challenge := 0\<rparr>)"

definition fingerprint_get_authenticator_id :: "('x, 'd) fpdev \<Rightarrow> u64" where
  "fingerprint_get_authenticator_id d = authenticator_id d"

definition countdown :: "(u32 \<Rightarrow> u32 \<Rightarrow> u32 \<Rightarrow> message) \<Rightarrow> u32 \<Rightarrow> u32 list \<Rightarrow> message list" where
  "countdown mk gid ids =
     map (\<lambda>i. mk gid (ids ! i) (of_nat (length ids - i - 1))) [0..<length ids]"

definition notify_all :: "message list \<Rightarrow> ('x, 'd) fpdev \<Rightarrow> ('x, 'd) fpdev" where
  "notify_all ms d = fold (\<lambda>m d. notify_message d m) ms d"

definition fingerprint_enumerate :: "('x, 'd) fpdev \<Rightarrow> int \<times> ('x, 'd) fpdev" where
  "fingerprint_enumerate d =
     (if worker_active d then (neg EBUSY, d)
      else if template_count d = 0 then (0, notify_message d (MsgEnumerating 0 0 0))
      else (0, notify_all (countdown MsgEnumerating (active_gid d) (live_ids d)) d))"

text \<open>The deletion loop of \<open>fingerprint_remove\<close> over the live identifiers.\<close>

fun remove_prints ::
    "('x, 'p, 'd) platform \<Rightarrow> u32 \<Rightarrow> u32 list \<Rightarrow> 'x \<Rightarrow> u32 list \<times> 'x" where
  "remove_prints L fid [] x = ([], x)"
| "remove_prints L fid (stored # rest) x =
     (if fid = 0 \<or> fid = stored
      then (let (r, x1) = fp_print_data_delete L stored x; (removed, x2) = remove_prints L fid rest x1
            in (if r = 0 then stored # removed else removed, x2))
      else remove_prints L fid rest x)"

definition fingerprint_remove ::
    "('x, 'p, 'd) platform \<Rightarrow> u32 \<Rightarrow> u32 \<Rightarrow> ('x, 'd) fpdev \<Rightarrow> int \<times> ('x, 'd) fpdev" where
  "fingerprint_remove L gid fid d =
     (if worker_active d then (neg EBUSY, d)
      else if gid \<noteq> active_gid d then (neg EINVAL, d)
      else (let (removed, x) = remove_prints L fid (live_ids d) (lib d);
                d1 = snd (load_templates_locked L (d\<lparr>lib := x\<rparr>));
                (metadata_result, d2) = rotate_authenticator_locked d1
            in if removed = [] then (0, notify_message d2 (MsgRemoved gid 0 0))
               else (0, notify_all (countdown MsgRemoved gid removed) d2)))"

text \<open>The check of \<open>fingerprint_set_active_group\<close> before it takes the lock.\<close>

definition group_path_ok :: "path option \<Rightarrow> bool" where
  "group_path_ok p = (case p of None \<Rightarrow> False | Some s \<Rightarrow> (case s of [] \<Rightarrow> False | c # _ \<Rightarrow> c = CHR ''/''))"

definition fingerprint_set_active_group ::
    "('x, 'p, 'd) platform \<Rightarrow> u32 \<Rightarrow> path \<Rightarrow> ('x, 'd) fpdev \<Rightarrow> int \<times> ('x, 'd) fpdev" where
  "fingerprint_set_active_group L gid p d =
     (if worker_active d then (neg EBUSY, d)
      else if length p \<ge> PATH_MAX then (neg ENAMETOOLONG, d\<lparr>store_path := []\<rparr>)
      else (let (r1, d1) = load_templates_locked L (d\<lparr>store_path := p, active_gid := gid\<rparr>);
                (r2, d2) = (if r1 = 0 then load_metadata_locked d1 else (r1, d1))
            in if r2 = 0 \<and> template_count d2 = 0 then (r2, d2\<lparr>authenticator_id := 0\<rparr>)
               else if r2 = 0 \<and> authenticator_id d2 = 0 then rotate_authenticator_locked d2
               else (r2, d2)))"

definition fingerprint_authenticate ::
    "('x, 'p, 'd) platform \<Rightarrow> u64 \<Rightarrow> u32 \<Rightarrow> ('x, 'd) fpdev \<Rightarrow> int \<times> ('x, 'd) fpdev" where
  "fingerprint_authenticate L oid gid d =
     (if worker_active d \<or> worker_joinable d then (neg EBUSY, d)
      else if gid \<noteq> active_gid d \<or> template_count d = 0 then (neg ENOENT, d)
      else start_worker_locked L OPERATION_AUTHENTICATE (d\<lparr>operation_id := oid\<rparr>))"

text \<open>The end of \<open>fingerprint_close\<close>, behind \<open>stop_worker\<close>.\<close>

definition release_device :: "('x, 'p, 'd) platform \<Rightarrow> ('x, 'd) fpdev \<Rightarrow> ('x, 'd) fpdev" where
  "release_device L d =
     (let d1 = free_templates_locked L d
      in d1\<lparr>lib := sys_free L (pthread_mutex_destroy L (fp_exit L (fp_dev_close L (lib d1))))\<rparr>)"

text \<open>
  \<open>fingerprint_open\<close>: every acquired resource is released on the error paths. The result
  is the return code and the device handed out, if any.
\<close>

definition fingerprint_open ::
    "('x, 'p, 'd) platform \<Rightarrow> bool \<Rightarrow> world \<Rightarrow> 'x \<Rightarrow> (int \<times> ('x, 'd) fpdev option) \<times> 'x" where
  "fingerprint_open L have_slot w x0 =
     (if \<not> have_slot then ((neg EINVAL, None), x0)
      else case fp_init L x0 of (r, x1) \<Rightarrow>
        if r < 0 then ((neg ENODEV, None), x1)
        else case fp_discover_devs L x1 of (discovered, x2) \<Rightarrow>
          if discovered = None \<or> discovered = Some []
          then ((neg ENODEV, None), fp_exit L (fp_dscv_devs_free L discovered x2))
          else case sys_calloc L x2 of (allocated, x3) \<Rightarrow>
            if \<not> allocated then ((neg ENOMEM, None), fp_exit L (fp_dscv_devs_free L discovered x3))
            else case fp_dev_open L (hd (the discovered)) x3 of (opened, x4) \<Rightarrow>
              let x5 = fp_dscv_devs_free L discovered x4
              in if \<not> opened then ((neg ENODEV, None), fp_exit L (sys_free L x5))
                 else case pthread_mutex_init L x5 of (result, x6) \<Rightarrow>
                   (case result of
                      Some e \<Rightarrow> ((neg e, None), fp_exit L (sys_free L (fp_dev_close L x6)))
                    | None \<Rightarrow> (let x7 = fp_dev_mode L 0 x6
                                in ((0, Some (blank_device x7 w)), x7))))"


section \<open>Lemmas: frames of the entry points\<close>

lemma notify_all_frame [simp]:
  "control (notify_all ms d) = control d" "gallery_ok (notify_all ms d) \<longleftrightarrow> gallery_ok d"
  "template_count (notify_all ms d) = template_count d" "posix (notify_all ms d) = posix d"
  "template_ids (notify_all ms d) = template_ids d"
  by (induction ms arbitrary: d) (simp_all add: notify_all_def)

lemmas notify_all_control [simp] = control_eqD [OF notify_all_frame(1)]

lemma sent_notify_all:
  "sent (notify_all ms d) = sent d @ (case notify d of None \<Rightarrow> [] | Some cb \<Rightarrow> map (Pair cb) ms)"
  by (induction ms arbitrary: d) (auto simp: notify_all_def sent_notify_message split: option.splits)

text \<open>Starting a worker from an idle device: the two outcomes.\<close>

lemma start_worker_cases:
  assumes "start_worker_locked L oper d = (r, d')" and "\<not> worker_active d" "\<not> worker_joinable d"
  obtains (ok) x where "r = 0" "d' = d\<lparr>cancel_requested := False, operation := oper,
      worker_active := True, lib := x, worker_joinable := True\<rparr>"
  | (failed) x where "r < 0" "d' = d\<lparr>cancel_requested := False, lib := x,
      worker_active := False, operation := OPERATION_IDLE\<rparr>"
proof -
  obtain c x where "pthread_create L (lib d) = (c, x)" by fastforce
  note run = this
  show thesis
  proof (cases c)
    case None
    then show thesis using assms run by (intro ok [of x]) (simp_all add: start_worker_locked_def Let_def)
  next
    case (Some e)
    then show thesis using assms run by (intro failed [of x]) (auto simp: start_worker_locked_def Let_def)
  qed
qed

lemma fingerprint_remove_frame:
  assumes "fingerprint_remove L gid fid d = (r, d')"
  shows "control d' = control d" "gallery_ok d \<Longrightarrow> gallery_ok d'" "worker_active d \<Longrightarrow> d' = d"
proof -
  obtain removed x where rm: "remove_prints L fid (live_ids d) (lib d) = (removed, x)" by fastforce
  obtain mr d2 where ro: "rotate_authenticator_locked (snd (load_templates_locked L (d\<lparr>lib := x\<rparr>))) = (mr, d2)"
    by fastforce
  show "control d' = control d" "gallery_ok d \<Longrightarrow> gallery_ok d'" "worker_active d \<Longrightarrow> d' = d"
    using assms reload_rotate [OF ro] rm ro
    by (auto simp: fingerprint_remove_def Let_def split: if_splits)
qed

lemma fingerprint_set_active_group_frame:
  assumes "fingerprint_set_active_group L gid p d = (r, d')"
  shows "worker_active d' = worker_active d" "worker_joinable d' = worker_joinable d"
    "operation d' = operation d" "gallery_ok d \<Longrightarrow> gallery_ok d'" "worker_active d \<Longrightarrow> d' = d"
proof -
  let ?d = "d\<lparr>store_path := p, active_gid := gid\<rparr>"
  obtain d1 where ld: "load_templates_locked L ?d = (0, d1)" by (metis load_templates_result prod.collapse)
  have d1: "control d1 = control ?d" "gallery_ok d \<Longrightarrow> gallery_ok d1"
    using load_templates_frame(1) [of L ?d] load_templates_gallery [of ?d L] ld by simp_all
  obtain r2 d2 where lm: "load_metadata_locked d1 = (r2, d2)" by fastforce
  have fr: "d2 = d1\<lparr>posix := posix d2, secure_user_id := secure_user_id d2, authenticator_id := authenticator_id d2\<rparr>"
    using load_metadata_frame [OF lm] by simp
  have d2: "control d2 = control d1" "gallery_ok d2 = gallery_ok d1"
    by (subst fr, simp add: control_def) (subst fr, simp)
  obtain r3 d3 where ro: "rotate_authenticator_locked d2 = (r3, d3)" by fastforce
  have d3: "control d3 = control d2" "gallery_ok d3 = gallery_ok d2"
    using rotate_authenticator_spec [OF ro] by (simp_all add: gallery_ok_def)
  have fl: "control d' = control d1 \<or> d' = d \<or> d' = d\<lparr>store_path := []\<rparr> \<or> d' = d2\<lparr>authenticator_id := 0\<rparr>"
    and gl: "gallery_ok d \<Longrightarrow> gallery_ok d'"
    using assms ld lm ro d1 d2 d3
    by (auto simp: fingerprint_set_active_group_def Let_def split: if_splits)
  show "worker_active d' = worker_active d" "worker_joinable d' = worker_joinable d" "operation d' = operation d"
    using fl control_eqD [OF d1(1)] control_eqD [OF d2(1)] control_eqD [of d' d1] by auto
  show "gallery_ok d \<Longrightarrow> gallery_ok d'" by (rule gl)
  show "worker_active d \<Longrightarrow> d' = d" using assms by (simp add: fingerprint_set_active_group_def)
qed

end
