(* ===== verification/Fp_System.thy ===== *)
theory Fp_System
  imports Fp_Api
begin

text \<open>
  The fingerprint HAL as two interleaved threads: the client, which calls the entry
  points one after another as the HIDL adapter does, and at most one worker. A client
  call is split where it releases the device lock: \<open>begin_call\<close> runs the checks made
  without the lock and \<open>reap_finished_worker\<close>, \<open>commit_call\<close> the locked body, and
  \<open>finish_join\<close> what follows the \<^verbatim>\<open>pthread_join\<close> of \<open>stop_worker\<close>, which returns only
  when the worker has left its thread function. Between these the worker takes any number of steps.
\<close>

section \<open>Clients\<close>

datatype api_call =
    SetNotify "nat option"
  | PreEnroll
  | Enroll "hw_auth_token option" u32 u32
  | PostEnroll
  | GetAuthenticatorId
  | Cancel
  | Enumerate
  | Remove u32 u32
  | SetActiveGroup u32 "path option"
  | Authenticate u64 u32
  | Close

text \<open>
  \<open>Joining send cancelled closing\<close>: the client waits in \<open>stop_worker\<close>, called with
  \<^verbatim>\<open>send_cancel\<close>, having found the worker active or not, from \<open>fingerprint_close\<close> or not.
\<close>

datatype client_pc = Ready | Called api_call | Joining bool bool bool | Closed

record ('x, 'd) fpsys =
  dev :: "('x, 'd) fpdev"
  wthread :: "'d wpc"
  client :: client_pc
  results :: "int list"

definition return_code :: "int \<Rightarrow> ('x, 'd) fpdev \<Rightarrow> ('x, 'd) fpsys \<Rightarrow> ('x, 'd) fpsys" where
  "return_code r d s = s\<lparr>dev := d, client := Ready, results := results s @ [r]\<rparr>"

text \<open>Leave the call with \<open>reap_finished_worker\<close> done and the lock about to be taken.\<close>

definition reap_and_lock :: "api_call \<Rightarrow> ('x, 'd) fpsys \<Rightarrow> ('x, 'd) fpsys" where
  "reap_and_lock c s =
     (let (join, d) = reap_finished_worker (dev s)
      in s\<lparr>dev := d, wthread := (if join then NoThread else wthread s), client := Called c\<rparr>)"

fun begin_call :: "('x, 'p, 'd) platform \<Rightarrow> api_call \<Rightarrow> ('x, 'd) fpsys \<Rightarrow> ('x, 'd) fpsys" where
  "begin_call L (SetNotify cb) s =
     (let (r, d) = fingerprint_set_notify cb (dev s) in return_code r d s)"
| "begin_call L PreEnroll s =
     (let (c, d) = fingerprint_pre_enroll (dev s) in return_code (uint c) d s)"
| "begin_call L PostEnroll s =
     (let (r, d) = fingerprint_post_enroll (dev s) in return_code r d s)"
| "begin_call L GetAuthenticatorId s =
     return_code (uint (fingerprint_get_authenticator_id (dev s))) (dev s) s"
| "begin_call L (Enroll token gid t) s =
     (if enroll_token_ok L token then reap_and_lock (Enroll token gid t) s
      else return_code (neg EPERM) (dev s) s)"
| "begin_call L (SetActiveGroup gid p) s =
     (if group_path_ok p then reap_and_lock (SetActiveGroup gid p) s
      else return_code (neg EINVAL) (dev s) s)"
| "begin_call L c s = reap_and_lock c s"

text \<open>The locked region and, where the call does not wait, the rest of the call.\<close>

definition start_result ::
    "int \<times> ('x, 'd) fpdev \<Rightarrow> 'd wpc \<Rightarrow> ('x, 'd) fpsys \<Rightarrow> ('x, 'd) fpsys" where
  "start_result rd pc s =
     (let s' = return_code (fst rd) (snd rd) s in if fst rd = 0 then s'\<lparr>wthread := pc\<rparr> else s')"

definition close_device :: "('x, 'p, 'd) platform \<Rightarrow> ('x, 'd) fpsys \<Rightarrow> ('x, 'd) fpsys" where
  "close_device L s = (return_code 0 (release_device L (dev s)) s)\<lparr>client := Closed\<rparr>"

definition commit_stop ::
    "('x, 'p, 'd) platform \<Rightarrow> bool \<Rightarrow> bool \<Rightarrow> ('x, 'd) fpsys \<Rightarrow> ('x, 'd) fpsys" where
  "commit_stop L send closing s =
     (let ((join, cancelled), d) = request_stop (dev s); s' = s\<lparr>dev := d\<rparr>
      in if join then s'\<lparr>client := Joining send cancelled closing\<rparr>
         else if closing then close_device L s' else return_code 0 d s)"

fun commit_call :: "('x, 'p, 'd) platform \<Rightarrow> api_call \<Rightarrow> ('x, 'd) fpsys \<Rightarrow> ('x, 'd) fpsys" where
  "commit_call L (Enroll token gid t) s =
     start_result (fingerprint_enroll L (the token) gid t (dev s)) EnrollStart s"
| "commit_call L (Authenticate oid gid) s =
     start_result (fingerprint_authenticate L oid gid (dev s)) AuthStart s"
| "commit_call L Enumerate s =
     (let (r, d) = fingerprint_enumerate (dev s) in return_code r d s)"
| "commit_call L (Remove gid fid) s =
     (let (r, d) = fingerprint_remove L gid fid (dev s) in return_code r d s)"
| "commit_call L (SetActiveGroup gid p) s =
     (let (r, d) = fingerprint_set_active_group L gid (the p) (dev s) in return_code r d s)"
| "commit_call L Cancel s = commit_stop L True False s"
| "commit_call L Close s = commit_stop L False True s"
| "commit_call L c s = s"

definition finish_join ::
    "('x, 'p, 'd) platform \<Rightarrow> bool \<Rightarrow> bool \<Rightarrow> bool \<Rightarrow> ('x, 'd) fpsys \<Rightarrow> ('x, 'd) fpsys" where
  "finish_join L send cancelled closing s =
     (let d = (if send \<and> cancelled then notify_error (dev s) FINGERPRINT_ERROR_CANCELED else dev s);
          s' = s\<lparr>dev := d, wthread := NoThread\<rparr>
      in if closing then close_device L s' else return_code 0 d s')"

section \<open>Steps of the two threads\<close>

inductive fp_step :: "('x, 'p, 'd) platform \<Rightarrow> ('x, 'd) fpsys \<Rightarrow> ('x, 'd) fpsys \<Rightarrow> bool"
  for L :: "('x, 'p, 'd) platform" where
  worker: "running (wthread s) \<Longrightarrow> worker_step L (dev s) (wthread s) = (d, pc) \<Longrightarrow>
     fp_step L s (s\<lparr>dev := d, wthread := pc\<rparr>)"
| call: "client s = Ready \<Longrightarrow> fp_step L s (begin_call L c s)"
| commit: "client s = Called c \<Longrightarrow> fp_step L s (commit_call L c s)"
| join: "client s = Joining send cancelled closing \<Longrightarrow> wthread s = Exited \<Longrightarrow>
     fp_step L s (finish_join L send cancelled closing s)"

inductive_cases fp_stepE: "fp_step L s t"

definition fp_start :: "'x \<Rightarrow> world \<Rightarrow> ('x, 'd) fpsys" where
  "fp_start x w = \<lparr>dev = blank_device x w, wthread = NoThread, client = Ready, results = []\<rparr>"

inductive fp_reachable :: "('x, 'p, 'd) platform \<Rightarrow> ('x, 'd) fpsys \<Rightarrow> bool"
  for L :: "('x, 'p, 'd) platform" where
  start: "fp_reachable L (fp_start x w)"
| step: "fp_reachable L s \<Longrightarrow> fp_step L s t \<Longrightarrow> fp_reachable L t"

section \<open>The invariant\<close>

text \<open>
  How the flags, the worker thread and the client agree: the worker is active exactly
  while its thread runs; a thread that has not been joined is joinable or being joined;
  the operation is the running one; and the device structure is sound.
\<close>

definition is_joining :: "client_pc \<Rightarrow> bool" where
  "is_joining c \<longleftrightarrow> (case c of Joining _ _ _ \<Rightarrow> True | _ \<Rightarrow> False)"

definition joining_ok :: "client_pc \<Rightarrow> bool \<Rightarrow> bool \<Rightarrow> bool" where
  "joining_ok c run cancel \<longleftrightarrow> (case c of Joining send cancelled closing \<Rightarrow> run \<longrightarrow> cancelled \<and> cancel | _ \<Rightarrow> True)"

definition fp_inv :: "('x, 'd) fpsys \<Rightarrow> bool" where
  "fp_inv s \<longleftrightarrow>
     gallery_ok (dev s) \<and>
     (worker_active (dev s) \<longleftrightarrow> running (wthread s)) \<and>
     (wthread s \<noteq> NoThread \<longleftrightarrow> worker_joinable (dev s) \<or> is_joining (client s)) \<and>
     \<not> (worker_joinable (dev s) \<and> is_joining (client s)) \<and>
     operation (dev s) = (if enroll_pc (wthread s) then OPERATION_ENROLL
                          else if auth_pc (wthread s) then OPERATION_AUTHENTICATE else OPERATION_IDLE) \<and>
     (enroll_pc (wthread s) \<longrightarrow> store_path (dev s) \<noteq> []) \<and>
     (enrolling (wthread s) \<longrightarrow> template_count (dev s) < MAX_TEMPLATES) \<and>
     joining_ok (client s) (running (wthread s)) (cancel_requested (dev s))"

section \<open>Every step keeps the invariant\<close>

lemma worker_step_inv:
  assumes inv: "fp_inv s" and run: "running (wthread s)"
    and st: "worker_step L (dev s) (wthread s) = (d, pc)"
  shows "fp_inv (s\<lparr>dev := d, wthread := pc\<rparr>)"
proof -
  have act: "worker_active (dev s)" using inv run by (simp add: fp_inv_def)
  note fl = worker_step_flags [OF st run act]
  note vw = client_viewD [OF worker_step_view [OF st]]
  have nt: "wthread s \<noteq> NoThread" using run by (auto simp: running_def)
  have op: "operation d = (if enroll_pc pc then OPERATION_ENROLL
                          else if auth_pc pc then OPERATION_AUTHENTICATE else OPERATION_IDLE)"
    using fl(2-4) inv enroll_not_auth [of "wthread s"] by (auto simp: fp_inv_def running_def)
  have jn: "joining_ok (client s) (running pc) (cancel_requested d)"
    using inv run vw(2) by (auto simp: fp_inv_def joining_ok_def split: client_pc.splits)
  show ?thesis
    using inv fl(1,3,5) vw(1,7) nt op jn worker_step_gallery [OF st] worker_step_count [OF st]
    unfolding fp_inv_def by simp
qed

lemma fp_inv_start: "fp_inv (fp_start x w)"
  by (simp add: fp_inv_def fp_start_def gallery_ok_blank running_def is_joining_def joining_ok_def enrolling_def)

text \<open>A client step that leaves the flags, the thread and the gallery alone keeps the invariant.\<close>

lemma reap_and_lock_inv:
  assumes "fp_inv s" and "client s = Ready"
  shows "fp_inv (reap_and_lock c s)"
  using assms
  by (auto simp: fp_inv_def reap_and_lock_def reap_finished_worker_def Let_def is_joining_def
      joining_ok_def running_def enrolling_def)

lemma return_inv:
  assumes "fp_inv s" and "client s = Ready \<or> (\<exists>c. client s = Called c)" and "gallery_ok d"
    and "worker_active d = worker_active (dev s)" "worker_joinable d = worker_joinable (dev s)"
    "operation d = operation (dev s)"
    and "worker_active (dev s) \<Longrightarrow> store_path d = store_path (dev s) \<and> template_count d = template_count (dev s)"
  shows "fp_inv (return_code r d s)"
proof -
  have nj: "\<not> is_joining (client s)" using assms(2) by (auto simp: is_joining_def)
  have "enrolling (wthread s) \<Longrightarrow> worker_active (dev s)" "enroll_pc (wthread s) \<Longrightarrow> worker_active (dev s)"
    using assms(1) by (auto simp: fp_inv_def enrolling_def running_def)
  with assms nj show ?thesis
    unfolding fp_inv_def return_code_def by (auto simp: is_joining_def joining_ok_def)
qed

lemma begin_call_inv:
  assumes "fp_inv s" and "client s = Ready"
  shows "fp_inv (begin_call L c s)"
proof -
  have g: "gallery_ok (dev s)" using assms(1) by (simp add: fp_inv_def)
  have r: "fp_inv (return_code k (dev s) s)" for k
    by (rule return_inv [OF assms(1)]) (use assms(2) g in simp_all)
  show ?thesis
  proof (cases c)
    case (SetNotify cb)
    show ?thesis unfolding SetNotify
      by (simp add: fingerprint_set_notify_def split: option.split)
        (intro conjI allI impI r return_inv [OF assms(1)]; use assms(2) g in simp)
  next
    case PreEnroll
    show ?thesis unfolding PreEnroll
      by (simp add: fingerprint_pre_enroll_def Let_def split: prod.split)
        (intro allI impI return_inv [OF assms(1)]; use assms(2) g in simp)
  next
    case PostEnroll
    show ?thesis unfolding PostEnroll
      by (simp add: fingerprint_post_enroll_def)
        (intro return_inv [OF assms(1)]; use assms(2) g in simp)
  qed (use r reap_and_lock_inv [OF assms] in simp_all)
qed

lemma start_result_inv:
  assumes inv: "fp_inv s" and cl: "client s = Called c"
    and d: "gallery_ok d" "worker_active d = worker_active (dev s)" "worker_joinable d = worker_joinable (dev s)"
      "operation d = operation (dev s)" "store_path d = store_path (dev s)" "template_count d = template_count (dev s)"
    and pc: "pc = EnrollStart \<and> oper = OPERATION_ENROLL \<and> store_path d \<noteq> [] \<and> template_count d < MAX_TEMPLATES \<or>
             pc = AuthStart \<and> oper = OPERATION_AUTHENTICATE"
  shows "fp_inv (start_result (start_worker_locked L oper d) pc s)"
proof -
  obtain r d' where rd: "start_worker_locked L oper d = (r, d')" by fastforce
  show ?thesis
  proof (cases "worker_active d \<or> worker_joinable d")
    case True
    then have "r = neg EBUSY" "d' = d" using rd by (simp_all add: start_worker_locked_def)
    then show ?thesis unfolding start_result_def rd
      by (simp add: Let_def) (rule return_inv [OF inv], use cl d in auto)
  next
    case False
    then have idle: "\<not> worker_active d" "\<not> worker_joinable d" by auto
    have nt: "wthread s = NoThread" "operation (dev s) = OPERATION_IDLE"
      using inv cl d False by (auto simp: fp_inv_def is_joining_def running_def)
    from rd idle show ?thesis
    proof (cases rule: start_worker_cases)
      case (ok x)
      then show ?thesis unfolding start_result_def rd using pc d(1)
        by (auto simp: Let_def fp_inv_def return_code_def is_joining_def joining_ok_def running_def enrolling_def)
    next
      case (failed x)
      then have "fp_inv (return_code r d' s)"
        by (intro return_inv [OF inv]) (use cl d idle nt in auto)
      with failed(1) show ?thesis unfolding start_result_def rd by (simp add: Let_def)
    qed
  qed
qed

lemma close_device_inv:
  assumes "fp_inv (s\<lparr>client := Ready\<rparr>)" and "wthread s = NoThread"
  shows "fp_inv (close_device L s)"
proof -
  have g: "gallery_ok (release_device L (dev s))"
    using assms(1) free_templates_gallery(2) [of "dev s" L]
    by (simp add: fp_inv_def release_device_def Let_def)
  have c: "control (release_device L (dev s)) = control (dev s)"
    by (simp add: release_device_def Let_def)
  show ?thesis
    using assms g control_eqD [OF c]
    by (simp add: fp_inv_def close_device_def return_code_def is_joining_def joining_ok_def running_def enrolling_def)
qed

lemma commit_stop_inv:
  assumes inv: "fp_inv s" and cl: "client s = Called c"
  shows "fp_inv (commit_stop L send closing s)"
proof (cases "worker_joinable (dev s)")
  case True
  with inv cl show ?thesis
    by (auto simp: fp_inv_def commit_stop_def request_stop_def Let_def is_joining_def joining_ok_def)
next
  case False
  then have "wthread s = NoThread" using inv cl by (simp add: fp_inv_def is_joining_def)
  moreover have "fp_inv (return_code 0 (dev s) s)"
    by (rule return_inv [OF inv]) (use inv cl in \<open>auto simp: fp_inv_def\<close>)
  moreover have "fp_inv (s\<lparr>dev := dev s, client := Ready\<rparr>)"
    using inv cl by (simp add: fp_inv_def is_joining_def joining_ok_def)
  ultimately show ?thesis
    using False close_device_inv [of "s\<lparr>dev := dev s\<rparr>" L]
    by (simp add: commit_stop_def request_stop_def Let_def)
qed

lemma commit_enroll_inv:
  assumes inv: "fp_inv s" and cl: "client s = Called c"
  shows "fp_inv (start_result (fingerprint_enroll L token gid t (dev s)) EnrollStart s)"
proof -
  let ?d = "dev s"
  have g: "gallery_ok ?d" using inv by (simp add: fp_inv_def)
  have r: "fp_inv (return_code k ?d s)" for k
    by (rule return_inv [OF inv]) (use cl g in simp_all)
  show ?thesis
  proof (cases "worker_active ?d \<or> worker_joinable ?d \<or> store_path ?d = [] \<or> gid \<noteq> active_gid ?d \<or>
      tok_challenge token \<noteq> challenge ?d \<or>
      be32toh (tok_authenticator_type token) AND HW_AUTH_PASSWORD L = 0 \<or> template_count ?d \<ge> MAX_TEMPLATES")
    case True
    then show ?thesis using r by (auto simp: fingerprint_enroll_def start_result_def Let_def)
  next
    case False
    have "fp_inv (start_result (start_worker_locked L OPERATION_ENROLL
        (?d\<lparr>secure_user_id := u, enroll_timeout_sec := v\<rparr>)) EnrollStart s)" for u v
      by (rule start_result_inv [OF inv cl]) (use False g in simp_all)
    with False show ?thesis by (simp add: fingerprint_enroll_def)
  qed
qed

lemma commit_authenticate_inv:
  assumes inv: "fp_inv s" and cl: "client s = Called c"
  shows "fp_inv (start_result (fingerprint_authenticate L oid gid (dev s)) AuthStart s)"
proof -
  let ?d = "dev s"
  have g: "gallery_ok ?d" using inv by (simp add: fp_inv_def)
  have r: "fp_inv (return_code k ?d s)" for k
    by (rule return_inv [OF inv]) (use cl g in simp_all)
  have "fp_inv (start_result (start_worker_locked L OPERATION_AUTHENTICATE (?d\<lparr>operation_id := oid\<rparr>)) AuthStart s)"
    by (rule start_result_inv [OF inv cl]) (use g in simp_all)
  moreover have "fp_inv (start_result (k, ?d) AuthStart s)" if "k \<noteq> 0" for k
    using r that by (simp add: start_result_def Let_def)
  ultimately show ?thesis by (simp add: fingerprint_authenticate_def)
qed

lemma commit_call_inv:
  assumes inv: "fp_inv s" and cl: "client s = Called c"
  shows "fp_inv (commit_call L c s)"
proof (cases c)
  case (Enroll token gid t)
  then show ?thesis using commit_enroll_inv [OF inv cl] by simp
next
  case (Authenticate oid gid)
  then show ?thesis using commit_authenticate_inv [OF inv cl] by simp
next
  case Enumerate
  have g: "gallery_ok (dev s)" using inv by (simp add: fp_inv_def)
  show ?thesis unfolding Enumerate
    by (simp add: fingerprint_enumerate_def)
      (intro conjI impI return_inv [OF inv]; use cl g in simp)
next
  case (Remove gid fid)
  have g: "gallery_ok (dev s)" using inv by (simp add: fp_inv_def)
  obtain r d where rd: "fingerprint_remove L gid fid (dev s) = (r, d)" by fastforce
  note fr = fingerprint_remove_frame [OF rd]
  have "fp_inv (return_code r d s)"
    by (rule return_inv [OF inv]) (use cl fr(2,3) g control_eqD [OF fr(1)] in simp_all)
  then show ?thesis by (simp add: Remove rd)
next
  case (SetActiveGroup gid p)
  have g: "gallery_ok (dev s)" using inv by (simp add: fp_inv_def)
  obtain r d where rd: "fingerprint_set_active_group L gid (the p) (dev s) = (r, d)" by fastforce
  note fr = fingerprint_set_active_group_frame [OF rd]
  have "fp_inv (return_code r d s)"
    by (rule return_inv [OF inv]) (use cl fr g in simp_all)
  then show ?thesis by (simp add: SetActiveGroup rd)
qed (use inv commit_stop_inv [OF inv cl] in simp_all)

lemma finish_join_inv:
  assumes inv: "fp_inv s" and cl: "client s = Joining send cancelled closing" and ex: "wthread s = Exited"
  shows "fp_inv (finish_join L send cancelled closing s)"
proof -
  define d where "d = (if send \<and> cancelled then notify_error (dev s) FINGERPRINT_ERROR_CANCELED else dev s)"
  have d: "gallery_ok d" "control d = control (dev s)"
    using inv by (auto simp: d_def fp_inv_def notify_error_def)
  have ready: "fp_inv (s\<lparr>dev := d, wthread := NoThread, client := Ready\<rparr>)"
    using inv cl ex d control_eqD [OF d(2)]
    by (simp add: fp_inv_def is_joining_def joining_ok_def running_def enrolling_def)
  then have "fp_inv (return_code 0 d (s\<lparr>dev := d, wthread := NoThread\<rparr>))"
    by (simp add: return_code_def fp_inv_def)
  with close_device_inv [of "s\<lparr>dev := d, wthread := NoThread\<rparr>" L] ready show ?thesis
    by (simp add: finish_join_def Let_def d_def [symmetric])
qed

lemma fp_step_inv: "fp_step L s t \<Longrightarrow> fp_inv s \<Longrightarrow> fp_inv t"
  by (erule fp_stepE) (auto intro: worker_step_inv begin_call_inv commit_call_inv finish_join_inv)

lemma fp_reachable_inv: "fp_reachable L s \<Longrightarrow> fp_inv s"
proof (induction rule: fp_reachable.induct)
  case (start x w)
  show ?case by (rule fp_inv_start)
next
  case (step s t)
  then show ?case by (blast intro: fp_step_inv)
qed

section \<open>Schedules\<close>

text \<open>
  The same steps as a function: an event names the thread that moves next, and an event
  of a thread that cannot move changes nothing.
\<close>

datatype fp_event = WorkerMoves | ClientCalls api_call | ClientMoves

definition fp_exec :: "('x, 'p, 'd) platform \<Rightarrow> ('x, 'd) fpsys \<Rightarrow> fp_event \<Rightarrow> ('x, 'd) fpsys" where
  "fp_exec L s e =
     (case e of
        WorkerMoves \<Rightarrow>
          (if running (wthread s)
           then (let (d, pc) = worker_step L (dev s) (wthread s) in s\<lparr>dev := d, wthread := pc\<rparr>) else s)
      | ClientCalls c \<Rightarrow> (if client s = Ready then begin_call L c s else s)
      | ClientMoves \<Rightarrow>
          (case client s of
             Called c \<Rightarrow> commit_call L c s
           | Joining send cancelled closing \<Rightarrow>
               (if wthread s = Exited then finish_join L send cancelled closing s else s)
           | _ \<Rightarrow> s))"

lemma fp_exec_step: "fp_exec L s e = s \<or> fp_step L s (fp_exec L s e)"
  by (auto simp: fp_exec_def Let_def intro: fp_step.intros split: fp_event.split client_pc.split prod.split)

interpretation hal: machine "fp_exec L" "\<lambda>s. \<exists>x w. s = fp_start x w" fp_inv
  for L :: "('x, 'p, 'd) platform"
proof
  show "fp_inv s" if "\<exists>x w. s = fp_start x w" for s :: "('x, 'd) fpsys"
    using that by (auto intro: fp_inv_start)
  show "fp_inv (fp_exec L s e)" if "fp_inv s" for s e
    using that fp_step_inv [of L s "fp_exec L s e"] fp_exec_step [of L s e] by metis
qed

interpretation reach: machine "fp_exec L" "\<lambda>s. \<exists>x w. s = fp_start x w" "fp_reachable L"
  for L :: "('x, 'p, 'd) platform"
proof
  show "fp_reachable L s" if "\<exists>x w. s = fp_start x w" for s
    using that by (auto intro: fp_reachable.start)
  show "fp_reachable L (fp_exec L s e)" if "fp_reachable L s" for s e
    using that fp_exec_step [of L s e] fp_reachable.step [of L s "fp_exec L s e"] by metis
qed

lemma fp_reachable_run: "fp_reachable L (foldl (fp_exec L) (fp_start x w) es)"
  by (rule reach.reach_inv) blast

end
