(* ===== verification/Fp_Safety.thy ===== *)
theory Fp_Safety
  imports Fp_System
begin

text \<open>
  What the interleaved system of the fingerprint HAL guarantees: which thread sends which
  message, when an authentication succeeds, when an enrolment starts and what it announces,
  and that at most one worker exists.
\<close>

section \<open>Messages a step sends\<close>

definition msgs_added :: "('x, 'd) fpdev \<Rightarrow> ('x, 'd) fpdev \<Rightarrow> message list" where
  "msgs_added d d' = map snd (drop (length (sent d)) (sent d'))"

lemma msgs_added_same: "sent d' = sent d \<Longrightarrow> msgs_added d d' = []"
  by (simp add: msgs_added_def)

lemma msgs_added_append: "sent d' = sent d @ ms \<Longrightarrow> msgs_added d d' = map snd ms"
  by (simp add: msgs_added_def)

text \<open>Messages of the client's own calls.\<close>

definition client_msg :: "message \<Rightarrow> bool" where
  "client_msg m \<longleftrightarrow> (case m of MsgEnumerating _ _ _ \<Rightarrow> True | MsgRemoved _ _ _ \<Rightarrow> True
     | MsgError e \<Rightarrow> e = FINGERPRINT_ERROR_CANCELED | _ \<Rightarrow> False)"

lemma client_msg_countdown:
  "\<forall>m \<in> set (countdown MsgEnumerating g ids). client_msg m"
  "\<forall>m \<in> set (countdown MsgRemoved g ids). client_msg m"
  by (auto simp: countdown_def client_msg_def)

lemma sent_remove:
  assumes "fingerprint_remove L gid fid d = (r, d')"
  shows "\<exists>ms. sent d' = sent d @ ms \<and> (\<forall>m \<in> snd ` set ms. client_msg m)"
proof -
  obtain removed x where rm: "remove_prints L fid (live_ids d) (lib d) = (removed, x)" by fastforce
  obtain mr d2 where ro: "rotate_authenticator_locked (snd (load_templates_locked L (d\<lparr>lib := x\<rparr>))) = (mr, d2)"
    by fastforce
  have "sent d2 = sent d" using reload_rotate(3) [OF ro] by simp
  with assms rm ro client_msg_countdown(2) [of gid removed] show ?thesis
    by (auto simp: fingerprint_remove_def Let_def sent_notify_message sent_notify_all client_msg_def
        split: if_splits option.splits)
qed

lemma sent_set_active_group:
  assumes "fingerprint_set_active_group L gid p d = (r, d')"
  shows "sent d' = sent d"
proof -
  let ?d = "d\<lparr>store_path := p, active_gid := gid\<rparr>"
  obtain d1 where ld: "load_templates_locked L ?d = (0, d1)" by (metis load_templates_result prod.collapse)
  have d1: "sent d1 = sent d" using load_templates_frame(2) [of L ?d] ld by simp
  obtain r2 d2 where lm: "load_metadata_locked d1 = (r2, d2)" by fastforce
  have fr: "d2 = d1\<lparr>posix := posix d2, secure_user_id := secure_user_id d2, authenticator_id := authenticator_id d2\<rparr>"
    using load_metadata_frame [OF lm] by simp
  have d2: "sent d2 = sent d1" by (subst fr) simp
  obtain r3 d3 where ro: "rotate_authenticator_locked d2 = (r3, d3)" by fastforce
  have d3: "sent d3 = sent d2" using rotate_authenticator_spec [OF ro] by simp
  show ?thesis using assms ld lm ro d1 d2 d3
    by (auto simp: fingerprint_set_active_group_def Let_def split: if_splits)
qed

lemma sent_start_worker [simp]: "sent (snd (start_worker_locked L oper d)) = sent d"
  by (simp add: start_worker_locked_def Let_def split: prod.split option.split)

lemma sent_begin_call: "sent (dev (begin_call L c s)) = sent (dev s)"
  by (cases c) (simp_all add: return_code_def reap_and_lock_def reap_finished_worker_def Let_def
      fingerprint_set_notify_def fingerprint_pre_enroll_def fingerprint_post_enroll_def
      split: prod.split option.split)

lemma sent_commit_call:
  "\<exists>ms. sent (dev (commit_call L c s)) = sent (dev s) @ ms \<and> (\<forall>m \<in> snd ` set ms. client_msg m)"
proof (cases c)
  case (Remove gid fid)
  obtain r d where rd: "fingerprint_remove L gid fid (dev s) = (r, d)" by fastforce
  from sent_remove [OF this] rd Remove show ?thesis by (simp add: return_code_def)
next
  case (SetActiveGroup gid p)
  obtain r d where rd: "fingerprint_set_active_group L gid (the p) (dev s) = (r, d)" by fastforce
  from sent_set_active_group [OF this] rd SetActiveGroup show ?thesis by (simp add: return_code_def)
next
  case Enumerate
  then show ?thesis using client_msg_countdown(1) [of "active_gid (dev s)" "live_ids (dev s)"]
    by (auto simp: fingerprint_enumerate_def return_code_def sent_notify_message sent_notify_all client_msg_def
      split: option.splits)
qed (auto simp: return_code_def start_result_def Let_def fingerprint_enroll_def fingerprint_authenticate_def
    commit_stop_def request_stop_def close_device_def release_device_def)

lemma sent_finish_join:
  "\<exists>ms. sent (dev (finish_join L send cancelled closing s)) = sent (dev s) @ ms \<and> (\<forall>m \<in> snd ` set ms. client_msg m)"
  by (auto simp: finish_join_def Let_def close_device_def return_code_def release_device_def notify_error_def
      sent_notify_message client_msg_def split: option.splits)

text \<open>Whatever a step sends beyond the client's own messages, the worker sent it.\<close>

lemma worker_message:
  assumes "fp_step L s t" and "m \<in> set (msgs_added (dev s) (dev t))" and "\<not> client_msg m"
  shows "running (wthread s) \<and> (dev t, wthread t) = worker_step L (dev s) (wthread s)"
  using assms(1)
proof (cases rule: fp_step.cases)
  case (worker d pc)
  then show ?thesis by simp
next
  case (call c)
  then show ?thesis using assms(2) msgs_added_same [OF sent_begin_call [of L c s]] by simp
next
  case (commit c)
  then show ?thesis using assms(2,3) sent_commit_call [of L c s] by (auto simp: msgs_added_append)
next
  case (join send cancelled closing)
  then show ?thesis using assms(2,3) sent_finish_join [of L send cancelled closing s] by (auto simp: msgs_added_append)
qed

text \<open>A success message comes from one place, with the data of that moment.\<close>

lemma auth_result_messages:
  assumes "auth_result L st i d = (d', pc')" and "MsgAuthenticated g f tok \<in> set (msgs_added d d')" and "f \<noteq> 0"
  shows "st = FP_VERIFY_MATCH \<and> 0 \<le> i \<and> i < int (template_count d) \<and>
    g = active_gid d \<and> f = template_ids d ! nat i \<and> tok_challenge tok = operation_id d \<and>
    tok_user_id tok = secure_user_id d \<and> tok_authenticator_id tok = authenticator_id d"
  using assms
  by (cases st)
    (auto simp: auth_result_def send_authentication_success_def
      send_authentication_failure_def notify_error_def msgs_added_def sent_notify_message Let_def auth_token_def
      split: if_splits prod.splits option.splits)

lemma worker_step_authenticated:
  assumes "worker_step L d pc = (d', pc')" and "MsgAuthenticated g f tok \<in> set (msgs_added d d')"
  shows "\<exists>st i. pc = AuthResult st i"
proof (cases pc)
  case (EnrollReload fid e)
  obtain r d2 where r: "rotate_authenticator_locked (snd (load_templates_locked L d)) = (r, d2)" by fastforce
  with assms EnrollReload have "d' = notify_message d2 (MsgEnrolling (active_gid d2) fid 0)"
    by (simp add: enroll_reload_def Let_def)
  with reload_rotate(3) [OF r] assms(2) show ?thesis
    by (auto simp: msgs_added_def sent_notify_message split: option.splits)
qed (use assms in \<open>auto simp: worker_defs msgs_added_def sent_notify_message split: if_splits prod.splits option.splits enroll_status.splits\<close>)

section \<open>Local variables of the worker\<close>

fun locals_ok :: "('x, 'd) fpdev \<Rightarrow> 'd wpc \<Rightarrow> bool" where
  "locals_ok d (EnrollHead r dl e) = (1 \<le> r)"
| "locals_ok d (EnrollScan r dl e) = (1 \<le> r)"
| "locals_ok d (EnrollAfter r dl e st) = (1 \<le> r)"
| "locals_ok d (EnrollResult r dl e st) = (1 \<le> r)"
| "locals_ok d (EnrollSave fid e) = (1 \<le> fid \<and> fid \<le> 5 \<and> fid \<notin> set (live_ids d))"
| "locals_ok d (EnrollReload fid e) = (1 \<le> fid \<and> fid \<le> 5 \<and> fid \<notin> set (live_ids d))"
| "locals_ok d _ = True"

lemma find_free_fid_range:
  "find_free_fid_locked d \<noteq> 0 \<Longrightarrow>
     1 \<le> find_free_fid_locked d \<and> find_free_fid_locked d \<le> 5 \<and> find_free_fid_locked d \<notin> set (live_ids d)"
proof -
  assume nz: "find_free_fid_locked d \<noteq> 0"
  with find_free_from_spec [of 1 "live_ids d"]
  obtain k where "1 \<le> k" "k \<le> 5" "find_free_fid_locked d = of_nat k" "of_nat k \<notin> set (live_ids d)"
    by (auto simp: find_free_fid_locked_def MAX_TEMPLATES_def)
  moreover from this have "k = 1 \<or> k = 2 \<or> k = 3 \<or> k = 4 \<or> k = 5" by auto
  ultimately show ?thesis by auto
qed

lemma free_fid_exists:
  assumes "gallery_ok d" and "template_count d < MAX_TEMPLATES"
  shows "find_free_fid_locked d \<noteq> 0"
proof
  assume "find_free_fid_locked d = 0"
  with find_free_from_spec [of 1 "live_ids d"]
  have "\<forall>k. 1 \<le> k \<and> k \<le> (5::nat) \<longrightarrow> (of_nat k :: u32) \<in> set (live_ids d)"
    by (simp add: find_free_fid_locked_def MAX_TEMPLATES_def)
  then have "{1, 2, 3, 4, 5 :: u32} \<subseteq> set (live_ids d)" unfolding all_upto_5 by simp
  then have "card {1, 2, 3, 4, 5 :: u32} \<le> card (set (live_ids d))" by (intro card_mono) simp_all
  also have "\<dots> \<le> length (live_ids d)" by (rule card_length)
  finally show False using assms by (simp add: length_live_ids MAX_TEMPLATES_def)
qed

lemma worker_step_locals:
  assumes st: "worker_step L d pc = (d', pc')" and "locals_ok d pc" and stages: "\<And>x. 1 \<le> fp_dev_get_nr_enroll_stages L x"
  shows "locals_ok d' pc'"
proof (cases pc)
  case (EnrollResult r dl e st)
  have dec: "1 \<le> r - 1" if "1 < r" for r :: u32
    using that by (simp add: word_le_nat_alt word_less_nat_alt unat_sub_if')
  from EnrollResult assms find_free_fid_range [of d] dec show ?thesis
    by (auto simp: worker_defs live_ids_def split: if_splits option.splits enroll_status.splits)
next
  case (EnrollReload fid e)
  with st enroll_reload_frame(4) [of L fid e d d' pc'] show ?thesis by simp
qed (use assms in \<open>auto simp: worker_defs live_ids_def split: if_splits prod.splits option.splits verify_status.splits\<close>)

lemma locals_ok_cong: "live_ids d' = live_ids d \<Longrightarrow> locals_ok d' pc = locals_ok d pc"
  by (cases pc) simp_all

lemma locals_ok_idle: "\<not> running pc \<Longrightarrow> locals_ok d pc"
  by (cases pc) (simp_all add: running_def)

lemma live_ids_begin_call: "live_ids (dev (begin_call L c s)) = live_ids (dev s)"
  by (cases c) (simp_all add: return_code_def reap_and_lock_def reap_finished_worker_def Let_def live_ids_def
      fingerprint_set_notify_def fingerprint_pre_enroll_def fingerprint_post_enroll_def
      split: prod.split option.split)

lemma wthread_begin_call: "wthread (begin_call L c s) = wthread s \<or> wthread (begin_call L c s) = NoThread"
  by (cases c) (simp_all add: return_code_def reap_and_lock_def reap_finished_worker_def Let_def
      fingerprint_set_notify_def fingerprint_pre_enroll_def fingerprint_post_enroll_def
      split: prod.split option.split)

lemma commit_call_busy:
  assumes "worker_active (dev s)" and "worker_joinable (dev s)"
  shows "live_ids (dev (commit_call L c s)) = live_ids (dev s) \<and>
    (wthread (commit_call L c s) = wthread s \<or> wthread (commit_call L c s) = NoThread)"
  using assms
  by (cases c) (auto simp: return_code_def start_result_def Let_def fingerprint_enroll_def fingerprint_authenticate_def
      fingerprint_enumerate_def fingerprint_remove_def fingerprint_set_active_group_def commit_stop_def
      request_stop_def close_device_def release_device_def live_ids_def)

lemma wthread_results [simp]:
  "wthread (return_code r d s) = wthread s" "wthread (close_device L s) = wthread s"
  "wthread (start_result rd pc s) = (if fst rd = 0 then pc else wthread s)"
  "wthread (commit_stop L send closing s) = wthread s"
  by (simp_all add: return_code_def close_device_def start_result_def commit_stop_def Let_def split: prod.split)

lemma commit_call_thread:
  "wthread (commit_call L c s) = wthread s \<or>
    wthread (commit_call L c s) = EnrollStart \<or> wthread (commit_call L c s) = AuthStart"
  by (cases c) (simp_all add: Let_def split: prod.split)

text \<open>
  A worker acts on the outcome of a scan only after it looked at the cancel flag: there was an
  earlier moment at which it found the flag clear, and it has not moved since.
\<close>

lemma worker_step_AuthResult:
  "worker_step L d pc = (d', AuthResult st i) \<Longrightarrow> pc = AuthAfter st i \<and> \<not> cancel_requested d"
  by (cases pc) (auto simp: worker_defs split: if_splits prod.splits option.splits enroll_status.splits verify_status.splits)

lemma client_keeps_AuthResult:
  "wthread (begin_call L c s) = AuthResult st i \<Longrightarrow> wthread s = AuthResult st i"
  "wthread (commit_call L c s) = AuthResult st i \<Longrightarrow> wthread s = AuthResult st i"
  "wthread (finish_join L send cancelled closing s) \<noteq> AuthResult st i"
  using wthread_begin_call [of L c s] commit_call_thread [of L c s] by (auto simp: finish_join_def Let_def)

definition found_clear :: "('x, 'p, 'd) platform \<Rightarrow> verify_status \<Rightarrow> int \<Rightarrow> ('x, 'd) fpsys \<Rightarrow> bool" where
  "found_clear L st i s \<longleftrightarrow> (\<exists>u v. fp_reachable L u \<and> fp_step L u v \<and> wthread u = AuthAfter st i \<and> \<not> cancel_requested (dev u) \<and>
     wthread v = AuthResult st i \<and> (\<lambda>a b. fp_step L a b \<and> wthread b = AuthResult st i)\<^sup>*\<^sup>* v s)"

lemma auth_result_checked:
  "fp_reachable L s \<Longrightarrow> wthread s = AuthResult st i \<Longrightarrow> found_clear L st i s"
proof (induction rule: fp_reachable.induct)
  case (start x w)
  then show ?case by (simp add: fp_start_def)
next
  case (step s t)
  have later: "found_clear L st i t" if "wthread s = AuthResult st i"
    using step.IH [OF that] step.hyps(2) step.prems unfolding found_clear_def
    by (blast intro: rtranclp.rtrancl_into_rtrancl)
  from step.hyps(2) show ?case
  proof (cases rule: fp_step.cases)
    case (worker d pc)
    with step.prems worker_step_AuthResult [of L "dev s" "wthread s" d st i]
    have "wthread s = AuthAfter st i" "\<not> cancel_requested (dev s)" by auto
    with step.hyps step.prems show ?thesis unfolding found_clear_def by blast
  qed (use step.prems later client_keeps_AuthResult in blast)+
qed

lemma fp_step_locals:
  assumes "fp_step L s t" and inv: "fp_inv s" and ok: "locals_ok (dev s) (wthread s)"
    and stages: "\<And>x. 1 \<le> fp_dev_get_nr_enroll_stages L x"
  shows "locals_ok (dev t) (wthread t)"
  using assms(1)
proof (cases rule: fp_step.cases)
  case (worker d pc)
  with worker_step_locals [OF worker(3) ok stages] show ?thesis by simp
next
  case (call c)
  then show ?thesis
    using ok wthread_begin_call [of L c s] by (metis locals_ok_cong live_ids_begin_call locals_ok.simps(7))
next
  case (commit c)
  show ?thesis
  proof (cases "running (wthread s)")
    case True
    then have "worker_active (dev s)" "worker_joinable (dev s)"
      using inv commit by (auto simp: fp_inv_def is_joining_def running_def)
    note busy = commit_call_busy [OF this, of L c]
    with ok have "locals_ok (dev (commit_call L c s)) (wthread (commit_call L c s))"
      by (metis locals_ok_cong locals_ok.simps(7))
    with commit(1) show ?thesis by simp
  next
    case False
    with commit_call_thread [of L c s] have "locals_ok (dev (commit_call L c s)) (wthread (commit_call L c s))"
      by (metis locals_ok_idle locals_ok.simps(8,12))
    with commit(1) show ?thesis by simp
  qed
next
  case (join send cancelled closing)
  then show ?thesis by (auto simp: finish_join_def Let_def close_device_def return_code_def)
qed

lemma fp_reachable_locals:
  assumes "fp_reachable L s" and "\<And>x. 1 \<le> fp_dev_get_nr_enroll_stages L x"
  shows "locals_ok (dev s) (wthread s)"
  using assms
proof (induction rule: fp_reachable.induct)
  case (start x w)
  show ?case by (simp add: fp_start_def)
next
  case (step s t)
  then show ?case using fp_step_locals [OF step.hyps(2) fp_reachable_inv [OF step.hyps(1)]] by blast
qed

lemma worker_step_enrolling:
  assumes "worker_step L d pc = (d', pc')" and "MsgEnrolling g f n \<in> set (msgs_added d d')" and "locals_ok d pc"
  shows "g = active_gid d \<and> (f = 0 \<and> 1 \<le> n \<or> n = 0 \<and> (\<exists>e. pc = EnrollReload f e))"
proof (cases pc)
  case (EnrollReload fid e)
  obtain r d2 where r: "rotate_authenticator_locked (snd (load_templates_locked L d)) = (r, d2)" by fastforce
  with assms EnrollReload have "d' = notify_message d2 (MsgEnrolling (active_gid d2) fid 0)"
    by (simp add: enroll_reload_def Let_def)
  with reload_rotate [OF r] control_eqD(6) [OF reload_rotate(1) [OF r]] assms(2) EnrollReload show ?thesis
    by (auto simp: msgs_added_def sent_notify_message split: option.splits)
next
  case (EnrollResult r dl e st)
  have dec: "1 \<le> r - 1" if "1 < r" for r :: u32
    using that by (simp add: word_le_nat_alt word_less_nat_alt unat_sub_if')
  from assms EnrollResult dec show ?thesis
    by (auto simp: worker_defs msgs_added_def sent_notify_message
        split: if_splits option.splits enroll_status.splits)
qed (use assms in \<open>auto simp: worker_defs msgs_added_def sent_notify_message split: if_splits prod.splits option.splits verify_status.splits\<close>)

section \<open>Runs to evaluate\<close>

text \<open>
  A client that registers its callback and selects a group holding one stored print, on the
  example platform with scripted scans; the metadata file cannot be opened in these runs.
\<close>

definition demo_ready :: "enroll_status list \<Rightarrow> (verify_status \<times> int) list \<Rightarrow> (demo_lib, nat) fpsys" where
  "demo_ready es vs =
     foldl (fp_exec demo_platform)
       (fp_start (demo_lib0\<lparr>demo_prints := [(2, 1)], demo_enroll := es, demo_verify := vs\<rparr>)
          (idle_world\<lparr>faults := [Fail EIO]\<rparr>))
       [ClientCalls (SetNotify (Some 0)), ClientCalls (SetActiveGroup 0 (Some ''/data'')), ClientMoves]"

definition demo_run ::
    "enroll_status list \<Rightarrow> (verify_status \<times> int) list \<Rightarrow> fp_event list \<Rightarrow> (demo_lib, nat) fpsys" where
  "demo_run es vs evs = foldl (fp_exec demo_platform) (demo_ready es vs) evs"

definition demo_token :: hw_auth_token where
  "demo_token = zero_token\<lparr>tok_authenticator_type := 16777216\<rparr>"

definition demo_match :: "(demo_lib, nat) fpsys" where
  "demo_match = demo_run [] [(FP_VERIFY_MATCH, 0)]
     [ClientCalls (Authenticate 77 0), ClientMoves, WorkerMoves, WorkerMoves, WorkerMoves, WorkerMoves]"

definition demo_pass :: "(demo_lib, nat) fpsys" where
  "demo_pass = demo_run [FP_ENROLL_PASS] []
     [ClientCalls (Enroll (Some demo_token) 0 0), ClientMoves, WorkerMoves, WorkerMoves, WorkerMoves, WorkerMoves]"

definition demo_complete :: "(demo_lib, nat) fpsys" where
  "demo_complete = demo_run [FP_ENROLL_COMPLETE] []
     [ClientCalls (Enroll (Some demo_token) 0 0), ClientMoves, WorkerMoves, WorkerMoves, WorkerMoves, WorkerMoves]"

definition demo_cancel :: "(demo_lib, nat) fpsys" where
  "demo_cancel = demo_run [] [(FP_VERIFY_MATCH, 0)]
     [ClientCalls (Authenticate 77 0), ClientMoves, WorkerMoves, ClientCalls Cancel, ClientMoves]"

lemmas fp_eval = fp_exec_def fp_start_def reap_and_lock_def reap_finished_worker_def return_code_def
  start_result_def start_worker_locked_def commit_stop_def request_stop_def running_def Let_def

lemma replicate_five: "replicate 5 v = [v, v, v, v, v]" "replicate 6 v = [v, v, v, v, v, v]"
  by (simp_all add: numeral_eq_Suc)

lemma demo_load:
  "load_templates_locked demo_platform
    (blank_device (demo_lib0\<lparr>demo_prints := [(2, 1)], demo_enroll := es, demo_verify := vs\<rparr>)
      (idle_world\<lparr>faults := [Fail EIO]\<rparr>) \<lparr>notify := Some 0, store_path := ''/data'', active_gid := 0\<rparr>) =
   (0, (blank_device (demo_lib0\<lparr>demo_prints := [(2, 1)], demo_enroll := es, demo_verify := vs\<rparr>)
      (idle_world\<lparr>faults := [Fail EIO]\<rparr>) \<lparr>notify := Some 0, store_path := ''/data'',
        templates := [Some 1, None, None, None, None, None], template_ids := [2, 0, 0, 0, 0], template_count := 1\<rparr>))"
  by (simp add: load_templates_locked_def load_print_def free_templates_locked_def free_slot_def MAX_TEMPLATES_def
      blank_device_def replicate_five Let_def)

lemma demo_ready_eq:
  "demo_ready es vs =
   \<lparr>dev = (blank_device (demo_lib0\<lparr>demo_prints := [(2, 1)], demo_enroll := es, demo_verify := vs\<rparr>) idle_world)
      \<lparr>notify := Some 0, store_path := ''/data'', templates := [Some 1, None, None, None, None, None],
       template_ids := [2, 0, 0, 0, 0], template_count := 1\<rparr>,
    wthread = NoThread, client = Ready, results = [0, - 5]\<rparr>"
proof -
  have *: "load_metadata_locked ((blank_device x (idle_world\<lparr>faults := [Fail EIO]\<rparr>))
      \<lparr>notify := Some 0, store_path := ''/data'', templates := ts, template_ids := ids, template_count := n\<rparr>) =
    (- 5, (blank_device x idle_world)
      \<lparr>notify := Some 0, store_path := ''/data'', templates := ts, template_ids := ids, template_count := n\<rparr>)"
    for x :: demo_lib and ts :: "nat option list" and ids n
    by (simp add: blank_device_def load_metadata_locked_def metadata_path_def PATH_MAX_def METADATA_NAME_def
        sys_eval idle_world_def)
  show ?thesis
    by (simp add: demo_ready_def fp_eval group_path_ok_def fingerprint_set_notify_def
        fingerprint_set_active_group_def PATH_MAX_def demo_load [simplified] * [simplified])
qed

lemma demo_run_reachable: "fp_reachable demo_platform (demo_run es vs evs)"
proof -
  have "fp_reachable demo_platform (demo_ready es vs)"
    unfolding demo_ready_def by (rule fp_reachable_run)
  then show ?thesis unfolding demo_run_def by (rule reach.run_inv)
qed

lemma demo_reachable:
  "fp_reachable demo_platform demo_match" "fp_reachable demo_platform demo_pass"
  "fp_reachable demo_platform demo_complete" "fp_reachable demo_platform demo_cancel"
  by (simp_all add: demo_match_def demo_pass_def demo_complete_def demo_cancel_def demo_run_reachable)

lemma demo_token_simps [simp]:
  "tok_version demo_token = 0" "tok_challenge demo_token = 0" "tok_user_id demo_token = 0"
  "be32toh (tok_authenticator_type demo_token) = 1"
proof -
  have four: "(4::nat) = Suc (Suc (Suc (Suc 0)))" by simp
  have "le_bytes 4 n = le_bytes (Suc (Suc (Suc (Suc 0)))) n" for n by (simp only: four)
  then have "le_bytes 4 16777216 = [0, 0, 0, 1]" by simp
  then show "be32toh (tok_authenticator_type demo_token) = 1"
    by (simp add: demo_token_def zero_token_def be32toh_def htobe32_def)
qed (simp_all add: demo_token_def zero_token_def)

lemmas demo_eval = demo_run_def demo_ready_eq fp_eval worker_defs notify_message_def
  fingerprint_enroll_def fingerprint_authenticate_def enroll_token_ok_def
  MAX_TEMPLATES_def blank_device_def demo_lib0_def

lemma demo_match_state:
  "wthread demo_match = AuthResult FP_VERIFY_MATCH 0" "live_ids (dev demo_match) = [2]"
  "\<exists>tok. msgs_added (dev demo_match) (dev (fp_exec demo_platform demo_match WorkerMoves)) =
     [MsgAcquired FINGERPRINT_ACQUIRED_GOOD, MsgAuthenticated 0 2 tok] \<and> tok_challenge tok = 77"
  by (simp_all add: demo_match_def demo_eval live_ids_def msgs_added_def auth_token_def)

lemma demo_pass_state:
  "wthread demo_pass = EnrollResult 3 60 (Some 42) FP_ENROLL_PASS"
  "msgs_added (dev demo_pass) (dev (fp_exec demo_platform demo_pass WorkerMoves)) = [MsgEnrolling 0 0 2]"
  by (simp_all add: demo_pass_def demo_eval msgs_added_def)

lemma demo_complete_state:
  "wthread demo_complete = EnrollResult 3 60 (Some 42) FP_ENROLL_COMPLETE"
  "\<not> cancel_requested (dev demo_complete)" "live_ids (dev demo_complete) = [2]"
  by (simp_all add: demo_complete_def demo_eval live_ids_def)

lemma demo_cancel_state:
  "client demo_cancel = Joining True True False" "wthread demo_cancel = AuthHead"
  by (simp_all add: demo_cancel_def demo_eval)

lemma fp_exec_worker: "running (wthread s) \<Longrightarrow> fp_step L s (fp_exec L s WorkerMoves)"
  by (auto simp: fp_exec_def Let_def intro: fp_step.worker split: prod.split)

text \<open>What a client call that has passed its first checks carries.\<close>

fun call_ok :: "('x, 'p, 'd) platform \<Rightarrow> client_pc \<Rightarrow> bool" where
  "call_ok L (Called (Enroll token gid t)) = enroll_token_ok L token"
| "call_ok L (Called (SetActiveGroup gid p)) = group_path_ok p"
| "call_ok L _ = True"

lemma call_ok_simps [simp]:
  "call_ok L (client (return_code r d s))" "call_ok L (client (close_device L s))"
  "call_ok L (client (start_result rd pc s))" "call_ok L (client (commit_stop L send closing s))"
  by (simp_all add: return_code_def close_device_def start_result_def commit_stop_def Let_def split: prod.split)

lemma fp_step_call_ok:
  assumes "fp_step L s t" and ok: "call_ok L (client s)"
  shows "call_ok L (client t)"
  using assms(1)
proof (cases rule: fp_step.cases)
  case (worker d pc)
  with ok show ?thesis by simp
next
  case (call c)
  then show ?thesis by (cases c) (simp_all add: reap_and_lock_def Let_def split: prod.split)
next
  case (commit c)
  with ok show ?thesis by (cases c) (simp_all add: Let_def split: prod.split)
next
  case (join send cancelled closing)
  then show ?thesis by (simp add: finish_join_def Let_def)
qed

lemma fp_reachable_call_ok: "fp_reachable L s \<Longrightarrow> call_ok L (client s)"
proof (induction rule: fp_reachable.induct)
  case (start x w)
  show ?case by (simp add: fp_start_def)
next
  case (step s t)
  then show ?case using fp_step_call_ok by blast
qed

lemma worker_step_no_enroll: "worker_step L d pc = (d', pc') \<Longrightarrow> \<not> enroll_pc pc \<Longrightarrow> \<not> enroll_pc pc'"
  by (cases pc) (auto simp: worker_defs Let_def split: if_splits prod.splits verify_status.splits)

lemma fingerprint_enroll_ok:
  assumes "fst (fingerprint_enroll L token gid t d) = 0"
  shows "\<not> worker_active d \<and> \<not> worker_joinable d \<and> store_path d \<noteq> [] \<and> gid = active_gid d \<and>
    tok_challenge token = challenge d \<and> be32toh (tok_authenticator_type token) AND HW_AUTH_PASSWORD L \<noteq> 0 \<and>
    template_count d < MAX_TEMPLATES"
  using assms by (auto simp: fingerprint_enroll_def split: if_splits)

section \<open>Properties\<close>

text \<open>
  C2: In every reachable state of the two threads the flags of the device agree with the
  threads: the worker is marked active exactly while its thread function runs, a thread
  that exists is joinable or being joined but not both (so it is joined exactly once), the
  operation is the running one, an idle device has no operation, and the template arrays
  are in bounds with a null slot behind the last template.
\<close>

theorem fp_state_consistent:
  assumes "fp_reachable L s"
  shows "(worker_active (dev s) \<longleftrightarrow> running (wthread s)) \<and>
    (wthread s \<noteq> NoThread \<longleftrightarrow> worker_joinable (dev s) \<noteq> is_joining (client s)) \<and>
    (operation (dev s) = OPERATION_ENROLL \<longleftrightarrow> enroll_pc (wthread s)) \<and>
    (operation (dev s) = OPERATION_AUTHENTICATE \<longleftrightarrow> auth_pc (wthread s)) \<and>
    template_count (dev s) \<le> MAX_TEMPLATES \<and> length (template_ids (dev s)) = MAX_TEMPLATES \<and>
    length (templates (dev s)) = MAX_TEMPLATES + 1 \<and>
    gallery (dev s) = map the (take (template_count (dev s)) (templates (dev s))) \<and>
    templates (dev s) ! template_count (dev s) = None"
proof -
  have inv: "fp_inv s" using assms by (rule fp_reachable_inv)
  then have g: "gallery_ok (dev s)" by (simp add: fp_inv_def)
  then have "template_count (dev s) \<le> MAX_TEMPLATES \<and> length (template_ids (dev s)) = MAX_TEMPLATES \<and>
    length (templates (dev s)) = MAX_TEMPLATES + 1 \<and> templates (dev s) ! template_count (dev s) = None"
    unfolding gallery_ok_def by (metis add.commute le_imp_less_Suc less_irrefl plus_1_eq_Suc)
  moreover have "\<not> (enroll_pc (wthread s) \<and> auth_pc (wthread s))" using enroll_not_auth by blast
  ultimately show ?thesis using inv gallery_eq [OF g] by (auto simp: fp_inv_def)
qed

theorem fp_state_consistent_witness:
  "fp_reachable demo_platform demo_match \<and> worker_active (dev demo_match) \<and>
   operation (dev demo_match) = OPERATION_AUTHENTICATE \<and> templates (dev demo_match) ! template_count (dev demo_match) = None"
  using fp_state_consistent [OF demo_reachable(1)] demo_reachable(1)
  by (simp add: demo_match_state running_def)

text \<open>
  A worker thread is created only when none exists: no step goes from a state without a
  running worker to one with a running worker unless the previous thread was joined.
\<close>

theorem single_worker:
  assumes "fp_reachable L s" and "fp_step L s t" and "\<not> running (wthread s)" and "running (wthread t)"
  shows "wthread s = NoThread"
proof -
  have inv: "fp_inv s" using assms(1) by (rule fp_reachable_inv)
  from assms(2) show ?thesis
  proof (cases rule: fp_step.cases)
    case (commit c)
    have "wthread s = NoThread" if "worker_joinable (dev s) = False"
      using that inv commit by (simp add: fp_inv_def is_joining_def)
    moreover have "worker_joinable (dev s) = False"
    proof (rule ccontr)
      assume "worker_joinable (dev s) \<noteq> False"
      then have "wthread (commit_call L c s) = wthread s"
        by (cases c) (simp_all add: fingerprint_enroll_def fingerprint_authenticate_def Let_def split: prod.split)
      with commit assms show False by simp
    qed
    ultimately show ?thesis by simp
  next
    case (call c)
    with assms wthread_begin_call [of L c s] show ?thesis by (auto simp: running_def)
  next
    case (join send cancelled closing)
    then have "wthread t = NoThread" by (simp add: finish_join_def Let_def)
    with assms show ?thesis by (simp add: running_def)
  next
    case (worker d pc)
    with assms show ?thesis by simp
  qed
qed

theorem single_worker_witness:
  "let s = demo_run [] [] [ClientCalls (Authenticate 77 0)]
   in fp_step demo_platform s (fp_exec demo_platform s ClientMoves) \<and> wthread s = NoThread \<and>
      running (wthread (fp_exec demo_platform s ClientMoves))"
proof -
  let ?s = "demo_run [] [] [ClientCalls (Authenticate 77 0)]"
  have 1: "\<not> running (wthread ?s)" "running (wthread (fp_exec demo_platform ?s ClientMoves))"
    by (simp_all add: demo_eval)
  then have "fp_exec demo_platform ?s ClientMoves \<noteq> ?s" by metis
  with fp_exec_step have 2: "fp_step demo_platform ?s (fp_exec demo_platform ?s ClientMoves)" by blast
  from single_worker [OF demo_run_reachable 2 1] 1 2 show ?thesis by (simp add: Let_def)
qed

text \<open>
  C1: An authentication succeeds, that is a message with a finger identifier other than 0 is
  sent, only when the matcher reported a match at an index inside the gallery, the running
  operation is an authentication and the worker, since the match was reported, looked at the
  cancel flag and found it clear. (A cancellation that arrives after that look is too late:
  the code sends the result and \<open>CANCELED\<close> after it.) The message carries the identifier of the matched
  template and the active group, and its token the operation identifier the client passed, the secure
  user and the authenticator identifiers.
\<close>

theorem authenticated_only_on_match:
  assumes "fp_reachable L s" and "fp_step L s t"
    and "MsgAuthenticated g f tok \<in> set (msgs_added (dev s) (dev t))" and "f \<noteq> 0"
  shows "\<exists>i. wthread s = AuthResult FP_VERIFY_MATCH (int i) \<and> found_clear L FP_VERIFY_MATCH (int i) s \<and>
    i < template_count (dev s) \<and> f = live_ids (dev s) ! i \<and> f \<in> set (live_ids (dev s)) \<and> g = active_gid (dev s) \<and>
    operation (dev s) = OPERATION_AUTHENTICATE \<and> tok_challenge tok = operation_id (dev s) \<and>
    tok_user_id tok = secure_user_id (dev s) \<and> tok_authenticator_id tok = authenticator_id (dev s)"
proof -
  have inv: "fp_inv s" using assms(1) by (rule fp_reachable_inv)
  from worker_message [OF assms(2,3)] have st: "worker_step L (dev s) (wthread s) = (dev t, wthread t)"
    by (simp add: client_msg_def)
  from worker_step_authenticated [OF st assms(3)] obtain v i where pc: "wthread s = AuthResult v i" by blast
  from auth_result_messages [of L v i "dev s" "dev t" "wthread t", OF _ assms(3,4)] st pc
  have m: "v = FP_VERIFY_MATCH" "0 \<le> i" "i < int (template_count (dev s))"
    "g = active_gid (dev s)" "f = template_ids (dev s) ! nat i"
    "tok_challenge tok = operation_id (dev s)" "tok_user_id tok = secure_user_id (dev s)"
    "tok_authenticator_id tok = authenticator_id (dev s)"
    by simp_all
  have len: "length (live_ids (dev s)) = template_count (dev s)"
    using inv by (intro length_live_ids) (simp add: fp_inv_def)
  have f: "f = live_ids (dev s) ! nat i" using m by (simp add: live_ids_def)
  moreover have "nat i < length (live_ids (dev s))" using m len by simp
  ultimately have "f \<in> set (live_ids (dev s))" by simp
  with m f pc inv auth_result_checked [OF assms(1) pc] show ?thesis
    by (intro exI [of _ "nat i"]) (auto simp: fp_inv_def)
qed

theorem authenticated_only_on_match_witness:
  "\<exists>tok. MsgAuthenticated 0 2 tok \<in> set (msgs_added (dev demo_match) (dev (fp_exec demo_platform demo_match WorkerMoves))) \<and>
     2 \<in> set (live_ids (dev demo_match)) \<and> tok_challenge tok = operation_id (dev demo_match)"
proof -
  have st: "fp_step demo_platform demo_match (fp_exec demo_platform demo_match WorkerMoves)"
    by (rule fp_exec_worker) (simp add: demo_match_state running_def)
  from demo_match_state(3) obtain tok
    where m: "MsgAuthenticated 0 2 tok \<in> set (msgs_added (dev demo_match) (dev (fp_exec demo_platform demo_match WorkerMoves)))"
    by auto
  from authenticated_only_on_match [OF demo_reachable(1) st m] m show ?thesis by auto
qed

text \<open>
  C9: An enrolment worker starts only for a client call that passed every check of
  \<open>fingerprint_enroll\<close>: a token of the right version, carrying the challenge the device
  holds and a password authenticator bit, for the active group, with a selected store, a
  free template slot and no other worker.
\<close>

theorem enroll_needs_token:
  assumes "fp_reachable L s" and "fp_step L s t" and "\<not> enroll_pc (wthread s)" and "enroll_pc (wthread t)"
  shows "\<exists>token gid timeout. client s = Called (Enroll (Some token) gid timeout) \<and>
    tok_version token = HW_AUTH_TOKEN_VERSION L \<and> tok_challenge token = challenge (dev s) \<and>
    be32toh (tok_authenticator_type token) AND HW_AUTH_PASSWORD L \<noteq> 0 \<and> gid = active_gid (dev s) \<and>
    store_path (dev s) \<noteq> [] \<and> template_count (dev s) < MAX_TEMPLATES \<and> wthread s = NoThread"
proof -
  have inv: "fp_inv s" and ok: "call_ok L (client s)"
    using assms(1) by (rule fp_reachable_inv, rule fp_reachable_call_ok)
  from assms(2) show ?thesis
  proof (cases rule: fp_step.cases)
    case (worker d pc)
    with worker_step_no_enroll [OF worker(3) assms(3)] assms(4) show ?thesis by simp
  next
    case (call c)
    with assms wthread_begin_call [of L c s] show ?thesis by auto
  next
    case (join send cancelled closing)
    then have "wthread t = NoThread" by (simp add: finish_join_def Let_def)
    with assms show ?thesis by simp
  next
    case (commit c)
    show ?thesis
    proof (cases c)
      case (Enroll token gid timeout)
      with commit assms(3,4) have r: "fst (fingerprint_enroll L (the token) gid timeout (dev s)) = 0"
        by (auto split: if_splits)
      obtain tk where tk: "token = Some tk" "tok_version tk = HW_AUTH_TOKEN_VERSION L"
        using ok commit Enroll by (auto simp: enroll_token_ok_def split: option.splits)
      from fingerprint_enroll_ok [OF r] have "wthread s = NoThread"
        using inv commit by (simp add: fp_inv_def is_joining_def)
      with fingerprint_enroll_ok [OF r] tk commit Enroll show ?thesis by simp
    qed (use commit assms(3,4) in \<open>auto simp: Let_def split: prod.splits if_splits\<close>)
  qed
qed

theorem enroll_needs_token_witness:
  "let s = demo_run [] [] [ClientCalls (Enroll (Some demo_token) 0 0)]
   in enroll_pc (wthread (fp_exec demo_platform s ClientMoves)) \<and> client s = Called (Enroll (Some demo_token) 0 0) \<and>
      template_count (dev s) < MAX_TEMPLATES"
proof -
  let ?s = "demo_run [] [] [ClientCalls (Enroll (Some demo_token) 0 0)]"
  have 1: "\<not> enroll_pc (wthread ?s)" "enroll_pc (wthread (fp_exec demo_platform ?s ClientMoves))"
    "client ?s = Called (Enroll (Some demo_token) 0 0)"
    by (simp_all add: demo_eval)
  then have "fp_exec demo_platform ?s ClientMoves \<noteq> ?s" by metis
  with fp_exec_step have 2: "fp_step demo_platform ?s (fp_exec demo_platform ?s ClientMoves)" by blast
  from enroll_needs_token [OF demo_run_reachable 2 1(1,2)] 1 show ?thesis by (auto simp: Let_def)
qed

text \<open>
  C30: Enrolment messages: while samples are still needed the finger identifier is 0 and the
  number of remaining samples is at least 1; the single message with 0 remaining carries an
  identifier from 1 to 5 that no stored template had before. The hypothesis is that the
  sensor asks for at least one sample.
\<close>

theorem enroll_progress_messages:
  assumes "fp_reachable L s" and "fp_step L s t"
    and "MsgEnrolling g f n \<in> set (msgs_added (dev s) (dev t))"
    and stages: "\<And>x. 1 \<le> fp_dev_get_nr_enroll_stages L x"
  shows "g = active_gid (dev s) \<and>
    (f = 0 \<and> 1 \<le> n \<or> n = 0 \<and> 1 \<le> f \<and> f \<le> 5 \<and> f \<notin> set (live_ids (dev s)))"
proof -
  from worker_message [OF assms(2,3)] have st: "worker_step L (dev s) (wthread s) = (dev t, wthread t)"
    by (simp add: client_msg_def)
  have ok: "locals_ok (dev s) (wthread s)" using assms(1) stages by (rule fp_reachable_locals)
  from worker_step_enrolling [OF st assms(3) ok] ok show ?thesis by auto
qed

theorem enroll_progress_messages_witness:
  "MsgEnrolling 0 0 2 \<in> set (msgs_added (dev demo_pass) (dev (fp_exec demo_platform demo_pass WorkerMoves))) \<and>
   active_gid (dev demo_pass) = 0"
proof -
  have st: "fp_step demo_platform demo_pass (fp_exec demo_platform demo_pass WorkerMoves)"
    by (rule fp_exec_worker) (simp add: demo_pass_state running_def)
  have m: "MsgEnrolling 0 0 2 \<in> set (msgs_added (dev demo_pass) (dev (fp_exec demo_platform demo_pass WorkerMoves)))"
    by (simp add: demo_pass_state)
  from enroll_progress_messages [OF demo_reachable(2) st m] m show ?thesis by simp
qed

text \<open>
  When the worker handles a complete enrolment, a free
  identifier exists, so it always goes on to save the template: the check made when
  the enrolment started still holds, whatever the client did in between.
\<close>

theorem enroll_capacity:
  assumes "fp_reachable L s" and "wthread s = EnrollResult r dl (Some t) FP_ENROLL_COMPLETE"
  shows "\<exists>fid. worker_step L (dev s) (wthread s) = (dev s, EnrollSave fid t) \<and>
     1 \<le> fid \<and> fid \<le> 5 \<and> fid \<notin> set (live_ids (dev s))"
proof -
  have "fp_inv s" using assms(1) by (rule fp_reachable_inv)
  then have "find_free_fid_locked (dev s) \<noteq> 0"
    using assms(2) by (intro free_fid_exists) (simp_all add: fp_inv_def enrolling_def)
  with find_free_fid_range assms(2) show ?thesis
    by (simp add: enroll_result_def enroll_complete_def Let_def)
qed

theorem enroll_capacity_witness:
  "\<exists>fid. worker_step demo_platform (dev demo_complete) (wthread demo_complete) = (dev demo_complete, EnrollSave fid 42) \<and>
     fid \<notin> {2}"
  using enroll_capacity [OF demo_reachable(3) demo_complete_state(1)] demo_complete_state(3) by auto

text \<open>
  An enrolment that fails can report two terminal errors: after a negative scan status the
  loop is left with \<open>HW_UNAVAILABLE\<close> sent, and when the deadline has passed meanwhile the code
  behind the loop sends \<open>TIMEOUT\<close> as well.
\<close>

theorem enroll_failure_reported_twice:
  assumes "\<not> cancel_requested d" and "notify d = Some cb" and "dl \<le> fst (sys_time L (lib d))"
  shows "msgs_added d (fst (worker_run L 3 (d, EnrollResult r dl e ENROLL_NEGATIVE))) =
    [MsgError FINGERPRINT_ERROR_HW_UNAVAILABLE, MsgError FINGERPRINT_ERROR_TIMEOUT]"
proof -
  have "worker_run L 3 s = worker_run L (Suc (Suc (Suc 0))) s" for s by (simp add: numeral_3_eq_3)
  then show ?thesis using assms by (auto simp: worker_defs notify_message_def msgs_added_def split: prod.splits)
qed

end
