(* ===== verification/Fp_Entry.thy ===== *)
theory Fp_Entry
  imports Fp_Safety
begin

text \<open>
  What the entry points of the fingerprint HAL promise their caller one by one: the
  reports of enumeration and removal, selecting a group, cancelling, and the resources an
  opened or refused device holds.
\<close>

section \<open>Reports that count down\<close>

text \<open>
  Enumeration and removal announce a list of templates in the same way: one message per
  template, in order, with the number of messages still to come.
\<close>

locale id_report =
  fixes mk :: "u32 \<Rightarrow> u32 \<Rightarrow> u32 \<Rightarrow> message"
    and rd :: "message \<Rightarrow> (u32 \<times> u32 \<times> u32) option"
  assumes rd_mk: "rd (mk gid fid n) = Some (gid, fid, n)"
begin

lemma length_countdown: "length (countdown mk gid ids) = length ids"
  by (simp add: countdown_def)

lemma countdown_reports:
  "map rd (countdown mk gid ids) =
     map2 (\<lambda>fid n. Some (gid, fid, of_nat n)) ids (rev [0..<length ids])"
  by (rule nth_equalityI) (simp_all add: countdown_def rd_mk rev_nth)

lemma countdown_last:
  assumes "ids \<noteq> []"
  shows "rd (last (countdown mk gid ids)) = Some (gid, last ids, 0)"
proof -
  have "last (countdown mk gid ids) = countdown mk gid ids ! (length ids - 1)"
    using assms by (subst last_conv_nth) (simp_all add: countdown_def)
  then show ?thesis using assms by (simp add: countdown_def rd_mk last_conv_nth)
qed

end

fun enumerated :: "message \<Rightarrow> (u32 \<times> u32 \<times> u32) option" where
  "enumerated (MsgEnumerating gid fid n) = Some (gid, fid, n)"
| "enumerated _ = None"

fun removed_report :: "message \<Rightarrow> (u32 \<times> u32 \<times> u32) option" where
  "removed_report (MsgRemoved gid fid n) = Some (gid, fid, n)"
| "removed_report _ = None"

interpretation enum: id_report MsgEnumerating enumerated
  by unfold_locales simp

interpretation rem: id_report MsgRemoved removed_report
  by unfold_locales simp

lemma msgs_added_notify_all:
  "notify d = Some cb \<Longrightarrow> msgs_added d (notify_all ms d) = ms"
  by (simp add: msgs_added_append [OF sent_notify_all] comp_def)

lemma notify_all_eq:
  "notify_all ms d = d\<lparr>sent := sent d @ (case notify d of None \<Rightarrow> [] | Some cb \<Rightarrow> map (Pair cb) ms)\<rparr>"
  by (induction ms arbitrary: d) (auto simp: notify_all_def notify_message_def split: option.splits)

lemma remove_prints_filter:
  assumes "\<And>i y. fst (fp_print_data_delete L i y) = res i"
  shows "fst (remove_prints L fid ids x) = filter (\<lambda>i. (fid = 0 \<or> fid = i) \<and> res i = 0) ids"
proof (induction ids arbitrary: x)
  case Nil
  then show ?case by simp
next
  case (Cons i ids)
  obtain r x1 where d: "fp_print_data_delete L i x = (r, x1)" by fastforce
  then have "r = res i" using assms [of i x] by simp
  with d Cons.IH [of x1] Cons.IH [of x] show ?case by (auto simp: split_def)
qed

lemma exec_worker_moves:
  "foldl (fp_exec L) s (replicate n WorkerMoves) =
     s\<lparr>dev := fst (worker_run L n (dev s, wthread s)), wthread := snd (worker_run L n (dev s, wthread s))\<rparr>"
proof (induction n arbitrary: s)
  case 0
  then show ?case by simp
next
  case (Suc n)
  obtain d pc where st: "worker_step L (dev s) (wthread s) = (d, pc)" by fastforce
  have "fp_exec L s WorkerMoves = s\<lparr>dev := d, wthread := pc\<rparr>"
    using st by (cases "wthread s") (auto simp: fp_exec_def running_def)
  with Suc.IH [of "s\<lparr>dev := d, wthread := pc\<rparr>"] st show ?case by simp
qed

lemma worker_run_view:
  "client_view (fst (worker_run L n (d, pc))) = client_view d"
proof (induction n arbitrary: d pc)
  case 0
  then show ?case by simp
next
  case (Suc n)
  obtain d' pc' where st: "worker_step L d pc = (d', pc')" by fastforce
  with Suc.IH [of d' pc'] worker_step_view [OF st] show ?case by simp
qed

lemma worker_run_idle: "\<not> running pc \<Longrightarrow> worker_run L n (d, pc) = (d, pc)"
  by (induction n) (cases pc; simp add: running_def)+

lemma joining_worker_exits:
  assumes "fp_reachable L s" and "client s = Joining send cancelled closing"
  shows "snd (worker_run L 4 (dev s, wthread s)) = Exited"
proof -
  have inv: "fp_inv s" using assms(1) by (rule fp_reachable_inv)
  show ?thesis
  proof (cases "running (wthread s)")
    case True
    with inv assms(2) have "cancel_requested (dev s)" by (simp add: fp_inv_def joining_ok_def)
    then show ?thesis using True steps_left_le by (intro worker_run_exits)
  next
    case False
    with inv assms(2) have "wthread s = Exited"
      by (cases "wthread s") (auto simp: fp_inv_def is_joining_def running_def)
    with worker_run_idle [OF False, of L] show ?thesis by simp
  qed
qed

text \<open>A cancellation without and with a thread to join.\<close>

lemma cancel_without_worker:
  assumes "fp_reachable L s" and "client s = Called Cancel" and "\<not> worker_joinable (dev s)"
  shows "let t = foldl (fp_exec L) s (ClientMoves # replicate 4 WorkerMoves @ [ClientMoves]) in
    client t = Ready \<and> wthread t = NoThread \<and> results t = results s @ [0] \<and>
    (if worker_active (dev s)
     then \<forall>cb. notify (dev s) = Some cb \<longrightarrow> last (sent (dev t)) = (cb, MsgError FINGERPRINT_ERROR_CANCELED)
     else sent (dev t) = sent (dev s))"
proof -
  have "wthread s = NoThread" "\<not> worker_active (dev s)"
    using fp_reachable_inv [OF assms(1)] assms(2,3) by (auto simp: fp_inv_def is_joining_def running_def)
  moreover have "fp_exec L s ClientMoves = commit_stop L True False s" using assms(2) by (simp add: fp_exec_def)
  ultimately show ?thesis using assms(3)
    by (simp add: exec_worker_moves commit_stop_def request_stop_def return_code_def Let_def worker_run_idle running_def fp_exec_def)
qed

lemma cancel_joins:
  assumes "fp_reachable L s" and "client s = Called Cancel" and "worker_joinable (dev s)"
  shows "let t = foldl (fp_exec L) s (ClientMoves # replicate 4 WorkerMoves @ [ClientMoves]) in
    client t = Ready \<and> wthread t = NoThread \<and> results t = results s @ [0] \<and>
    (if worker_active (dev s)
     then \<forall>cb. notify (dev s) = Some cb \<longrightarrow> last (sent (dev t)) = (cb, MsgError FINGERPRINT_ERROR_CANCELED)
     else sent (dev t) = sent (dev s))"
proof -
  let ?s1 = "fp_exec L s ClientMoves"
  let ?s2 = "foldl (fp_exec L) ?s1 (replicate 4 WorkerMoves)"
  have s1: "?s1 = commit_stop L True False s" using assms(2) by (simp add: fp_exec_def)
  have r1: "fp_reachable L ?s1" using assms(1) by (rule reach.step_inv)
  define d1 where "d1 = dev ?s1"
  have c1: "client ?s1 = Joining True (worker_active (dev s)) False" "results ?s1 = results s"
    "wthread ?s1 = wthread s" "notify d1 = notify (dev s)" "sent d1 = sent (dev s)"
    using assms(3) s1 by (simp_all add: commit_stop_def request_stop_def Let_def d1_def)
  define run where "run = worker_run L 4 (d1, wthread s)"
  have ex: "snd run = Exited" using joining_worker_exits [OF r1 c1(1)] c1(3) by (simp add: d1_def run_def)
  have s2: "?s2 = ?s1\<lparr>dev := fst run, wthread := Exited\<rparr>"
    using ex c1(3) by (simp add: exec_worker_moves d1_def run_def)
  have n: "notify (fst run) = notify (dev s)"
    using client_viewD(3) [OF worker_run_view, of L 4 d1 "wthread s"] c1(4) by (simp add: run_def)
  have t: "fp_exec L ?s2 ClientMoves = finish_join L True (worker_active (dev s)) False (?s1\<lparr>dev := fst run, wthread := Exited\<rparr>)"
    unfolding s2 using c1(1) by (simp add: fp_exec_def)
  have idle: "sent (fst run) = sent (dev s)" if "\<not> worker_active (dev s)"
  proof -
    have "\<not> running (wthread s)" using that fp_reachable_inv [OF assms(1)] by (simp add: fp_inv_def)
    then show ?thesis using c1(5) by (simp add: run_def worker_run_idle)
  qed
  show ?thesis unfolding Let_def foldl.simps foldl_append t
    using n idle c1(2) by (auto simp: finish_join_def return_code_def notify_error_def sent_notify_message)
qed

section \<open>Properties\<close>

text \<open>
  Enumeration answers the call with one message per stored template of the active
  group, in gallery order, counting the messages still to come down to 0, and with the
  single empty report when there is none; it fails with \<^verbatim>\<open>-EBUSY\<close> and says nothing while a
  worker is active. The device is otherwise unchanged.
\<close>

theorem enumerate_reports:
  assumes "gallery_ok d" and "notify d = Some cb" and "fingerprint_enumerate d = (r, d')"
  shows "if worker_active d then r = neg EBUSY \<and> d' = d
    else r = 0 \<and> d' = d\<lparr>sent := sent d'\<rparr> \<and>
      map enumerated (msgs_added d d') =
        (if template_count d = 0 then [Some (0, 0, 0)]
         else map2 (\<lambda>fid n. Some (active_gid d, fid, of_nat n)) (live_ids d) (rev [0..<template_count d]))"
proof -
  have fr: "notify_all ms d = d\<lparr>sent := sent (notify_all ms d)\<rparr>" for ms
    by (subst notify_all_eq) (simp add: sent_notify_all)
  show ?thesis
  proof (cases "worker_active d \<or> template_count d = 0")
    case True
    then show ?thesis using assms
      by (auto simp: fingerprint_enumerate_def msgs_added_def notify_message_def)
  next
    case False
    then have "r = 0" "d' = notify_all (countdown MsgEnumerating (active_gid d) (live_ids d)) d"
      using assms(3) by (simp_all add: fingerprint_enumerate_def)
    with False fr [of "countdown MsgEnumerating (active_gid d) (live_ids d)"] assms(1,2) show ?thesis
      by (simp add: msgs_added_notify_all enum.countdown_reports length_live_ids)
  qed
qed

theorem enumerate_reports_witness:
  "map enumerated (msgs_added (dev demo_complete) (snd (fingerprint_enumerate ((dev demo_complete)\<lparr>worker_active := False\<rparr>)))) =
     [Some (0, 2, 0)]"
proof -
  let ?d = "(dev demo_complete)\<lparr>worker_active := False\<rparr>"
  have g: "gallery_ok ?d" using fp_reachable_inv [OF demo_reachable(3)] by (simp add: fp_inv_def)
  have n: "notify ?d = Some 0" "template_count ?d = 1" "active_gid ?d = 0"
    by (simp_all add: demo_complete_def demo_eval)
  obtain r d' where e: "fingerprint_enumerate ?d = (r, d')" by fastforce
  have "live_ids ?d = [2]" using demo_complete_state(3) by (simp add: live_ids_def)
  with enumerate_reports [OF g n(1) e] n e show ?thesis by (simp add: msgs_added_def)
qed

text \<open>
  Removal deletes exactly the stored templates the caller names (all of them for
  identifier 0) and reports those whose deletion succeeded, one message each, in gallery
  order, counting down to 0; when nothing was deleted it sends the single empty report. The
  result is 0 either way, and the gallery stays well formed. The hypothesis is that whether
  a print can be deleted depends on the print.
\<close>

theorem remove_reports:
  assumes "gallery_ok d" and "notify d = Some cb" and "\<not> worker_active d" and "gid = active_gid d"
    and "\<And>i y. fst (fp_print_data_delete L i y) = res i"
    and "fingerprint_remove L gid fid d = (r, d')"
  shows "let removed = filter (\<lambda>i. (fid = 0 \<or> fid = i) \<and> res i = 0) (live_ids d) in
    r = 0 \<and> gallery_ok d' \<and>
    map removed_report (msgs_added d d') =
      (if removed = [] then [Some (gid, 0, 0)]
       else map2 (\<lambda>i n. Some (gid, i, of_nat n)) removed (rev [0..<length removed]))"
proof -
  obtain removed x where rm: "remove_prints L fid (live_ids d) (lib d) = (removed, x)" by fastforce
  have rf: "removed = filter (\<lambda>i. (fid = 0 \<or> fid = i) \<and> res i = 0) (live_ids d)"
    using remove_prints_filter [OF assms(5), of fid "live_ids d" "lib d"] rm by simp
  obtain mr d2 where ro: "rotate_authenticator_locked (snd (load_templates_locked L (d\<lparr>lib := x\<rparr>))) = (mr, d2)"
    by fastforce
  have d2: "sent d2 = sent d" "notify d2 = Some cb"
    using reload_rotate(3) [OF ro] client_viewD(3) [OF reload_rotate(2) [OF ro]] assms(2)
    by (simp_all add: client_view_def)
  have d': "r = 0" "d' = (if removed = [] then notify_message d2 (MsgRemoved gid 0 0)
      else notify_all (countdown MsgRemoved gid removed) d2)"
    using assms(3,4,6) rm ro by (auto simp: fingerprint_remove_def split: if_splits)
  have "msgs_added d d' = (if removed = [] then [MsgRemoved gid 0 0] else countdown MsgRemoved gid removed)"
    using d' d2 by (simp add: msgs_added_def sent_notify_message sent_notify_all comp_def)
  then show ?thesis
    using d'(1) fingerprint_remove_frame(2) [OF assms(6,1)]
    by (simp add: Let_def rf [symmetric] rem.countdown_reports)
qed

theorem remove_reports_witness:
  "map removed_report (msgs_added (dev demo_complete)
      (snd (fingerprint_remove demo_platform 0 0 ((dev demo_complete)\<lparr>worker_active := False\<rparr>)))) = [Some (0, 2, 0)]"
proof -
  let ?d = "(dev demo_complete)\<lparr>worker_active := False\<rparr>"
  have g: "gallery_ok ?d" using fp_reachable_inv [OF demo_reachable(3)] by (simp add: fp_inv_def)
  have n: "notify ?d = Some 0" "\<not> worker_active ?d" "0 = active_gid ?d"
    by (simp_all add: demo_complete_def demo_eval)
  obtain r d' where e: "fingerprint_remove demo_platform 0 0 ?d = (r, d')" by fastforce
  have l: "live_ids ?d = [2]" using demo_complete_state(3) by (simp add: live_ids_def)
  from remove_reports [OF g n _ e, of "\<lambda>i. 0"] l e show ?thesis by (simp add: msgs_added_def)
qed

text \<open>
  Selecting a group: when the call succeeds the store path and the group are the ones
  given, the path fits its buffer, and the authenticator identifier is 0 exactly when the
  group has no templates, as the framework expects of a group without enrolments. When it
  fails the result is a negative error code, and a worker that is active is not disturbed.
\<close>

theorem set_active_group_selects:
  assumes "fingerprint_set_active_group L gid p d = (r, d')" and "gallery_ok d"
  shows "r \<le> 0 \<and> gallery_ok d' \<and> (worker_active d \<longrightarrow> r = neg EBUSY \<and> d' = d) \<and>
    (r = 0 \<longrightarrow> store_path d' = p \<and> active_gid d' = gid \<and> length p < PATH_MAX \<and>
       (authenticator_id d' = 0 \<longleftrightarrow> template_count d' = 0))"
proof (cases "worker_active d \<or> length p \<ge> PATH_MAX")
  case True
  then show ?thesis using assms by (auto simp: fingerprint_set_active_group_def split: if_splits)
next
  case False
  let ?d = "d\<lparr>store_path := p, active_gid := gid\<rparr>"
  obtain d1 where ld: "load_templates_locked L ?d = (0, d1)" by (metis load_templates_result prod.collapse)
  have d1: "store_path d1 = p" "active_gid d1 = gid"
    using control_eqD [OF load_templates_frame(1) [of L ?d]] ld by simp_all
  obtain r2 d2 where lm: "load_metadata_locked d1 = (r2, d2)" by fastforce
  note m = load_metadata_frame [OF lm]
  then have fr: "d2 = d1\<lparr>posix := posix d2, secure_user_id := secure_user_id d2, authenticator_id := authenticator_id d2\<rparr>"
    by simp
  have d2: "store_path d2 = p" "active_gid d2 = gid"
    by (subst fr, simp add: d1)+
  obtain r3 d3 where ro: "rotate_authenticator_locked d2 = (r3, d3)" by fastforce
  note ro3 = rotate_authenticator_spec [OF ro]
  have d3: "store_path d3 = p" "active_gid d3 = gid" using ro3 control_eqD [of d3 d2] d2 by simp_all
  have rd: "(r, d') = (if r2 = 0 \<and> template_count d2 = 0 then (r2, d2\<lparr>authenticator_id := 0\<rparr>)
      else if r2 = 0 \<and> authenticator_id d2 = 0 then (r3, d3) else (r2, d2))"
    using assms(1) False ld lm ro by (auto simp: fingerprint_set_active_group_def split: if_splits)
  have "gallery_ok d'" using fingerprint_set_active_group_frame(4) [OF assms] .
  moreover have "r \<le> 0" using rd m ro3 by (auto split: if_splits)
  moreover have "r = 0 \<Longrightarrow> store_path d' = p \<and> active_gid d' = gid \<and> (authenticator_id d' = 0 \<longleftrightarrow> template_count d' = 0)"
    using rd d2 d3 ro3 by (auto split: if_splits)
  ultimately show ?thesis using False by simp
qed

theorem set_active_group_selects_witness:
  "fst (fingerprint_set_active_group demo_platform 7 ''/data'' (blank_device demo_lib0 idle_world)) = 0 \<and>
   (let d' = snd (fingerprint_set_active_group demo_platform 7 ''/data'' (blank_device demo_lib0 idle_world))
    in active_gid d' = 7 \<and> store_path d' = ''/data'')"
proof -
  let ?r = "fingerprint_set_active_group demo_platform 7 ''/data'' (blank_device demo_lib0 idle_world)"
  have "fst ?r = 0"
    by (simp add: fingerprint_set_active_group_def PATH_MAX_def load_templates_locked_def free_templates_locked_def
        load_metadata_locked_def metadata_path_def METADATA_NAME_def demo_lib0_def blank_device_def idle_world_def
        urandom_path_def sys_eval)
  moreover obtain r d' where e: "?r = (r, d')" by fastforce
  ultimately show ?thesis
    using set_active_group_selects [OF e gallery_ok_blank] by (simp add: Let_def)
qed

text \<open>
  C4: Cancelling runs to completion: from a client that has called \<open>cancel\<close> in any reachable
  state, the locked request, at most four steps of the worker and the return from the join
  bring the call back with result 0 and no thread left; the last message is then the one
  error \<^verbatim>\<open>CANCELED\<close> when an operation was running, and nothing at all is sent otherwise.
\<close>

theorem cancel_completes:
  assumes "fp_reachable L s" and "client s = Called Cancel"
  shows "let t = foldl (fp_exec L) s (ClientMoves # replicate 4 WorkerMoves @ [ClientMoves]) in
    client t = Ready \<and> wthread t = NoThread \<and> results t = results s @ [0] \<and>
    \<not> worker_active (dev t) \<and> \<not> worker_joinable (dev t) \<and>
    (if worker_active (dev s)
     then \<forall>cb. notify (dev s) = Some cb \<longrightarrow> last (sent (dev t)) = (cb, MsgError FINGERPRINT_ERROR_CANCELED)
     else sent (dev t) = sent (dev s))"
proof -
  let ?t = "foldl (fp_exec L) s (ClientMoves # replicate 4 WorkerMoves @ [ClientMoves])"
  have goal: "client ?t = Ready \<and> wthread ?t = NoThread \<and> results ?t = results s @ [0] \<and>
    (if worker_active (dev s)
     then \<forall>cb. notify (dev s) = Some cb \<longrightarrow> last (sent (dev ?t)) = (cb, MsgError FINGERPRINT_ERROR_CANCELED)
     else sent (dev ?t) = sent (dev s))"
    using cancel_joins [OF assms, unfolded Let_def] cancel_without_worker [OF assms, unfolded Let_def] by blast
  have "fp_reachable L ?t" using assms(1) by (rule reach.run_inv)
  then have "\<not> worker_active (dev ?t)" "\<not> worker_joinable (dev ?t)"
    using fp_reachable_inv [of L ?t] goal by (simp_all add: fp_inv_def running_def del: foldl.simps)
  with goal show ?thesis unfolding Let_def by blast
qed

theorem cancel_completes_witness:
  "let s = demo_run [] [] [ClientCalls (Authenticate 77 0), ClientMoves, WorkerMoves, ClientCalls Cancel];
       t = foldl (fp_exec demo_platform) s (ClientMoves # replicate 4 WorkerMoves @ [ClientMoves])
   in last (sent (dev t)) = (0, MsgError FINGERPRINT_ERROR_CANCELED) \<and> wthread t = NoThread"
proof -
  let ?s = "demo_run [] [] [ClientCalls (Authenticate 77 0), ClientMoves, WorkerMoves, ClientCalls Cancel]"
  have s: "client ?s = Called Cancel" "worker_active (dev ?s)" "notify (dev ?s) = Some 0"
    by (simp_all add: demo_eval)
  from cancel_completes [OF demo_run_reachable s(1)] s(2,3) show ?thesis by (simp add: Let_def)
qed

text \<open>
  What a process holds for the HAL: initialisations of libfprint, lists of discovered sensors, open
  sensors, allocated devices and initialised locks; and which call acquires and which one releases.
\<close>

type_synonym holdings = "int \<times> int \<times> int \<times> int \<times> int"

definition handles_counted :: "('x, 'p, 'd) platform \<Rightarrow> ('x \<Rightarrow> holdings) \<Rightarrow> bool" where
  "handles_counted L held \<longleftrightarrow>
     (\<forall>x. case held x of (inits, found, opens, devices, locks) \<Rightarrow>
        held (snd (fp_init L x)) = (if fst (fp_init L x) < 0 then inits else inits + 1, found, opens, devices, locks) \<and>
        held (fp_exit L x) = (inits - 1, found, opens, devices, locks) \<and>
        held (snd (fp_discover_devs L x)) =
          (inits, if fst (fp_discover_devs L x) = None then found else found + 1, opens, devices, locks) \<and>
        (\<forall>ds. held (fp_dscv_devs_free L ds x) = (inits, if ds = None then found else found - 1, opens, devices, locks)) \<and>
        (\<forall>i. held (snd (fp_dev_open L i x)) = (inits, found, if fst (fp_dev_open L i x) then opens + 1 else opens, devices, locks)) \<and>
        held (fp_dev_close L x) = (inits, found, opens - 1, devices, locks) \<and>
        held (snd (sys_calloc L x)) = (inits, found, opens, if fst (sys_calloc L x) then devices + 1 else devices, locks) \<and>
        held (sys_free L x) = (inits, found, opens, devices - 1, locks) \<and>
        held (snd (pthread_mutex_init L x)) =
          (inits, found, opens, devices, if fst (pthread_mutex_init L x) = None then locks + 1 else locks) \<and>
        held (pthread_mutex_destroy L x) = (inits, found, opens, devices, locks - 1) \<and>
        (\<forall>m. held (fp_dev_mode L m x) = (inits, found, opens, devices, locks)) \<and>
        (\<forall>t. held (fp_print_data_free L t x) = (inits, found, opens, devices, locks)))"

lemma handles_countedD:
  assumes "handles_counted L held" and "held x = (inits, found, opens, devices, locks)"
  shows "fp_init L x = (r, y) \<Longrightarrow> held y = (if r < 0 then inits else inits + 1, found, opens, devices, locks)"
    "held (fp_exit L x) = (inits - 1, found, opens, devices, locks)"
    "fp_discover_devs L x = (ds, y) \<Longrightarrow> held y = (inits, if ds = None then found else found + 1, opens, devices, locks)"
    "held (fp_dscv_devs_free L ds x) = (inits, if ds = None then found else found - 1, opens, devices, locks)"
    "fp_dev_open L i x = (ok, y) \<Longrightarrow> held y = (inits, found, if ok then opens + 1 else opens, devices, locks)"
    "held (fp_dev_close L x) = (inits, found, opens - 1, devices, locks)"
    "sys_calloc L x = (ok, y) \<Longrightarrow> held y = (inits, found, opens, if ok then devices + 1 else devices, locks)"
    "held (sys_free L x) = (inits, found, opens, devices - 1, locks)"
    "pthread_mutex_init L x = (e, y) \<Longrightarrow> held y = (inits, found, opens, devices, if e = None then locks + 1 else locks)"
    "held (pthread_mutex_destroy L x) = (inits, found, opens, devices, locks - 1)"
    "held (fp_dev_mode L m x) = (inits, found, opens, devices, locks)"
    "held (fp_print_data_free L t x) = (inits, found, opens, devices, locks)"
proof -
  note c = assms(1) [unfolded handles_counted_def, THEN spec [of _ x], unfolded assms(2) prod.case]
  show "fp_init L x = (r, y) \<Longrightarrow> held y = (if r < 0 then inits else inits + 1, found, opens, devices, locks)"
    "held (fp_exit L x) = (inits - 1, found, opens, devices, locks)"
    "fp_discover_devs L x = (ds, y) \<Longrightarrow> held y = (inits, if ds = None then found else found + 1, opens, devices, locks)"
    "held (fp_dscv_devs_free L ds x) = (inits, if ds = None then found else found - 1, opens, devices, locks)"
    "held (fp_dev_close L x) = (inits, found, opens - 1, devices, locks)"
    "sys_calloc L x = (ok, y) \<Longrightarrow> held y = (inits, found, opens, if ok then devices + 1 else devices, locks)"
    "held (sys_free L x) = (inits, found, opens, devices - 1, locks)"
    "pthread_mutex_init L x = (e, y) \<Longrightarrow> held y = (inits, found, opens, devices, if e = None then locks + 1 else locks)"
    "held (pthread_mutex_destroy L x) = (inits, found, opens, devices, locks - 1)"
    "held (fp_dev_mode L m x) = (inits, found, opens, devices, locks)"
    "held (fp_print_data_free L t x) = (inits, found, opens, devices, locks)"
    using c by simp_all
  have "held (snd (fp_dev_open L i x)) = (inits, found, if fst (fp_dev_open L i x) then opens + 1 else opens, devices, locks)"
    using c by blast
  then show "fp_dev_open L i x = (ok, y) \<Longrightarrow> held y = (inits, found, if ok then opens + 1 else opens, devices, locks)"
    by simp
qed

lemma held_free_templates:
  assumes "handles_counted L held"
  shows "held (lib (free_templates_locked L d)) = held (lib d)"
proof -
  have p: "held (fp_print_data_free L t x) = held x" for t x
    using handles_countedD(12) [OF assms, of x] by (metis prod.collapse)
  have "held (lib (fold (free_slot L) is d)) = held (lib d)" for "is"
    by (induction "is" arbitrary: d) (simp_all add: free_slot_def p)
  then show ?thesis by (simp add: free_templates_locked_def)
qed

lemma release_balances:
  assumes "handles_counted L held" "held (lib d) = (inits, found, opens, devices, locks)"
  shows "held (lib (release_device L d)) = (inits - 1, found, opens - 1, devices - 1, locks - 1)"
proof -
  note D = handles_countedD [OF assms(1)]
  have "held (lib (free_templates_locked L d)) = (inits, found, opens, devices, locks)"
    using held_free_templates [OF assms(1)] assms(2) by simp
  from D(8) [OF D(10) [OF D(2) [OF D(6) [OF this]]]] show ?thesis by (simp add: release_device_def Let_def)
qed

text \<open>
  C35: Opening the HAL keeps no resource it does not hand out, and closing gives all of them
  back. With \<open>held\<close> counting the initialisations of libfprint, the device lists, the open
  sensors, the allocated devices and the initialised locks: every failure of
  \<open>fingerprint_open\<close> leaves all five counts as they were; a success adds one
  initialisation, one open sensor, one device and one lock and no list; and whatever the
  device went through, \<open>fingerprint_close\<close> takes exactly these away again. The
  hypothesis is what libfprint and the C library document of each call: which one acquires and
  which one releases.
\<close>

theorem open_balances_handles:
  assumes counted: "handles_counted L held" and h0: "held x0 = (inits, found, opens, devices, locks)"
    and run: "fingerprint_open L have_slot w x0 = ((r, d), x)"
  shows "(if r = 0 then (\<exists>dd. d = Some dd \<and> lib dd = x) \<and> held x = (inits + 1, found, opens + 1, devices + 1, locks + 1)
    else r < 0 \<and> d = None \<and> held x = (inits, found, opens, devices, locks)) \<and>
    (\<forall>dev. held (lib dev) = (inits + 1, found, opens + 1, devices + 1, locks + 1) \<longrightarrow>
       held (lib (release_device L dev)) = (inits, found, opens, devices, locks))"
proof
  note D = handles_countedD [OF counted]
  obtain r1 x1 where i: "fp_init L x0 = (r1, x1)" by fastforce
  obtain ds x2 where dd: "fp_discover_devs L x1 = (ds, x2)" by fastforce
  obtain al x3 where ca: "sys_calloc L x2 = (al, x3)" by fastforce
  obtain op x4 where od: "fp_dev_open L (hd (the ds)) x3 = (op, x4)" by fastforce
  obtain mi x6 where mu: "pthread_mutex_init L (fp_dscv_devs_free L ds x4) = (mi, x6)" by fastforce
  note h1 = D(1) [OF h0 i] note h2 = D(3) [OF h1 dd] note h3 = D(7) [OF h2 ca] note h4 = D(5) [OF h3 od]
  note h5 = D(4) [OF h4, of ds] note h6 = D(9) [OF h5 mu]
  show "if r = 0 then (\<exists>dd. d = Some dd \<and> lib dd = x) \<and> held x = (inits + 1, found, opens + 1, devices + 1, locks + 1)
    else r < 0 \<and> d = None \<and> held x = (inits, found, opens, devices, locks)"
    using run h0 i dd ca od mu h1 h6 D(2) [OF D(4) [OF h2, of ds]] D(2) [OF D(4) [OF h3, of ds]] D(2) [OF D(8) [OF h5]]
      D(2) [OF D(8) [OF D(6) [OF h6]]] D(11) [OF h6, of 0]
    by (auto simp: fingerprint_open_def Let_def split: if_splits option.splits)
  show "\<forall>dev. held (lib dev) = (inits + 1, found, opens + 1, devices + 1, locks + 1) \<longrightarrow>
       held (lib (release_device L dev)) = (inits, found, opens, devices, locks)"
    using release_balances [OF counted] by simp
qed

text \<open>A library whose state is the five counts, and whose sensor cannot be opened.\<close>

definition ledger_platform :: "(holdings, u32 \<times> nat, nat) platform" where
  "ledger_platform =
     \<lparr>fp_discover_prints = (\<lambda>p x. (None, x)), fp_dscv_print_get_finger = fst,
      fp_print_data_from_dscv_print = (\<lambda>p x. ((0, None), x)), fp_dev_supports_print_data = (\<lambda>t. True),
      fp_print_data_free = (\<lambda>t x. x), fp_dscv_prints_free = (\<lambda>ps x. x),
      fp_print_data_save = (\<lambda>t fid p x. (0, x)), fp_print_data_delete = (\<lambda>fid x. (0, x)),
      fp_enroll_finger = (\<lambda>t x. ((ENROLL_NEGATIVE, None), x)), fp_identify_finger = (\<lambda>g x. ((VERIFY_NEGATIVE, -1), x)),
      fp_dev_get_nr_enroll_stages = (\<lambda>x. 3), fp_dev_mode = (\<lambda>m x. x), fp_enroll_reset = (\<lambda>x. x),
      fp_dev_close = (\<lambda>(i, l, p, a, m). (i, l, p - 1, a, m)), fp_exit = (\<lambda>(i, l, p, a, m). (i - 1, l, p, a, m)),
      fp_init = (\<lambda>(i, l, p, a, m). (0, (i + 1, l, p, a, m))),
      fp_discover_devs = (\<lambda>(i, l, p, a, m). (Some [0], (i, l + 1, p, a, m))),
      fp_dscv_devs_free = (\<lambda>ds (i, l, p, a, m). (i, if ds = None then l else l - 1, p, a, m)),
      fp_dev_open = (\<lambda>n x. (False, x)), sys_calloc = (\<lambda>(i, l, p, a, m). (True, (i, l, p, a + 1, m))),
      sys_free = (\<lambda>(i, l, p, a, m). (i, l, p, a - 1, m)),
      pthread_mutex_init = (\<lambda>(i, l, p, a, m). (None, (i, l, p, a, m + 1))),
      pthread_mutex_destroy = (\<lambda>(i, l, p, a, m). (i, l, p, a, m - 1)), pthread_create = (\<lambda>x. (None, x)),
      sys_time = (\<lambda>x. (0, x)), clock_monotonic = (\<lambda>x. ((0, 0), x)),
      HW_AUTH_TOKEN_VERSION = 0, HW_AUTH_PASSWORD = 1, HW_AUTH_FINGERPRINT = 2\<rparr>"

theorem open_balances_handles_witness:
  "fingerprint_open ledger_platform True idle_world (0, 0, 0, 0, 0) = ((-19, None), (0, 0, 0, 0, 0)) \<and>
   lib (release_device ledger_platform (blank_device (1, 0, 1, 1, 1) idle_world)) = (0, 0, 0, 0, 0)"
proof -
  have c: "handles_counted ledger_platform (\<lambda>x. x)"
    by (simp add: handles_counted_def ledger_platform_def)
  have o: "fingerprint_open ledger_platform True idle_world (0, 0, 0, 0, 0) = ((-19, None), (0, 0, 0, 0, 0))"
    by (simp add: fingerprint_open_def ledger_platform_def)
  from open_balances_handles [OF c refl o] o show ?thesis by simp
qed



end
