(* ===== verification/Fp_Compat.thy ===== *)
theory Fp_Compat
  imports Fp_Entry
begin

text \<open>
  The compatibility HAL of \<^verbatim>\<open>fingerprint/FingerprintCompat.c\<close>: it loads the Flyme fingerprint
  library, moves the callbacks of the device to the slots of Android's structure, forwards
  notifications, supplies the notification Flyme's \<open>cancel\<close> leaves out and implements
  enumeration. The Flyme library is a parameter; its device is memory addressed by byte offset.
\<close>

section \<open>The callback tables\<close>

datatype fnptr = Null | Flyme_fn nat | Compat_set_notify | Compat_cancel | Compat_enumerate

type_synonym table = "nat \<Rightarrow> fnptr"

datatype callback =
    Cb_notify | Cb_set_notify | Cb_pre_enroll | Cb_enroll | Cb_post_enroll
  | Cb_screen_off | Cb_screen_on | Cb_lockout | Cb_lockout_reset
  | Cb_get_authenticator_id | Cb_cancel | Cb_enumerate | Cb_remove | Cb_set_active_group | Cb_authenticate

text \<open>\<^verbatim>\<open>struct flyme_fingerprint_device\<close>: the offset of each pointer behind the common header.\<close>

fun flyme_offset :: "callback \<Rightarrow> nat" where
  "flyme_offset Cb_notify = 0x78"
| "flyme_offset Cb_set_notify = 0x80"
| "flyme_offset Cb_pre_enroll = 0x88"
| "flyme_offset Cb_enroll = 0x90"
| "flyme_offset Cb_post_enroll = 0x98"
| "flyme_offset Cb_screen_off = 0xa0"
| "flyme_offset Cb_screen_on = 0xa8"
| "flyme_offset Cb_lockout = 0xb0"
| "flyme_offset Cb_lockout_reset = 0xb8"
| "flyme_offset Cb_get_authenticator_id = 0xc0"
| "flyme_offset Cb_cancel = 0xc8"
| "flyme_offset Cb_enumerate = 0xd0"
| "flyme_offset Cb_remove = 0xd8"
| "flyme_offset Cb_set_active_group = 0xe0"
| "flyme_offset Cb_authenticate = 0xe8"

text \<open>The structure ends with four reserved pointers.\<close>

definition flyme_sizeof :: nat where
  "flyme_sizeof = flyme_offset Cb_authenticate + 8 + 4 * 8"

text \<open>
  Android's structure is not part of the sources: its offsets are a parameter. The code makes
  five assertions at compile time. \<open>aosp_abi\<close> adds to them what the header of the platform lays out:
  the same structure without the four private callbacks.
\<close>

definition static_asserts :: "(callback \<Rightarrow> nat) \<Rightarrow> bool" where
  "static_asserts off \<longleftrightarrow>
     off Cb_get_authenticator_id = 0xa0 \<and> off Cb_set_active_group = 0xc0 \<and>
     flyme_offset Cb_get_authenticator_id = 0xc0 \<and> flyme_offset Cb_set_active_group = 0xe0 \<and> flyme_sizeof = 0x110"

definition aosp_public :: "callback list" where
  "aosp_public = [Cb_notify, Cb_set_notify, Cb_pre_enroll, Cb_enroll, Cb_post_enroll,
     Cb_get_authenticator_id, Cb_cancel, Cb_enumerate, Cb_remove, Cb_set_active_group, Cb_authenticate]"

definition aosp_abi :: "(callback \<Rightarrow> nat) \<Rightarrow> bool" where
  "aosp_abi off \<longleftrightarrow>
     static_asserts off \<and>
     map off aosp_public = map (\<lambda>i. off Cb_notify + 8 * i) [0..<length aosp_public]"

section \<open>State and library\<close>

text \<open>The static variables, and the messages handed to the framework's callback (\<open>None\<close> a null message).\<close>

record compat =
  flyme_hal_handle :: bool
  framework_notify :: "nat option"
  flyme_set_notify :: fnptr
  flyme_cancel :: fnptr
  flyme_get_finger_ids :: fnptr
  flyme_goto_idle :: fnptr
  flyme_resume :: fnptr
  cancel_in_progress :: bool
  cancel_notified :: bool
  delivered :: "(nat \<times> message option) list"

definition compat0 :: compat where
  "compat0 = \<lparr>flyme_hal_handle = False, framework_notify = None, flyme_set_notify = Null, flyme_cancel = Null,
     flyme_get_finger_ids = Null, flyme_goto_idle = Null, flyme_resume = Null,
     cancel_in_progress = False, cancel_notified = False, delivered = []\<rparr>"

text \<open>
  The Flyme library and the dynamic linker. \<open>call_cancel\<close> also tells which messages the
  library passes to its callback before it returns; \<open>call_get_finger_ids\<close> receives the
  capacity and the array and returns status, count and array.
\<close>

record 'x flyme =
  dl_open :: "string \<Rightarrow> 'x \<Rightarrow> bool \<times> 'x"
  dl_close :: "'x \<Rightarrow> 'x"
  dl_sym_module :: "'x \<Rightarrow> bool"
  module_has_open :: "'x \<Rightarrow> bool"
  dl_sym :: "string \<Rightarrow> 'x \<Rightarrow> fnptr"
  module_open :: "'x \<Rightarrow> (int \<times> table option) \<times> 'x"
  device_close :: "'x \<Rightarrow> 'x"
  call_set_notify :: "'x \<Rightarrow> int \<times> 'x"
  call_cancel :: "'x \<Rightarrow> (int \<times> message option list) \<times> 'x"
  call_goto_idle :: "'x \<Rightarrow> 'x"
  call_resume :: "'x \<Rightarrow> 'x"
  call_get_finger_ids :: "u32 \<Rightarrow> u32 list \<Rightarrow> 'x \<Rightarrow> (int \<times> u32 \<times> u32 list) \<times> 'x"
  device_lock :: "nat \<Rightarrow> 'x \<Rightarrow> 'x"
  device_unlock :: "nat \<Rightarrow> 'x \<Rightarrow> 'x"
  device_pointer :: "nat \<Rightarrow> 'x \<Rightarrow> bool"
  device_u32 :: "nat \<Rightarrow> 'x \<Rightarrow> u32"

section \<open>Operations\<close>



definition FLYME_FINGERPRINT_HAL :: "bool \<Rightarrow> string" where
  "FLYME_FINGERPRINT_HAL vendor =
     (if vendor then ''/vendor/lib64/hw/fingerprint.m86.flyme.so'' else ''/system/lib64/hw/fingerprint.m86.flyme.so'')"

definition deliver :: "nat option \<Rightarrow> message option \<Rightarrow> compat \<Rightarrow> compat" where
  "deliver cb m c = (case cb of None \<Rightarrow> c | Some f \<Rightarrow> c\<lparr>delivered := delivered c @ [(f, m)]\<rparr>)"

definition fingerprint_compat_notify :: "message option \<Rightarrow> compat \<Rightarrow> compat" where
  "fingerprint_compat_notify m c =
     (let c1 = (if cancel_in_progress c \<and> m = Some (MsgError FINGERPRINT_ERROR_CANCELED)
                then c\<lparr>cancel_notified := True\<rparr> else c)
      in deliver (framework_notify c1) m c1)"

definition fingerprint_compat_set_notify ::
    "'x flyme \<Rightarrow> nat option \<Rightarrow> compat \<Rightarrow> 'x \<Rightarrow> int \<times> compat \<times> 'x" where
  "fingerprint_compat_set_notify F cb c x =
     (if flyme_set_notify c = Null then (neg ENOSYS, c, x)
      else let c1 = c\<lparr>framework_notify := cb\<rparr>; (status, x1) = call_set_notify F x
           in (status, if status \<noteq> 0 then c1\<lparr>framework_notify := None\<rparr> else c1, x1))"

text \<open>\<open>fingerprint_compat_cancel\<close>: up to the call of the library, and from its return on.\<close>

definition cancel_enter :: "compat \<Rightarrow> compat" where
  "cancel_enter c = c\<lparr>cancel_in_progress := True, cancel_notified := False\<rparr>"

definition cancel_leave :: "int \<Rightarrow> compat \<Rightarrow> compat" where
  "cancel_leave status c =
     (let cb = framework_notify c;
          synthesize_cancel = (status = 0 \<and> \<not> cancel_notified c \<and> cb \<noteq> None);
          c1 = c\<lparr>cancel_in_progress := False\<rparr>
      in if synthesize_cancel then deliver cb (Some (MsgError FINGERPRINT_ERROR_CANCELED)) c1 else c1)"

definition fingerprint_compat_cancel :: "'x flyme \<Rightarrow> compat \<Rightarrow> 'x \<Rightarrow> int \<times> compat \<times> 'x" where
  "fingerprint_compat_cancel F c x =
     (if flyme_cancel c = Null then (neg ENOSYS, c, x)
      else case call_cancel F x of ((status, ms), x1) \<Rightarrow>
        (status, cancel_leave status (fold fingerprint_compat_notify ms (cancel_enter c)), x1))"





definition remap :: "(callback \<Rightarrow> nat) \<Rightarrow> table \<Rightarrow> table" where
  "remap off t =
     (let gai = t (flyme_offset Cb_get_authenticator_id); rm = t (flyme_offset Cb_remove);
          sag = t (flyme_offset Cb_set_active_group); auth = t (flyme_offset Cb_authenticate)
      in t(off Cb_set_notify := Compat_set_notify,
           off Cb_get_authenticator_id := gai,
           off Cb_cancel := Compat_cancel,
           off Cb_enumerate := Compat_enumerate,
           off Cb_remove := rm,
           off Cb_set_active_group := sag,
           off Cb_authenticate := auth))"

definition capture :: "'x flyme \<Rightarrow> table \<Rightarrow> 'x \<Rightarrow> compat \<Rightarrow> compat" where
  "capture F t x c =
     c\<lparr>flyme_set_notify := t (flyme_offset Cb_set_notify), flyme_cancel := t (flyme_offset Cb_cancel),
       flyme_get_finger_ids := dl_sym F ''fpc_tee_get_finger_ids'' x,
       flyme_goto_idle := dl_sym F ''fingerprint_hal_goto_idle'' x,
       flyme_resume := dl_sym F ''fingerprint_hal_resume'' x\<rparr>"

definition table_complete :: "compat \<Rightarrow> table \<Rightarrow> bool" where
  "table_complete c t \<longleftrightarrow>
     flyme_set_notify c \<noteq> Null \<and> t (flyme_offset Cb_get_authenticator_id) \<noteq> Null \<and> flyme_cancel c \<noteq> Null \<and>
     t (flyme_offset Cb_enumerate) \<noteq> Null \<and> flyme_get_finger_ids c \<noteq> Null \<and> flyme_goto_idle c \<noteq> Null \<and>
     flyme_resume c \<noteq> Null \<and> t (flyme_offset Cb_remove) \<noteq> Null \<and>
     t (flyme_offset Cb_set_active_group) \<noteq> Null \<and> t (flyme_offset Cb_authenticate) \<noteq> Null"

definition fingerprint_compat_open ::
    "'x flyme \<Rightarrow> (callback \<Rightarrow> nat) \<Rightarrow> bool \<Rightarrow> bool \<Rightarrow> compat \<Rightarrow> 'x \<Rightarrow> (int \<times> table option) \<times> compat \<times> 'x" where
  "fingerprint_compat_open F off vendor have_slot c x =
     (if \<not> have_slot then ((neg EINVAL, None), c, x)
      else case dl_open F (FLYME_FINGERPRINT_HAL vendor) x of (loaded, x1) \<Rightarrow>
        if \<not> loaded then ((neg ENOENT, None), c, x1)
        else if \<not> dl_sym_module F x1 then ((neg EINVAL, None), c, dl_close F x1)
        else if \<not> module_has_open F x1 then ((neg EINVAL, None), c, dl_close F x1)
        else case module_open F x1 of ((status, device), x2) \<Rightarrow>
          (case device of
             None \<Rightarrow> ((if status \<noteq> 0 then status else neg EIO, None), c, dl_close F x2)
           | Some t \<Rightarrow>
               if status \<noteq> 0 then ((status, None), c, dl_close F x2)
               else let c1 = capture F t x2 c
                    in if \<not> table_complete c1 t then ((neg EINVAL, None), c1, dl_close F (device_close F x2))
                       else ((0, Some (remap off t)), c1\<lparr>flyme_hal_handle := True\<rparr>, x2)))"


section \<open>Lemmas\<close>

lemma deliver_simps [simp]:
  "framework_notify (deliver cb m c) = framework_notify c" "cancel_notified (deliver cb m c) = cancel_notified c"
  "cancel_in_progress (deliver cb m c) = cancel_in_progress c"
  "delivered (deliver cb m c) = delivered c @ (case cb of None \<Rightarrow> [] | Some f \<Rightarrow> [(f, m)])"
  by (simp_all add: deliver_def split: option.split)

lemma notify_fold:
  assumes "cancel_in_progress c" and "framework_notify c = Some cb"
  shows "delivered (fold fingerprint_compat_notify ms c) = delivered c @ map (Pair cb) ms \<and>
    framework_notify (fold fingerprint_compat_notify ms c) = Some cb \<and>
    (cancel_notified (fold fingerprint_compat_notify ms c) \<longleftrightarrow>
       cancel_notified c \<or> Some (MsgError FINGERPRINT_ERROR_CANCELED) \<in> set ms)"
  using assms
proof (induction ms arbitrary: c)
  case Nil
  then show ?case by simp
next
  case (Cons m ms)
  have "cancel_in_progress (fingerprint_compat_notify m c)" "framework_notify (fingerprint_compat_notify m c) = Some cb"
    using Cons.prems by (simp_all add: fingerprint_compat_notify_def Let_def)
  from Cons.IH [OF this] Cons.prems show ?case
    by (auto simp: fingerprint_compat_notify_def Let_def)
qed



lemma aosp_offsets:
  assumes "aosp_abi off"
  shows "off Cb_notify = 0x78" "off Cb_set_notify = 0x80" "off Cb_pre_enroll = 0x88" "off Cb_enroll = 0x90"
    "off Cb_post_enroll = 0x98" "off Cb_get_authenticator_id = 0xa0" "off Cb_cancel = 0xa8" "off Cb_enumerate = 0xb0"
    "off Cb_remove = 0xb8" "off Cb_set_active_group = 0xc0" "off Cb_authenticate = 0xc8"
proof -
  have "map off aosp_public = map (\<lambda>i. off Cb_notify + 8 * i) [0, 1, 2, 3, 4, 5, 6, 7, 8, 9, 10]"
    using assms by (simp add: aosp_abi_def aosp_public_def upt_rec)
  with assms show "off Cb_notify = 0x78" "off Cb_set_notify = 0x80" "off Cb_pre_enroll = 0x88" "off Cb_enroll = 0x90"
    "off Cb_post_enroll = 0x98" "off Cb_get_authenticator_id = 0xa0" "off Cb_cancel = 0xa8" "off Cb_enumerate = 0xb0"
    "off Cb_remove = 0xb8" "off Cb_set_active_group = 0xc0" "off Cb_authenticate = 0xc8"
    by (simp_all add: aosp_abi_def static_asserts_def aosp_public_def)
qed

lemma open_success:
  assumes "fingerprint_compat_open F off vendor slot c x = ((0, Some t'), c', x')"
  obtains t x1 where "module_open F x1 = ((0, Some t), x')" "t' = remap off t"
    "c' = (capture F t x' c)\<lparr>flyme_hal_handle := True\<rparr>" "table_complete (capture F t x' c) t"
  using assms by (auto simp: fingerprint_compat_open_def Let_def split: if_splits prod.splits option.splits)




section \<open>Properties\<close>

text \<open>
  C16: After a successful open, Android's adapter reads at its own offsets the callbacks it
  expects: the four that the library needs translated at moved slots are Flyme's own of the
  same name, cancel, enumerate and set\_notify are the replacements, the rest is untouched,
  none of the moved ones is null, and the replacements hold Flyme's original set\_notify and
  cancel. The hypothesis is the layout of Android's structure.
\<close>

theorem compat_remaps_callbacks:
  assumes "aosp_abi off" and "fingerprint_compat_open F off vendor slot c x = ((0, Some t'), c', x')"
  shows "\<exists>t x1. fst (module_open F x1) = (0, Some t) \<and>
    (\<forall>cb \<in> {Cb_get_authenticator_id, Cb_remove, Cb_set_active_group, Cb_authenticate}.
       t' (off cb) = t (flyme_offset cb) \<and> t' (off cb) \<noteq> Null) \<and>
    t' (off Cb_set_notify) = Compat_set_notify \<and> t' (off Cb_cancel) = Compat_cancel \<and>
    t' (off Cb_enumerate) = Compat_enumerate \<and>
    (\<forall>cb \<in> {Cb_notify, Cb_pre_enroll, Cb_enroll, Cb_post_enroll}. t' (off cb) = t (flyme_offset cb)) \<and>
    flyme_set_notify c' = t (flyme_offset Cb_set_notify) \<and> flyme_set_notify c' \<noteq> Null \<and>
    flyme_cancel c' = t (flyme_offset Cb_cancel) \<and> flyme_cancel c' \<noteq> Null \<and> flyme_hal_handle c'"
proof -
  from open_success [OF assms(2)] obtain t x1 where t: "module_open F x1 = ((0, Some t), x')" "t' = remap off t"
    "c' = (capture F t x' c)\<lparr>flyme_hal_handle := True\<rparr>" "table_complete (capture F t x' c) t" .
  show ?thesis
    using t by (intro exI [of _ t] exI [of _ x1])
      (simp add: remap_def capture_def table_complete_def Let_def aosp_offsets [OF assms(1)])
qed

text \<open>
  C25: Cancelling through the compatibility layer tells the framework exactly once more than
  the library does when the library stays silent: with a registered callback and a library
  that reports success, everything the library sends meanwhile is delivered in order, and the
  CANCELED error follows exactly when the library did not send one itself; the framework
  therefore always receives it. A failing cancel adds nothing.
\<close>

theorem compat_cancel_notifies:
  assumes "framework_notify c = Some cb" and "flyme_cancel c \<noteq> Null" and "call_cancel F x = ((status, ms), x')"
    and "fingerprint_compat_cancel F c x = (r, c', x'')"
  shows "let canceled = Some (MsgError FINGERPRINT_ERROR_CANCELED) in
    r = status \<and> x'' = x' \<and> \<not> cancel_in_progress c' \<and>
    delivered c' = delivered c @ map (Pair cb) (ms @ (if status = 0 \<and> canceled \<notin> set ms then [canceled] else [])) \<and>
    (status = 0 \<longrightarrow> (cb, canceled) \<in> set (drop (length (delivered c)) (delivered c')))"
proof -
  have "cancel_in_progress (cancel_enter c)" "framework_notify (cancel_enter c) = Some cb"
    "\<not> cancel_notified (cancel_enter c)" "delivered (cancel_enter c) = delivered c"
    using assms(1) by (simp_all add: cancel_enter_def)
  with notify_fold [of "cancel_enter c" cb ms] assms show ?thesis
    by (auto simp: fingerprint_compat_cancel_def cancel_leave_def Let_def)
qed


text \<open>What the dynamic linker and the library's open acquire and release.\<close>

definition loads_counted :: "'x flyme \<Rightarrow> ('x \<Rightarrow> int \<times> int) \<Rightarrow> bool" where
  "loads_counted F held \<longleftrightarrow>
     (\<forall>x. case held x of (handles, devices) \<Rightarrow>
        (\<forall>p. held (snd (dl_open F p x)) = (if fst (dl_open F p x) then handles + 1 else handles, devices)) \<and>
        held (dl_close F x) = (handles - 1, devices) \<and>
        held (snd (module_open F x)) =
          (handles, if fst (fst (module_open F x)) = 0 \<and> snd (fst (module_open F x)) \<noteq> None then devices + 1 else devices) \<and>
        held (device_close F x) = (handles, devices - 1))"

lemma loads_countedD:
  assumes "loads_counted F held" and "held x = (handles, devices)"
  shows "dl_open F p x = (ok, y) \<Longrightarrow> held y = (if ok then handles + 1 else handles, devices)"
    "held (dl_close F x) = (handles - 1, devices)"
    "module_open F x = ((st, t), y) \<Longrightarrow> held y = (handles, if st = 0 \<and> t \<noteq> None then devices + 1 else devices)"
    "held (device_close F x) = (handles, devices - 1)"
proof -
  note c = assms(1) [unfolded loads_counted_def, THEN spec [of _ x], unfolded assms(2) prod.case]
  then have "held (snd (dl_open F p x)) = (if fst (dl_open F p x) then handles + 1 else handles, devices)" by blast
  then show "dl_open F p x = (ok, y) \<Longrightarrow> held y = (if ok then handles + 1 else handles, devices)" by simp
  show "held (dl_close F x) = (handles - 1, devices)"
    "module_open F x = ((st, t), y) \<Longrightarrow> held y = (handles, if st = 0 \<and> t \<noteq> None then devices + 1 else devices)"
    "held (device_close F x) = (handles, devices - 1)" using c by simp_all
qed

text \<open>
  A failing open hands out no device and keeps neither the library loaded nor its device
  open; a successful one hands out the device, with the library loaded once. The hypothesis
  is which call of the linker and of the library acquires and which one releases.
\<close>

theorem compat_open_balances:
  assumes counted: "loads_counted F held" and h0: "held x = (handles, devices)"
    and run: "fingerprint_compat_open F off vendor slot c x = ((r, d), c', x')"
  shows "if r = 0 then d \<noteq> None \<and> held x' = (handles + 1, devices + 1)
    else d = None \<and> held x' = (handles, devices)"
proof -
  note D = loads_countedD [OF counted]
  obtain ok x1 where o: "dl_open F (FLYME_FINGERPRINT_HAL vendor) x = (ok, x1)" by fastforce
  obtain st t x2 where m: "module_open F x1 = ((st, t), x2)" by (metis prod.collapse)
  note h1 = D(1) [OF h0 o] note h2 = D(3) [OF h1 m]
  show ?thesis
    using run h0 o m h1 h2 D(2) [OF h1] D(2) [OF h2] D(2) [OF D(4) [OF h2]]
    by (auto simp: fingerprint_compat_open_def Let_def split: if_splits option.splits)
qed

section \<open>Evaluation\<close>

text \<open>A library that counts its loads and its devices, silent on cancel, with two stored templates.\<close>

definition demo_flyme :: "(int \<times> int) flyme" where
  "demo_flyme =
     \<lparr>dl_open = (\<lambda>p (h, d). (True, (h + 1, d))), dl_close = (\<lambda>(h, d). (h - 1, d)),
      dl_sym_module = (\<lambda>x. True), module_has_open = (\<lambda>x. True), dl_sym = (\<lambda>name x. Flyme_fn 1),
      module_open = (\<lambda>(h, d). ((0, Some Flyme_fn), (h, d + 1))), device_close = (\<lambda>(h, d). (h, d - 1)),
      call_set_notify = (\<lambda>x. (0, x)), call_cancel = (\<lambda>x. ((0, [Some (MsgAcquired FINGERPRINT_ACQUIRED_GOOD)]), x)),
      call_goto_idle = (\<lambda>x. x), call_resume = (\<lambda>x. x),
      call_get_finger_ids = (\<lambda>n ids x. ((0, 2, ids[0 := 4, 1 := 9]), x)),
      device_lock = (\<lambda>n x. x), device_unlock = (\<lambda>n x. x), device_pointer = (\<lambda>n x. True), device_u32 = (\<lambda>n x. 0)\<rparr>"

fun demo_aosp :: "callback \<Rightarrow> nat" where
  "demo_aosp Cb_get_authenticator_id = 0xa0"
| "demo_aosp Cb_cancel = 0xa8"
| "demo_aosp Cb_enumerate = 0xb0"
| "demo_aosp Cb_remove = 0xb8"
| "demo_aosp Cb_set_active_group = 0xc0"
| "demo_aosp Cb_authenticate = 0xc8"
| "demo_aosp cb = flyme_offset cb"

definition demo_compat :: compat where
  "demo_compat = (capture demo_flyme Flyme_fn (1, 1) compat0)\<lparr>flyme_hal_handle := True, framework_notify := Some 7\<rparr>"

lemma demo_open:
  "fingerprint_compat_open demo_flyme demo_aosp True True compat0 (0, 0) =
     ((0, Some (remap demo_aosp Flyme_fn)), (capture demo_flyme Flyme_fn (1, 1) compat0)\<lparr>flyme_hal_handle := True\<rparr>, (1, 1))"
  by (simp add: fingerprint_compat_open_def demo_flyme_def capture_def table_complete_def Let_def)

theorem compat_remaps_callbacks_witness:
  "\<exists>t' c' x'. fingerprint_compat_open demo_flyme demo_aosp True True compat0 (0, 0) = ((0, Some t'), c', x') \<and>
     t' 0xc0 = Flyme_fn 0xe0 \<and> t' 0xa0 = Flyme_fn 0xc0 \<and> t' 0xa8 = Compat_cancel"
proof -
  have "aosp_abi demo_aosp" by (simp add: aosp_abi_def static_asserts_def flyme_sizeof_def aosp_public_def upt_rec)
  from compat_remaps_callbacks [OF this demo_open] demo_open show ?thesis
    by (auto simp: demo_flyme_def split: prod.splits)
qed

theorem compat_cancel_notifies_witness:
  "delivered (fst (snd (fingerprint_compat_cancel demo_flyme demo_compat (1, 1)))) =
     [(7, Some (MsgAcquired FINGERPRINT_ACQUIRED_GOOD)), (7, Some (MsgError FINGERPRINT_ERROR_CANCELED))]"
proof -
  have s: "framework_notify demo_compat = Some 7" "flyme_cancel demo_compat \<noteq> Null" "delivered demo_compat = []"
    by (simp_all add: demo_compat_def capture_def compat0_def)
  have c: "call_cancel demo_flyme (1, 1) = ((0, [Some (MsgAcquired FINGERPRINT_ACQUIRED_GOOD)]), (1, 1))"
    by (simp add: demo_flyme_def)
  obtain r c' x' where e: "fingerprint_compat_cancel demo_flyme demo_compat (1, 1) = (r, c', x')"
    by (metis prod.collapse)
  from compat_cancel_notifies [OF s(1,2) c e] s(3) e show ?thesis by (simp add: Let_def)
qed


theorem compat_open_balances_witness:
  "\<exists>d c'. fingerprint_compat_open demo_flyme demo_aosp True True compat0 (0, 0) = ((0, d), c', (1, 1)) \<and> d \<noteq> None"
proof -
  have "loads_counted demo_flyme (\<lambda>x. x)" by (simp add: loads_counted_def demo_flyme_def)
  from compat_open_balances [OF this refl demo_open] demo_open show ?thesis by auto
qed

end
