(* ===== verification/Nodes.thy ===== *)
theory Nodes
  imports M86_Posix
begin

text \<open>
  Writing a value to a sysfs or device node: the three helpers of the sources
  (\<^verbatim>\<open>write_node\<close> of the legacy power HAL, \<^verbatim>\<open>WriteNode\<close> of the AIDL power HAL, \<^verbatim>\<open>write_int\<close> of
  the lights HAL) and the contract their callers rely on, stated as a locale.
\<close>

section \<open>The helpers\<close>

text \<open>What the helpers return for the result of \<^verbatim>\<open>write\<close>: 0, the error, or \<^verbatim>\<open>-EIO\<close> when it was short.\<close>

definition write_result :: "nat \<Rightarrow> errno + nat \<Rightarrow> int" where
  "write_result expected r =
     (case r of Inl e \<Rightarrow> neg e | Inr written \<Rightarrow> if written \<noteq> expected then neg EIO else 0)"

definition write_node :: "path \<Rightarrow> string \<Rightarrow> world \<Rightarrow> int \<times> world" where
  "write_node p v w =
     (case sys_open_node p w of
        (Inl e, w1) \<Rightarrow> (neg e, w1)
      | (Inr fd, w1) \<Rightarrow>
          (let (written, w2) = retry_eintr (sys_write_node fd v) w1
           in (write_result (length v) written, snd (sys_close fd w2))))"

definition WriteNode :: "path \<Rightarrow> string \<Rightarrow> world \<Rightarrow> int \<times> world" where
  "WriteNode p v w =
     (case retry_eintr (sys_open_node p) w of
        (Inl e, w1) \<Rightarrow> (neg e, w1)
      | (Inr fd, w1) \<Rightarrow>
          (let (written, w2) = retry_eintr (sys_write_node fd v) w1
           in (write_result (length v) written, snd (sys_close fd w2))))"

definition int_line :: "int \<Rightarrow> string" where
  "int_line value = dec_of_int value @ [CHR 0x0A]"

definition write_int :: "path \<Rightarrow> int \<Rightarrow> world \<Rightarrow> int \<times> world" where
  "write_int p value w =
     (let buffer = int_line value
      in if length buffer \<ge> 24 then (neg EINVAL, w)
         else case sys_open_node p w of
            (Inl e, w1) \<Rightarrow> (neg e, w1)
          | (Inr fd, w1) \<Rightarrow>
              (let (written, w2) = sys_write_node fd buffer w1; w3 = snd (sys_close fd w2)
               in (write_result (length buffer) written, w3)))"

section \<open>The contract\<close>

text \<open>A kernel that takes a value whole or refuses it, as the store handlers of sysfs do.\<close>

definition atomic_nodes :: "world \<Rightarrow> bool" where
  "atomic_nodes w \<longleftrightarrow> list_all (\<lambda>c. case c of Limit k \<Rightarrow> False | _ \<Rightarrow> True) (faults w)"

lemma atomic_drop: "atomic_nodes w \<Longrightarrow> faults w' = drop n (faults w) \<Longrightarrow> atomic_nodes w'"
  by (auto simp: atomic_nodes_def list_all_iff simp del: outcome.case dest: in_set_dropD)

text \<open>
  \<open>wrote p v r w w'\<close>: what the world is after trying to write \<open>v\<close>, with result \<open>r\<close>.
  Descriptors and files are as before; the node received the whole value on success and a
  proper prefix of it on failure, nothing at all from a kernel that takes values whole.
\<close>

definition wrote :: "path \<Rightarrow> string \<Rightarrow> int \<Rightarrow> world \<Rightarrow> world \<Rightarrow> bool" where
  "wrote p v r w w' \<longleftrightarrow>
     fds w' = fds w \<and> files w' = files w \<and> entropy w' = entropy w \<and> (\<exists>n. faults w' = drop n (faults w)) \<and>
     (if r = 0 then stores w' = stores w @ [(p, v)]
      else r < 0 \<and> faults w \<noteq> [] \<and> (atomic_nodes w \<longrightarrow> stores w' = stores w) \<and>
           (\<exists>k < length v. stores w' = stores w @ (if k = 0 then [] else [(p, take k v)])))"

text \<open>The value a node last received.\<close>

definition node_value :: "world \<Rightarrow> path \<Rightarrow> string option" where
  "node_value w p = map_of (rev (stores w)) p"


text \<open>Several writes one after another, the results dropped as the callers drop them.\<close>

definition write_all :: "(path \<Rightarrow> 'v \<Rightarrow> world \<Rightarrow> int \<times> world) \<Rightarrow> (path \<times> 'v) list \<Rightarrow> world \<Rightarrow> world" where
  "write_all wr pvs w = fold (\<lambda>(p, v) w. snd (wr p v w)) pvs w"

locale node_writer =
  fixes wr :: "path \<Rightarrow> 'v \<Rightarrow> world \<Rightarrow> int \<times> world"
    and render :: "'v \<Rightarrow> string"
    and ok :: "'v \<Rightarrow> bool"
  assumes writes: "ok v \<Longrightarrow> wr p v w = (r, w') \<Longrightarrow> wrote p (render v) r w w'"
begin

lemma result_le: "ok v \<Longrightarrow> fst (wr p v w) \<le> 0"
  using writes [of v p w "fst (wr p v w)" "snd (wr p v w)"] by (auto simp: wrote_def split: if_splits)

lemma frame:
  assumes "ok v" and "wr p v w = (r, w')"
  shows "fds w' = fds w" "files w' = files w" "\<exists>n. faults w' = drop n (faults w)"
  using writes [OF assms] by (simp_all add: wrote_def)

lemma keeps_atomic: "ok v \<Longrightarrow> atomic_nodes w \<Longrightarrow> atomic_nodes (snd (wr p v w))"
  using frame(3) [of v p w "fst (wr p v w)" "snd (wr p v w)"] by (auto intro: atomic_drop)

lemma faultless: "ok v \<Longrightarrow> faults w = [] \<Longrightarrow> fst (wr p v w) = 0 \<and> faults (snd (wr p v w)) = []"
  using writes [of v p w "fst (wr p v w)" "snd (wr p v w)"] by (auto simp: wrote_def split: if_splits)

text \<open>After a successful write the node holds the value; after a refused one it holds what it held.\<close>

lemma value_after:
  assumes "ok v" and "wr p v w = (r, w')" and "atomic_nodes w"
  shows "node_value w' q = (if r = 0 \<and> q = p then Some (render v) else node_value w q)"
  using writes [OF assms(1,2)] assms(3) by (auto simp: wrote_def node_value_def split: if_splits)

lemma write_all_faultless:
  assumes "faults w = []" and "\<forall>(p, v) \<in> set pvs. ok v"
  shows "stores (write_all wr pvs w) = stores w @ map (\<lambda>(p, v). (p, render v)) pvs \<and>
    fds (write_all wr pvs w) = fds w \<and> faults (write_all wr pvs w) = []"
  using assms
proof (induction pvs arbitrary: w)
  case Nil
  then show ?case by (simp add: write_all_def)
next
  case (Cons pv pvs)
  obtain p v where pv: "pv = (p, v)" by fastforce
  have ok: "ok v" using Cons.prems pv by simp
  obtain w1 where w1: "wr p v w = (0, w1)" "faults w1 = []"
    using faultless [OF ok Cons.prems(1), of p] by (metis prod.collapse)
  from writes [OF ok w1(1)] have "stores w1 = stores w @ [(p, render v)]" "fds w1 = fds w"
    by (simp_all add: wrote_def)
  with Cons.IH [OF w1(2)] Cons.prems(2) w1(1) pv show ?case by (simp add: write_all_def)
qed

lemma write_all_fds: "\<forall>(p, v) \<in> set pvs. ok v \<Longrightarrow> fds (write_all wr pvs w) = fds w"
proof (induction pvs arbitrary: w)
  case Nil
  then show ?case by (simp add: write_all_def)
next
  case (Cons pv pvs)
  obtain p v where pv: "pv = (p, v)" by fastforce
  from Cons.IH [of "snd (wr p v w)"] Cons.prems pv frame(1) [of v p w "fst (wr p v w)" "snd (wr p v w)"]
  show ?case by (simp add: write_all_def)
qed

end

section \<open>The helpers meet it\<close>

text \<open>A single \<^verbatim>\<open>write\<close> on an open node.\<close>

definition node_write_spec :: "path \<Rightarrow> string \<Rightarrow> errno + nat \<Rightarrow> world \<Rightarrow> world \<Rightarrow> bool" where
  "node_write_spec p v r w w' \<longleftrightarrow>
     (\<exists>n. case r of
        Inl e \<Rightarrow> w' = w\<lparr>faults := drop n (faults w)\<rparr> \<and> faults w \<noteq> []
      | Inr k \<Rightarrow> k \<le> length v \<and> (k \<noteq> length v \<longrightarrow> faults w \<noteq> [] \<and> \<not> atomic_nodes w) \<and>
          w' = w\<lparr>faults := drop n (faults w), stores := stores w @ (if k = 0 then [] else [(p, take k v)])\<rparr>)"

lemma atomic_nodes_cases:
  "faults w = c # fs \<Longrightarrow> atomic_nodes w \<longleftrightarrow> (\<forall>k. c \<noteq> Limit k) \<and> list_all (\<lambda>c. case c of Limit k \<Rightarrow> False | _ \<Rightarrow> True) fs"
  by (auto simp: atomic_nodes_def split: outcome.splits)

lemma write_node_spec:
  assumes "map_of (fds w) fd = Some f" and "sys_write_node fd v w = (r, w')"
  shows "node_write_spec (ofile_path f) v r w w'"
  using assms
proof (cases w rule: take_outcome_cases)
  case 1
  then show ?thesis using assms
    by (auto simp: sys_write_node_def node_write_spec_def Let_def intro: exI [of _ 0])
next
  case (2 c fs)
  then show ?thesis using assms
    by (cases c) (auto simp: sys_write_node_def node_write_spec_def Let_def transfer_def atomic_nodes_cases
        intro!: exI [of _ 1])
qed

lemma node_write_spec_drop:
  assumes "node_write_spec p v r (w\<lparr>faults := drop n (faults w)\<rparr>) w'" and "faults w \<noteq> []"
  shows "node_write_spec p v r w w'"
proof -
  have at: "atomic_nodes w \<Longrightarrow> atomic_nodes (w\<lparr>faults := drop n (faults w)\<rparr>)" by (rule atomic_drop) simp_all
  show ?thesis
  proof (cases r)
    case (Inl e)
    with assms obtain m where "w' = w\<lparr>faults := drop (m + n) (faults w)\<rparr>" by (auto simp: node_write_spec_def)
    with Inl assms(2) show ?thesis by (auto simp: node_write_spec_def)
  next
    case (Inr k)
    with assms obtain m where "k \<le> length v" "k \<noteq> length v \<Longrightarrow> \<not> atomic_nodes (w\<lparr>faults := drop n (faults w)\<rparr>)"
      "w' = w\<lparr>faults := drop (m + n) (faults w), stores := stores w @ (if k = 0 then [] else [(p, take k v)])\<rparr>"
      by (auto simp: node_write_spec_def)
    with Inr assms(2) at show ?thesis unfolding node_write_spec_def
      by (intro exI [of _ "m + n"]) auto
  qed
qed

lemma retry_write_spec:
  assumes "map_of (fds w) fd = Some f" and "retry_eintr (sys_write_node fd v) w = (r, w')"
  shows "node_write_spec (ofile_path f) v r w w'"
  using assms
proof (induction "length (faults w)" arbitrary: w rule: less_induct)
  case less
  obtain r1 w1 where c: "sys_write_node fd v w = (r1, w1)" by fastforce
  note s = write_node_spec [OF less.prems(1) c]
  show ?case
  proof (cases "r1 = Inl EINTR \<and> length (faults w1) < length (faults w)")
    case False
    then have "retry_eintr (sys_write_node fd v) w = (r1, w1)" using c by (subst retry_eintr.simps) auto
    with s less.prems(2) show ?thesis by simp
  next
    case True
    from s True obtain n where w1: "w1 = w\<lparr>faults := drop n (faults w)\<rparr>" and ne: "faults w \<noteq> []"
      by (auto simp: node_write_spec_def)
    have "retry_eintr (sys_write_node fd v) w1 = (r, w')"
      using less.prems(2) True c by (subst (asm) retry_eintr.simps) simp
    moreover have "map_of (fds w1) fd = Some f" using less.prems(1) w1 by simp
    ultimately have "node_write_spec (ofile_path f) v r w1 w'" using less.hyps [of w1] True by simp
    then show ?thesis using ne unfolding w1 by (rule node_write_spec_drop)
  qed
qed

definition node_open_spec :: "path \<Rightarrow> errno + nat \<Rightarrow> world \<Rightarrow> world \<Rightarrow> bool" where
  "node_open_spec p r w w' \<longleftrightarrow>
     (\<exists>n. case r of
        Inl e \<Rightarrow> w' = w\<lparr>faults := drop n (faults w)\<rparr> \<and> faults w \<noteq> []
      | Inr fd \<Rightarrow> fd = fresh_fd (fds w) \<and>
          w' = w\<lparr>faults := drop n (faults w), fds := (fd, new_ofile NodeFile p) # fds w\<rparr>)"

lemma open_node_spec:
  assumes "sys_open_node p w = (r, w')"
  shows "node_open_spec p r w w'"
proof (cases w rule: take_outcome_cases)
  case 1
  then show ?thesis using assms
    by (auto simp: sys_open_node_def node_open_spec_def alloc_fd_def Let_def intro: exI [of _ 0])
next
  case (2 c fs)
  then show ?thesis using assms
    by (cases c) (auto simp: sys_open_node_def node_open_spec_def alloc_fd_def Let_def intro!: exI [of _ 1])
qed

lemma node_open_spec_drop:
  assumes "node_open_spec p r (w\<lparr>faults := drop n (faults w)\<rparr>) w'" and "faults w \<noteq> []"
  shows "node_open_spec p r w w'"
  using assms by (cases r) (auto simp: node_open_spec_def)

lemma retry_open_spec:
  assumes "retry_eintr (sys_open_node p) w = (r, w')"
  shows "node_open_spec p r w w'"
  using assms
proof (induction "length (faults w)" arbitrary: w rule: less_induct)
  case less
  obtain r1 w1 where c: "sys_open_node p w = (r1, w1)" by fastforce
  note s = open_node_spec [OF c]
  show ?case
  proof (cases "r1 = Inl EINTR \<and> length (faults w1) < length (faults w)")
    case False
    then have "retry_eintr (sys_open_node p) w = (r1, w1)" using c by (subst retry_eintr.simps) auto
    with s less.prems show ?thesis by simp
  next
    case True
    from s True obtain n where w1: "w1 = w\<lparr>faults := drop n (faults w)\<rparr>" and ne: "faults w \<noteq> []"
      by (auto simp: node_open_spec_def)
    have "retry_eintr (sys_open_node p) w1 = (r, w')"
      using less.prems True c by (subst (asm) retry_eintr.simps) simp
    with less.hyps [of w1] True have "node_open_spec p r w1 w'" by simp
    then show ?thesis using ne unfolding w1 by (rule node_open_spec_drop)
  qed
qed

lemma close_drop:
  "\<exists>n. snd (sys_close fd w) = w\<lparr>faults := drop n (faults w), fds := filter (\<lambda>p. fst p \<noteq> fd) (fds w)\<rparr>"
proof (cases w rule: take_outcome_cases)
  case 1
  then show ?thesis by (auto simp: sys_close_def Let_def intro: exI [of _ 0])
next
  case (2 c fs)
  then show ?thesis by (cases c) (auto simp: sys_close_def Let_def intro!: exI [of _ 1])
qed

text \<open>Writing to the node just opened, and closing it.\<close>

lemma write_tail:
  assumes w1: "w1 = w\<lparr>faults := drop n (faults w), fds := (fresh_fd (fds w), new_ofile NodeFile p) # fds w\<rparr>"
    and sp: "node_write_spec p v r w1 w2" and v: "v \<noteq> []"
  shows "wrote p v (write_result (length v) r) w (snd (sys_close (fresh_fd (fds w)) w2))"
proof -
  obtain m where cl: "snd (sys_close (fresh_fd (fds w)) w2) =
      w2\<lparr>faults := drop m (faults w2), fds := filter (\<lambda>p. fst p \<noteq> fresh_fd (fds w)) (fds w2)\<rparr>"
    using close_drop by blast
  have at: "atomic_nodes w \<Longrightarrow> atomic_nodes w1" by (rule atomic_drop) (simp_all add: w1)
  have ne: "faults w1 \<noteq> [] \<Longrightarrow> faults w \<noteq> []" by (auto simp: w1)
  have dr: "\<exists>n'. drop m (drop k (faults w1)) = drop n' (faults w)" for k
    by (auto simp: w1 intro: exI [of _ "m + (k + n)"])
  show ?thesis
  proof (cases r)
    case (Inl e)
    with sp obtain k where w2: "w2 = w1\<lparr>faults := drop k (faults w1)\<rparr>" and "faults w1 \<noteq> []"
      by (auto simp: node_write_spec_def)
    then have "files w2 = files w" "entropy w2 = entropy w" "fds w2 = (fresh_fd (fds w), new_ofile NodeFile p) # fds w"
      "stores w2 = stores w" "faults w2 = drop k (faults w1)" "faults w \<noteq> []"
      using ne by (simp_all add: w1)
    with Inl v dr [of k] show ?thesis unfolding cl
      by (auto simp: wrote_def write_result_def intro!: exI [of _ 0])
  next
    case (Inr j)
    with sp obtain k where w2: "w2 = w1\<lparr>faults := drop k (faults w1),
        stores := stores w1 @ (if j = 0 then [] else [(p, take j v)])\<rparr>"
      and j: "j \<le> length v" "j \<noteq> length v \<Longrightarrow> faults w1 \<noteq> [] \<and> \<not> atomic_nodes w1"
      by (auto simp: node_write_spec_def)
    have w2f: "files w2 = files w" "entropy w2 = entropy w" "fds w2 = (fresh_fd (fds w), new_ofile NodeFile p) # fds w"
      "stores w2 = stores w @ (if j = 0 then [] else [(p, take j v)])" "faults w2 = drop k (faults w1)"
      by (simp_all add: w2 w1)
    show ?thesis
    proof (cases "j = length v")
      case True
      with Inr v dr [of k] show ?thesis unfolding cl by (simp add: wrote_def write_result_def w2f)
    next
      case False
      then have "faults w \<noteq> []" "\<not> atomic_nodes w" "j < length v" using j at ne by auto
      with False Inr v dr [of k] show ?thesis unfolding cl
        by (auto simp: wrote_def write_result_def w2f intro!: exI [of _ j])
    qed
  qed
qed

lemma wrote_open_failed:
  "faults w \<noteq> [] \<Longrightarrow> v \<noteq> [] \<Longrightarrow> wrote p v (neg e) w (w\<lparr>faults := drop n (faults w)\<rparr>)"
  by (auto simp: wrote_def)

interpretation legacy: node_writer write_node "\<lambda>v. v" "\<lambda>v. v \<noteq> []"
proof
  fix p v w r w'
  assume v: "v \<noteq> []" and run: "write_node p v w = (r, w')"
  obtain o1 w1 where op: "sys_open_node p w = (o1, w1)" by fastforce
  show "wrote p v r w w'"
  proof (cases o1)
    case (Inl e)
    with open_node_spec [OF op] run op v show ?thesis
      by (auto simp: write_node_def node_open_spec_def simp del: errno_code.simps intro: wrote_open_failed)
  next
    case (Inr fd)
    obtain q w2 where wr: "retry_eintr (sys_write_node fd v) w1 = (q, w2)" by fastforce
    from open_node_spec [OF op] Inr obtain n where fd: "fd = fresh_fd (fds w)"
      and w1: "w1 = w\<lparr>faults := drop n (faults w), fds := (fd, new_ofile NodeFile p) # fds w\<rparr>"
      by (auto simp: node_open_spec_def)
    have "node_write_spec p v q w1 w2"
      using retry_write_spec [OF _ wr, of "new_ofile NodeFile p"] by (simp add: w1)
    from write_tail [OF w1 [unfolded fd] this v] run op wr Inr show ?thesis
      by (auto simp: write_node_def fd)
  qed
qed

interpretation aidl: node_writer WriteNode "\<lambda>v. v" "\<lambda>v. v \<noteq> []"
proof
  fix p v w r w'
  assume v: "v \<noteq> []" and run: "WriteNode p v w = (r, w')"
  obtain o1 w1 where op: "retry_eintr (sys_open_node p) w = (o1, w1)" by fastforce
  show "wrote p v r w w'"
  proof (cases o1)
    case (Inl e)
    with retry_open_spec [OF op] run op v show ?thesis
      by (auto simp: WriteNode_def node_open_spec_def intro: wrote_open_failed)
  next
    case (Inr fd)
    obtain q w2 where wr: "retry_eintr (sys_write_node fd v) w1 = (q, w2)" by fastforce
    from retry_open_spec [OF op] Inr obtain n where fd: "fd = fresh_fd (fds w)"
      and w1: "w1 = w\<lparr>faults := drop n (faults w), fds := (fd, new_ofile NodeFile p) # fds w\<rparr>"
      by (auto simp: node_open_spec_def)
    have "node_write_spec p v q w1 w2"
      using retry_write_spec [OF _ wr, of "new_ofile NodeFile p"] by (simp add: w1)
    from write_tail [OF w1 [unfolded fd] this v] run op wr Inr show ?thesis
      by (auto simp: WriteNode_def fd)
  qed
qed

text \<open>The line \<open>write_int\<close> formats always fits its buffer of 24 bytes, as a C \<^verbatim>\<open>int\<close> has at most 10 digits.\<close>

lemma int_line_length:
  assumes "fits_s32 value"
  shows "length (int_line value) \<le> 12"
proof -
  have "nat value < 10 ^ Suc 9" "nat (- value) < 10 ^ Suc 9" using assms by (auto simp: fits_s32_def nat_less_iff)
  from this [THEN length_dec_of_nat] show ?thesis by (simp add: int_line_def dec_of_int_def)
qed

interpretation lights: node_writer write_int int_line fits_s32
proof
  fix p v w r w'
  assume v: "fits_s32 v" and run: "write_int p v w = (r, w')"
  have short: "\<not> 24 \<le> length (int_line v)" using int_line_length [OF v] by simp
  have ne: "int_line v \<noteq> []" by (simp add: int_line_def)
  obtain o1 w1 where op: "sys_open_node p w = (o1, w1)" by fastforce
  show "wrote p (int_line v) r w w'"
  proof (cases o1)
    case (Inl e)
    with open_node_spec [OF op] run op short ne show ?thesis
      by (auto simp: write_int_def node_open_spec_def Let_def intro: wrote_open_failed)
  next
    case (Inr fd)
    obtain q w2 where wr: "sys_write_node fd (int_line v) w1 = (q, w2)" by fastforce
    from open_node_spec [OF op] Inr obtain n where fd: "fd = fresh_fd (fds w)"
      and w1: "w1 = w\<lparr>faults := drop n (faults w), fds := (fd, new_ofile NodeFile p) # fds w\<rparr>"
      by (auto simp: node_open_spec_def)
    have "node_write_spec p (int_line v) q w1 w2"
      using write_node_spec [OF _ wr, of "new_ofile NodeFile p"] by (simp add: w1)
    from write_tail [OF w1 [unfolded fd] this ne] run op wr short Inr show ?thesis
      by (auto simp: write_int_def fd Let_def)
  qed
qed

end
