(* ===== verification/Lights.thy ===== *)
theory Lights
  imports Nodes
begin

text \<open>
  The lights HAL of \<^verbatim>\<open>lights/lights.c\<close>: the backlight and the single indicator LED that the
  battery, attention and notification lights share. The identifiers of the lights and the
  flash constant belong to the platform's header and are parameters.
\<close>

section \<open>State\<close>

record light_state =
  color :: u32
  flashMode :: int
  flashOnMS :: int
  flashOffMS :: int

record lights_abi =
  LIGHT_FLASH_NONE :: int
  LIGHT_ID_BACKLIGHT :: string
  LIGHT_ID_ATTENTION :: string
  LIGHT_ID_BATTERY :: string
  LIGHT_ID_NOTIFICATIONS :: string

record lights =
  g_attention :: light_state
  g_battery :: light_state
  g_notification :: light_state
  lworld :: world

definition BACKLIGHT_FILE :: path where
  "BACKLIGHT_FILE = ''/sys/class/backlight/pwm-backlight.0/brightness''"

definition INDICATOR_FILE :: path where
  "INDICATOR_FILE = ''/sys/class/leds/m86_led/brightness''"

definition M86_LED_MODE_CURRENT :: int where "M86_LED_MODE_CURRENT = 0x100"
definition M86_LED_MODE_BREATH :: int where "M86_LED_MODE_BREATH = 0x200"
definition M86_LED_MODE_TIMED_BLINK :: int where "M86_LED_MODE_TIMED_BLINK = 0x400"

text \<open>The zeroed static variables.\<close>

definition dark :: light_state where
  "dark = \<lparr>color = 0, flashMode = 0, flashOnMS = 0, flashOffMS = 0\<rparr>"

definition lights0 :: "world \<Rightarrow> lights" where
  "lights0 w = \<lparr>g_attention = dark, g_battery = dark, g_notification = dark, lworld = w\<rparr>"

section \<open>Operations\<close>

definition is_lit :: "light_state \<Rightarrow> bool" where
  "is_lit state \<longleftrightarrow> color state AND 0x00ffffff \<noteq> 0"

definition rgb_to_brightness :: "light_state \<Rightarrow> int" where
  "rgb_to_brightness state =
     (let blue = uint (color state AND 0xff);
          green = uint (drop_bit 8 (color state) AND 0xff);
          red = uint (drop_bit 16 (color state) AND 0xff);
          brightness = drop_bit 8 (77 * red + 150 * green + 29 * blue)
      in if brightness = 0 \<and> is_lit state then 1 else brightness)"

definition encode_indicator :: "lights_abi \<Rightarrow> light_state \<Rightarrow> bool \<Rightarrow> int" where
  "encode_indicator A state battery =
     (if \<not> is_lit state then 0
      else let brightness = rgb_to_brightness state;
               mode = (if flashMode state \<noteq> LIGHT_FLASH_NONE A \<and> flashOnMS state > 0 \<and> flashOffMS state > 0
                       then M86_LED_MODE_TIMED_BLINK
                       else if battery then M86_LED_MODE_BREATH else M86_LED_MODE_CURRENT)
           in mode OR brightness)"

text \<open>The light the indicator shows, and whether it is the battery's.\<close>

definition shown_light :: "lights \<Rightarrow> light_state \<times> bool" where
  "shown_light s =
     (if is_lit (g_notification s) then (g_notification s, False)
      else if is_lit (g_attention s) then (g_attention s, False)
      else (g_battery s, True))"

definition update_indicator_locked :: "lights_abi \<Rightarrow> lights \<Rightarrow> int \<times> lights" where
  "update_indicator_locked A s =
     (let (state, battery) = shown_light s;
          (r, w) = write_int INDICATOR_FILE (encode_indicator A state battery) (lworld s)
      in (r, s\<lparr>lworld := w\<rparr>))"

definition set_light_backlight :: "light_state \<Rightarrow> lights \<Rightarrow> int \<times> lights" where
  "set_light_backlight state s =
     (let (r, w) = write_int BACKLIGHT_FILE (rgb_to_brightness state) (lworld s) in (r, s\<lparr>lworld := w\<rparr>))"

definition set_light_attention :: "lights_abi \<Rightarrow> light_state \<Rightarrow> lights \<Rightarrow> int \<times> lights" where
  "set_light_attention A state s = update_indicator_locked A (s\<lparr>g_attention := state\<rparr>)"

definition set_light_battery :: "lights_abi \<Rightarrow> light_state \<Rightarrow> lights \<Rightarrow> int \<times> lights" where
  "set_light_battery A state s = update_indicator_locked A (s\<lparr>g_battery := state\<rparr>)"

definition set_light_notifications :: "lights_abi \<Rightarrow> light_state \<Rightarrow> lights \<Rightarrow> int \<times> lights" where
  "set_light_notifications A state s = update_indicator_locked A (s\<lparr>g_notification := state\<rparr>)"

text \<open>
  Opened lights live on the heap, each with the function stored in it; \<open>calloc\<close> is the address the
  allocator yields, if any.
\<close>

datatype light_fn = Backlight | Attention | Battery | Notifications

type_synonym light_heap = "nat \<rightharpoonup> light_fn"

definition light_named :: "lights_abi \<Rightarrow> string \<Rightarrow> light_fn option" where
  "light_named A name =
     (if name = LIGHT_ID_BACKLIGHT A then Some Backlight
      else if name = LIGHT_ID_ATTENTION A then Some Attention
      else if name = LIGHT_ID_BATTERY A then Some Battery
      else if name = LIGHT_ID_NOTIFICATIONS A then Some Notifications
      else None)"

definition open_lights :: "lights_abi \<Rightarrow> nat option \<Rightarrow> string \<Rightarrow> light_heap \<Rightarrow> (int \<times> nat option) \<times> light_heap" where
  "open_lights A calloc name h =
     (case light_named A name of
        None \<Rightarrow> ((neg EINVAL, None), h)
      | Some f \<Rightarrow> (case calloc of None \<Rightarrow> ((neg ENOMEM, None), h) | Some light \<Rightarrow> ((0, Some light), h(light \<mapsto> f))))"

definition close_lights :: "nat \<Rightarrow> light_heap \<Rightarrow> int \<times> light_heap" where
  "close_lights device h = (0, h(device := None))"

definition set_light :: "lights_abi \<Rightarrow> light_fn \<Rightarrow> light_state \<Rightarrow> lights \<Rightarrow> int \<times> lights" where
  "set_light A f state s =
     (case f of Backlight \<Rightarrow> set_light_backlight state s
      | Attention \<Rightarrow> set_light_attention A state s
      | Battery \<Rightarrow> set_light_battery A state s
      | Notifications \<Rightarrow> set_light_notifications A state s)"

section \<open>Lemmas\<close>

lemma and_ff: "uint (x AND 0xff :: u32) = uint x mod 256"
proof -
  have "(0xff :: u32) = mask 8" by (simp add: mask_eq_exp_minus_1)
  then have "x AND 0xff = take_bit 8 x" by (simp only: take_bit_eq_mask)
  then have "uint (x AND 0xff) = take_bit 8 (uint x)" by (simp only: unsigned_take_bit_eq)
  then show ?thesis by (simp add: take_bit_eq_mod)
qed

lemma uint_drop_bit: "uint (drop_bit n (x :: u32)) = uint x div 2 ^ n"
proof -
  have "take_bit 32 (uint x) = uint x" using uint_bounded [of x] uint_nonnegative [of x] by (simp add: take_bit_int_eq_self)
  then have "uint (drop_bit n x) = drop_bit n (uint x)" by (simp add: unsigned_drop_bit_eq)
  then show ?thesis by (simp only: drop_bit_eq_div)
qed

lemma colour_bytes:
  "rgb_to_brightness state =
     (let c = uint (color state); b = c mod 256; g = c div 256 mod 256; r = c div 65536 mod 256;
          brightness = (77 * r + 150 * g + 29 * b) div 256
      in if brightness = 0 \<and> is_lit state then 1 else brightness)"
proof -
  have "uint (drop_bit 8 (color state)) = uint (color state) div 256"
    "uint (drop_bit 16 (color state)) = uint (color state) div 65536"
    using uint_drop_bit [of 8 "color state"] uint_drop_bit [of 16 "color state"] by simp_all
  moreover have "drop_bit 8 i = i div 256" for i :: int by (simp add: drop_bit_eq_div)
  ultimately show ?thesis by (simp only: rgb_to_brightness_def and_ff Let_def)
qed

lemma is_lit_bytes:
  "is_lit state \<longleftrightarrow> uint (color state) mod 256 \<noteq> 0 \<or> uint (color state) div 256 mod 256 \<noteq> 0 \<or>
     uint (color state) div 65536 mod 256 \<noteq> 0"
proof -
  have "(0xffffff :: u32) = mask 24" by (simp add: mask_eq_exp_minus_1)
  then have "color state AND 0xffffff = take_bit 24 (color state)" by (simp only: take_bit_eq_mask)
  then have "uint (color state AND 0xffffff) = take_bit 24 (uint (color state))" by (simp only: unsigned_take_bit_eq)
  then have "uint (color state AND 0xffffff) = uint (color state) mod 16777216" by (simp add: take_bit_eq_mod)
  then have "is_lit state \<longleftrightarrow> uint (color state) mod 16777216 \<noteq> 0"
    unfolding is_lit_def by (metis uint_0_iff)
  moreover have "c mod 16777216 = 256 * (256 * (c div 65536 mod 256) + c div 256 mod 256) + c mod 256" for c :: int
    using zmod_zmult2_eq [of 65536 c 256] zmod_zmult2_eq [of 256 "c div 256" 256] zdiv_zmult2_eq [of 256 c 256]
    by simp
  moreover have "256 * (256 * r + g) + b = 0 \<longleftrightarrow> b = 0 \<and> g = 0 \<and> r = 0"
    if "0 \<le> b" "0 \<le> g" "0 \<le> r" for b g r :: int
    using that by auto
  ultimately show ?thesis by simp
qed

lemma brightness_range: "0 \<le> rgb_to_brightness state \<and> rgb_to_brightness state \<le> 255"
proof -
  have *: "0 \<le> (77 * r + 150 * g + 29 * b) div 256 \<and> (77 * r + 150 * g + 29 * b) div 256 \<le> 255"
    if "0 \<le> b" "b < 256" "0 \<le> g" "g < 256" "0 \<le> r" "r < 256" for b g r :: int
    using that by linarith
  show ?thesis unfolding colour_bytes Let_def
    using * [of "uint (color state) mod 256" "uint (color state) div 256 mod 256" "uint (color state) div 65536 mod 256"]
    by simp
qed

lemma brightness_zero: "rgb_to_brightness state = 0 \<longleftrightarrow> \<not> is_lit state"
proof -
  have "rgb_to_brightness state = 0" if "\<not> is_lit state"
    using that by (simp add: colour_bytes Let_def is_lit_bytes)
  then show ?thesis by (auto simp: rgb_to_brightness_def Let_def)
qed

text \<open>The mode bits and the brightness of an indicator value do not overlap.\<close>

lemma mode_or:
  assumes "0 \<le> b" "b \<le> 255" "m \<in> {0x100, 0x200, 0x400 :: int}"
  shows "m OR b = m + b"
proof -
  have "take_bit 8 b = b" using assms(1,2) by (simp add: take_bit_int_eq_self_iff)
  then have "m AND b = take_bit 8 m AND b" by (metis and.left_commute take_bit_and take_bit_eq_mask and.commute and.assoc)
  also have "take_bit 8 m = 0" using assms(3) by auto
  finally show ?thesis by (simp add: disjunctive_add_eq_or)
qed

lemma indicator_cases:
  "encode_indicator A state battery = 0 \<and> \<not> is_lit state \<or>
   is_lit state \<and> (\<exists>m \<in> {0x100, 0x200, 0x400}. encode_indicator A state battery = m + rgb_to_brightness state)"
  using brightness_range [of state]
  by (auto simp: encode_indicator_def Let_def mode_or M86_LED_MODE_CURRENT_def M86_LED_MODE_BREATH_def M86_LED_MODE_TIMED_BLINK_def)

lemma fits_values: "fits_s32 (rgb_to_brightness state)" "fits_s32 (encode_indicator A state battery)"
  using brightness_range [of state] indicator_cases [of A state battery] by (auto simp: fits_s32_def)

text \<open>
  The specification of the shared LED: what the indicator shows is determined by the last
  state set for each of the three lights.
\<close>

fun latest :: "light_fn \<Rightarrow> (light_fn \<times> light_state) list \<Rightarrow> light_state" where
  "latest f [] = dark"
| "latest f ((g, st) # calls) = (if g = f then st else latest f calls)"

definition indicator_spec :: "lights_abi \<Rightarrow> (light_fn \<times> light_state) list \<Rightarrow> int" where
  "indicator_spec A calls =
     (let history = rev calls in
      if is_lit (latest Notifications history) then encode_indicator A (latest Notifications history) False
      else if is_lit (latest Attention history) then encode_indicator A (latest Attention history) False
      else encode_indicator A (latest Battery history) True)"

definition lights_step :: "lights_abi \<Rightarrow> lights \<Rightarrow> light_fn \<times> light_state \<Rightarrow> lights" where
  "lights_step A s call = snd (set_light A (fst call) (snd call) s)"

definition indicator_value :: "lights_abi \<Rightarrow> lights \<Rightarrow> int" where
  "indicator_value A s = (case shown_light s of (state, battery) \<Rightarrow> encode_indicator A state battery)"

lemmas set_light_defs = set_light_def set_light_backlight_def set_light_attention_def set_light_battery_def
  set_light_notifications_def update_indicator_locked_def

lemma files_differ [simp]: "INDICATOR_FILE \<noteq> BACKLIGHT_FILE" "BACKLIGHT_FILE \<noteq> INDICATOR_FILE"
  by (simp_all add: INDICATOR_FILE_def BACKLIGHT_FILE_def)

text \<open>One call: the states it leaves, and the write it makes.\<close>

definition with_light :: "light_fn \<Rightarrow> light_state \<Rightarrow> lights \<Rightarrow> lights" where
  "with_light f state s =
     (case f of Backlight \<Rightarrow> s | Attention \<Rightarrow> s\<lparr>g_attention := state\<rparr>
      | Battery \<Rightarrow> s\<lparr>g_battery := state\<rparr> | Notifications \<Rightarrow> s\<lparr>g_notification := state\<rparr>)"

lemma set_light_write:
  "set_light A f state s =
     (let (p, v) = (if f = Backlight then (BACKLIGHT_FILE, rgb_to_brightness state)
                    else (INDICATOR_FILE, indicator_value A (with_light f state s)));
          (r, w) = write_int p v (lworld s)
      in (r, (with_light f state s)\<lparr>lworld := w\<rparr>))"
  by (cases f) (simp_all add: set_light_defs with_light_def indicator_value_def Let_def split: prod.split)

lemma fits_indicator: "fits_s32 (indicator_value A s)"
  by (simp add: indicator_value_def fits_values split: prod.split)

lemma indicator_value_lworld [simp]: "indicator_value A (s\<lparr>lworld := w\<rparr>) = indicator_value A s"
  by (simp add: indicator_value_def shown_light_def)

lemma latest_run:
  "g_notification (foldl (lights_step A) (lights0 w) calls) = latest Notifications (rev calls) \<and>
   g_attention (foldl (lights_step A) (lights0 w) calls) = latest Attention (rev calls) \<and>
   g_battery (foldl (lights_step A) (lights0 w) calls) = latest Battery (rev calls)"
proof (induction calls rule: rev_induct)
  case Nil
  then show ?case by (simp add: lights0_def)
next
  case (snoc call calls)
  obtain f st where c: "call = (f, st)" by fastforce
  from snoc show ?case unfolding c
    by (cases f) (simp_all add: lights_step_def set_light_write with_light_def Let_def split: prod.split)
qed

lemma indicator_refines:
  "indicator_value A (foldl (lights_step A) (lights0 w) calls) = indicator_spec A calls"
  using latest_run [of A w calls] by (simp add: indicator_value_def shown_light_def indicator_spec_def Let_def)

text \<open>
  The machine of \<open>set_light\<close> calls over nodes that take values whole and meet no fault: the
  LED, once set, shows the current indicator value.
\<close>

definition led_shows :: "lights_abi \<Rightarrow> lights \<Rightarrow> bool" where
  "led_shows A s \<longleftrightarrow> faults (lworld s) = [] \<and>
     node_value (lworld s) INDICATOR_FILE \<in> {None, Some (int_line (indicator_value A s))}"

lemma atomic_faultless: "faults w = [] \<Longrightarrow> atomic_nodes w"
  by (simp add: atomic_nodes_def)

lemma set_light_led:
  assumes "led_shows A s"
  shows "led_shows A (lights_step A s (f, state)) \<and>
    (f \<noteq> Backlight \<longrightarrow> node_value (lworld (lights_step A s (f, state))) INDICATOR_FILE =
       Some (int_line (indicator_value A (lights_step A s (f, state)))))"
proof -
  let ?p = "if f = Backlight then BACKLIGHT_FILE else INDICATOR_FILE"
  let ?v = "if f = Backlight then rgb_to_brightness state else indicator_value A (with_light f state s)"
  have v: "fits_s32 ?v" by (simp add: fits_values fits_indicator)
  have nf: "faults (lworld s) = []" using assms by (simp add: led_shows_def)
  obtain w where w: "write_int ?p ?v (lworld s) = (0, w)" "faults w = []"
    using lights.faultless [OF v nf, of ?p] by (metis prod.collapse)
  have val: "node_value w q = (if q = ?p then Some (int_line ?v) else node_value (lworld s) q)" for q
    using lights.value_after [OF v w(1) atomic_faultless [OF nf]] by simp
  have st: "lights_step A s (f, state) = (with_light f state s)\<lparr>lworld := w\<rparr>"
    using w(1) by (simp add: lights_step_def set_light_write Let_def split: if_splits)
  show ?thesis using assms w(2) val unfolding st
    by (cases "f = Backlight") (auto simp: led_shows_def with_light_def)
qed

interpretation led: machine "lights_step A" "\<lambda>s. \<exists>w. s = lights0 w \<and> faults w = [] \<and> stores w = []" "led_shows A"
  for A
proof
  show "led_shows A s" if "\<exists>w. s = lights0 w \<and> faults w = [] \<and> stores w = []" for s
    using that by (auto simp: led_shows_def lights0_def node_value_def)
  show "led_shows A (lights_step A s e)" if "led_shows A s" for s e
    using set_light_led [OF that, of "fst e" "snd e"] by simp
qed

text \<open>Constants to evaluate examples with.\<close>

definition demo_abi :: lights_abi where
  "demo_abi = \<lparr>LIGHT_FLASH_NONE = 0, LIGHT_ID_BACKLIGHT = ''backlight'', LIGHT_ID_ATTENTION = ''attention'',
      LIGHT_ID_BATTERY = ''battery'', LIGHT_ID_NOTIFICATIONS = ''notifications''\<rparr>"

section \<open>Properties\<close>

text \<open>
  Brightness: the weighted sum of the colour channels stays within the eight bits the
  panel and the LED take, for every 32-bit colour whatever its alpha byte, and it is 0 only
  for a colour that is off, so that a dim colour stays visible.
\<close>

theorem brightness_bounds:
  "0 \<le> rgb_to_brightness state \<and> rgb_to_brightness state \<le> 255 \<and>
   (rgb_to_brightness state = 0 \<longleftrightarrow> \<not> is_lit state)"
  using brightness_range brightness_zero by blast

text \<open>
  The value sent to the LED decodes: bits 0 to 7 are the brightness and bits 8 to 11
  the mode, timed blinking exactly for a flashing light with both times positive, breathing
  only for the battery; a dark light is the value 0.
\<close>

theorem indicator_decodes:
  "let v = encode_indicator A state battery in
   (\<not> is_lit state \<longrightarrow> v = 0) \<and>
   (is_lit state \<longrightarrow> v mod 256 = rgb_to_brightness state \<and>
      v div 256 = (if flashMode state \<noteq> LIGHT_FLASH_NONE A \<and> flashOnMS state > 0 \<and> flashOffMS state > 0 then 4
                   else if battery then 2 else 1))"
proof -
  have b: "0 \<le> rgb_to_brightness state" "rgb_to_brightness state \<le> 255" using brightness_range by auto
  have *: "(256 * k + b) mod 256 = b" "(256 * k + b) div 256 = k" if "0 \<le> b" "b \<le> 255" for k b :: int
    using that by simp_all
  from * [OF b, of 1] * [OF b, of 2] * [OF b, of 4]
  show ?thesis using b
    by (simp add: encode_indicator_def Let_def mode_or M86_LED_MODE_CURRENT_def M86_LED_MODE_BREATH_def
        M86_LED_MODE_TIMED_BLINK_def)
qed

theorem indicator_decodes_witness:
  "encode_indicator demo_abi (dark\<lparr>color := 0xff0000ff\<rparr>) True div 256 = 2"
  using indicator_decodes [of demo_abi "dark\<lparr>color := 0xff0000ff\<rparr>" True]
  by (simp add: Let_def is_lit_def dark_def)

text \<open>
  Opening and closing balance: a light that was opened carries the function of its name and closing it gives the
  heap back as it was; an open that fails leaves the heap alone and hands out nothing.
\<close>

theorem lights_open_close:
  assumes "open_lights A calloc name h = ((r, device), h')" and "\<And>a. calloc = Some a \<Longrightarrow> h a = None"
  shows "case device of
      None \<Rightarrow> r < 0 \<and> h' = h
    | Some a \<Rightarrow> r = 0 \<and> h' a = light_named A name \<and> h' a \<noteq> None \<and> close_lights a h' = (0, h)"
  using assms by (auto simp: open_lights_def close_lights_def fun_upd_idem split: option.splits)

text \<open>
  C10: The shared LED implements its specification: after any sequence of calls for the four
  lights that ends in one for the indicator, on nodes that meet no fault, the LED holds the
  value of the notification light last set if it is lit, else of the attention light, else
  of the battery light; a notification is never hidden by the charging light.
\<close>

theorem led_implements_priority:
  assumes "f \<noteq> Backlight" and "faults w = []" and "stores w = []"
  shows "node_value (lworld (foldl (lights_step A) (lights0 w) (calls @ [(f, state)]))) INDICATOR_FILE =
    Some (int_line (indicator_spec A (calls @ [(f, state)])))"
proof -
  have "led_shows A (foldl (lights_step A) (lights0 w) calls)"
    using assms(2,3) by (intro led.reach_inv) blast
  from set_light_led [OF this, of f state] assms(1) show ?thesis
    using indicator_refines [of A w "calls @ [(f, state)]"] by simp
qed

theorem led_implements_priority_witness:
  "node_value (lworld (foldl (lights_step demo_abi) (lights0 idle_world)
     ([(Notifications, dark\<lparr>color := 0xff00ff00\<rparr>)] @ [(Battery, dark\<lparr>color := 0xffff0000\<rparr>)]))) INDICATOR_FILE =
   Some (int_line (encode_indicator demo_abi (dark\<lparr>color := 0xff00ff00\<rparr>) False))"
  using led_implements_priority [of Battery idle_world demo_abi "[(Notifications, dark\<lparr>color := 0xff00ff00\<rparr>)]"
      "dark\<lparr>color := 0xffff0000\<rparr>"]
  by (simp add: idle_world_def indicator_spec_def is_lit_def dark_def Let_def)

end
