(* ===== verification/Power_Legacy.thy ===== *)
theory Power_Legacy
  imports Nodes
begin

text \<open>
  The legacy power HAL of \<^verbatim>\<open>power/PowerHAL.c\<close>: the low-power state and the nodes of the CPU
  hotplug profile and of the boost pulse. The results of the writes are dropped, as in the code.
\<close>

section \<open>State and operations\<close>

definition CPU0_BOOSTPULSE :: path where
  "CPU0_BOOSTPULSE = ''/sys/devices/system/cpu/cpu0/cpufreq/interactive/boostpulse''"
definition CPU4_BOOSTPULSE :: path where
  "CPU4_BOOSTPULSE = ''/sys/devices/system/cpu/cpu4/cpufreq/interactive/boostpulse''"
definition CPU0_BOOST_DURATION :: path where
  "CPU0_BOOST_DURATION = ''/sys/devices/system/cpu/cpu0/cpufreq/interactive/boostpulse_duration''"
definition CPU4_BOOST_DURATION :: path where
  "CPU4_BOOST_DURATION = ''/sys/devices/system/cpu/cpu4/cpufreq/interactive/boostpulse_duration''"
definition HOTPLUG_PROFILE :: path where
  "HOTPLUG_PROFILE = ''/sys/module/exynos_march_cpu_hotplug/parameters/current_profile_no''"
definition HOTPLUG_BIG_CLUSTER :: path where
  "HOTPLUG_BIG_CLUSTER = ''/sys/module/exynos_march_cpu_hotplug/parameters/cl1_booster''"
definition HOTPLUG_BIG_MINIMUM :: path where
  "HOTPLUG_BIG_MINIMUM = ''/sys/module/exynos_march_cpu_hotplug/parameters/min_cpu_boosted''"

definition PROFILE_BALANCED :: string where "PROFILE_BALANCED = ''1''"
definition PROFILE_ECO :: string where "PROFILE_ECO = ''2''"
definition BOOST_DURATION_US :: string where "BOOST_DURATION_US = ''400000''"

record m86_power =
  low_power :: bool
  mworld :: world

datatype power_hint = POWER_HINT_INTERACTION | POWER_HINT_LOW_POWER | POWER_HINT_other

definition m86_power_init :: "m86_power \<Rightarrow> m86_power" where
  "m86_power_init m =
     m\<lparr>low_power := False,
       mworld := write_all write_node
         [(CPU0_BOOST_DURATION, BOOST_DURATION_US), (CPU4_BOOST_DURATION, BOOST_DURATION_US),
          (HOTPLUG_PROFILE, PROFILE_BALANCED), (HOTPLUG_BIG_CLUSTER, ''1''), (HOTPLUG_BIG_MINIMUM, ''1'')] (mworld m)\<rparr>"

definition m86_set_interactive :: "int \<Rightarrow> m86_power \<Rightarrow> m86_power" where
  "m86_set_interactive on m = m"

definition m86_set_low_power :: "bool \<Rightarrow> m86_power \<Rightarrow> m86_power" where
  "m86_set_low_power enabled m =
     (if low_power m = enabled then m
      else m\<lparr>mworld := write_all write_node
               [(HOTPLUG_PROFILE, if enabled then PROFILE_ECO else PROFILE_BALANCED),
                (HOTPLUG_BIG_CLUSTER, if enabled then ''0'' else ''1''),
                (HOTPLUG_BIG_MINIMUM, if enabled then ''0'' else ''1'')] (mworld m),
             low_power := enabled\<rparr>)"

text \<open>What an interaction hint decides while it holds the lock: the writes it makes after releasing it.\<close>

definition interaction_pulse :: "m86_power \<Rightarrow> (path \<times> string) list" where
  "interaction_pulse m = (if \<not> low_power m then [(CPU0_BOOSTPULSE, ''1''), (CPU4_BOOSTPULSE, ''1'')] else [])"

text \<open>\<open>data\<close>: the integer the hint points to, \<open>None\<close> a null pointer.\<close>

definition m86_power_hint :: "power_hint \<Rightarrow> int option \<Rightarrow> m86_power \<Rightarrow> m86_power" where
  "m86_power_hint hint data m =
     (case hint of
        POWER_HINT_INTERACTION \<Rightarrow>
          m\<lparr>mworld := write_all write_node (interaction_pulse m) (mworld m)\<rparr>
      | POWER_HINT_LOW_POWER \<Rightarrow> m86_set_low_power (case data of None \<Rightarrow> False | Some v \<Rightarrow> v \<noteq> 0) m
      | POWER_HINT_other \<Rightarrow> m)"

section \<open>Lemmas\<close>

text \<open>
  The HAL under concurrent calls. An interaction hint drops the lock before it writes, so its
  writes are made one by one at any later time: \<open>pulsing\<close> holds, per such call, the writes
  still to come. A low-power hint keeps the lock throughout and is one step.
\<close>

record legacy_sys =
  hal :: m86_power
  pulsing :: "(path \<times> string) list list"

datatype legacy_event = Hint power_hint "int option" | PulseWrite nat

definition legacy_step :: "legacy_sys \<Rightarrow> legacy_event \<Rightarrow> legacy_sys" where
  "legacy_step s e = (case e of
     Hint h data \<Rightarrow>
       (if h = POWER_HINT_INTERACTION then s\<lparr>pulsing := pulsing s @ [interaction_pulse (hal s)]\<rparr>
        else s\<lparr>hal := m86_power_hint h data (hal s)\<rparr>)
   | PulseWrite k \<Rightarrow>
       (if k < length (pulsing s)
        then (case pulsing s ! k of
                [] \<Rightarrow> s
              | (p, v) # ws \<Rightarrow> s\<lparr>hal := (hal s)\<lparr>mworld := snd (write_node p v (mworld (hal s)))\<rparr>, pulsing := (pulsing s)[k := ws]\<rparr>)
        else s))"

definition legacy_start :: "m86_power \<Rightarrow> legacy_sys" where
  "legacy_start m = \<lparr>hal = m86_power_init m, pulsing = []\<rparr>"

lemmas legacy_paths =
  CPU0_BOOSTPULSE_def CPU4_BOOSTPULSE_def CPU0_BOOST_DURATION_def CPU4_BOOST_DURATION_def
  HOTPLUG_PROFILE_def HOTPLUG_BIG_CLUSTER_def HOTPLUG_BIG_MINIMUM_def

lemma legacy_values [simp]: "PROFILE_BALANCED \<noteq> []" "PROFILE_ECO \<noteq> []" "BOOST_DURATION_US \<noteq> []"
  by (simp_all add: PROFILE_BALANCED_def PROFILE_ECO_def BOOST_DURATION_US_def)

lemma node_value_append:
  "node_value w p = map_of (rev (stores w)) p"
  "stores w' = stores w @ xs \<Longrightarrow> node_value w' p = (case map_of (rev xs) p of None \<Rightarrow> node_value w p | Some v \<Rightarrow> Some v)"
  by (auto simp: node_value_def map_add_def split: option.split)

text \<open>The hotplug nodes agree with the recorded mode, on nodes that meet no fault.\<close>

definition profile_shown :: "m86_power \<Rightarrow> bool" where
  "profile_shown m \<longleftrightarrow> faults (mworld m) = [] \<and>
     node_value (mworld m) HOTPLUG_PROFILE = Some (if low_power m then PROFILE_ECO else PROFILE_BALANCED) \<and>
     node_value (mworld m) HOTPLUG_BIG_CLUSTER = Some (if low_power m then ''0'' else ''1'') \<and>
     node_value (mworld m) HOTPLUG_BIG_MINIMUM = Some (if low_power m then ''0'' else ''1'')"

lemma write_all_value:
  assumes "faults w = []" and "\<forall>(p, v) \<in> set pvs. v \<noteq> []"
  shows "faults (write_all write_node pvs w) = []"
    "node_value (write_all write_node pvs w) q = (case map_of (rev pvs) q of None \<Rightarrow> node_value w q | Some v \<Rightarrow> Some v)"
  using legacy.write_all_faultless [OF assms] by (simp_all add: node_value_append(2))

lemma init_shown: "faults (mworld m) = [] \<Longrightarrow> profile_shown (m86_power_init m)"
  by (simp add: profile_shown_def m86_power_init_def write_all_value) (simp add: legacy_paths)

lemma hint_shown:
  assumes "profile_shown m"
  shows "profile_shown (m86_power_hint hint data m)"
proof -
  have nf: "faults (mworld m) = []" using assms by (simp add: profile_shown_def)
  have "profile_shown (m86_set_low_power b m)" for b
    using assms by (simp add: m86_set_low_power_def profile_shown_def write_all_value [OF nf]) (simp add: legacy_paths)
  moreover have "profile_shown (m\<lparr>mworld := write_all write_node (interaction_pulse m) (mworld m)\<rparr>)"
    using assms by (simp add: interaction_pulse_def profile_shown_def write_all_value [OF nf]) (simp add: legacy_paths)
  ultimately show ?thesis using assms by (simp add: m86_power_hint_def split: power_hint.split)
qed

definition pulses_only :: "(path \<times> string) list \<Rightarrow> bool" where
  "pulses_only ws \<longleftrightarrow> set ws \<subseteq> {(CPU0_BOOSTPULSE, ''1''), (CPU4_BOOSTPULSE, ''1'')}"

definition legacy_ok :: "legacy_sys \<Rightarrow> bool" where
  "legacy_ok s \<longleftrightarrow> profile_shown (hal s) \<and> list_all pulses_only (pulsing s)"

lemma pulse_write_shown:
  assumes "profile_shown m" and "p \<in> {CPU0_BOOSTPULSE, CPU4_BOOSTPULSE}"
  shows "profile_shown (m\<lparr>mworld := snd (write_node p ''1'' (mworld m))\<rparr>)"
proof -
  have nf: "faults (mworld m) = []" using assms(1) by (simp add: profile_shown_def)
  have w: "snd (write_node p ''1'' (mworld m)) = write_all write_node [(p, ''1'')] (mworld m)" by (simp add: write_all_def)
  show ?thesis unfolding w using assms
    by (auto simp: profile_shown_def write_all_value [OF nf]) (simp_all add: legacy_paths)
qed

lemma legacy_step_ok:
  assumes "legacy_ok s"
  shows "legacy_ok (legacy_step s e)"
proof (cases e)
  case (Hint h data)
  with assms hint_shown [of "hal s" h data] show ?thesis
    by (auto simp: legacy_ok_def legacy_step_def interaction_pulse_def pulses_only_def)
next
  case (PulseWrite k)
  show ?thesis
  proof (cases "k < length (pulsing s) \<and> pulsing s ! k \<noteq> []")
    case True
    then obtain p v ws where k: "k < length (pulsing s)" "pulsing s ! k = (p, v) # ws" by (auto simp: neq_Nil_conv)
    with assms have "pulses_only ((p, v) # ws)" by (metis legacy_ok_def list_all_length)
    then have pv: "v = ''1''" "p \<in> {CPU0_BOOSTPULSE, CPU4_BOOSTPULSE}" "pulses_only ws" by (auto simp: pulses_only_def)
    have "list_all pulses_only ((pulsing s)[k := ws])"
      using assms pv(3) set_update_subset_insert [of "pulsing s" k ws] by (auto simp: legacy_ok_def list_all_iff)
    with pulse_write_shown [OF _ pv(2)] assms k pv(1) PulseWrite show ?thesis by (simp add: legacy_ok_def legacy_step_def)
  next
    case False
    with assms PulseWrite show ?thesis by (auto simp: legacy_step_def)
  qed
qed

lemma legacy_start_ok: "faults (mworld m) = [] \<Longrightarrow> legacy_ok (legacy_start m)"
  by (simp add: legacy_start_def legacy_ok_def init_shown)

interpretation legacy_hal: machine legacy_step "\<lambda>s. \<exists>m. s = legacy_start m \<and> faults (mworld m) = []" legacy_ok
  by unfold_locales (auto intro: legacy_start_ok legacy_step_ok)

text \<open>The mode after a sequence of events: the last low-power hint decides.\<close>

fun last_low_power :: "legacy_event list \<Rightarrow> bool" where
  "last_low_power [] = False"
| "last_low_power (Hint h data # es) =
     (if h = POWER_HINT_LOW_POWER then (case data of None \<Rightarrow> False | Some v \<Rightarrow> v \<noteq> 0) else last_low_power es)"
| "last_low_power (PulseWrite k # es) = last_low_power es"

lemma low_power_run: "low_power (hal (foldl legacy_step (legacy_start m) es)) = last_low_power (rev es)"
proof (induction es rule: rev_induct)
  case Nil
  then show ?case by (simp add: legacy_start_def m86_power_init_def)
next
  case (snoc e es)
  show ?case
  proof (cases e)
    case (Hint h data)
    with snoc show ?thesis by (cases h) (simp_all add: legacy_step_def m86_power_hint_def m86_set_low_power_def)
  next
    case (PulseWrite k)
    with snoc show ?thesis by (simp add: legacy_step_def split: list.split prod.split)
  qed
qed

section \<open>Properties\<close>

text \<open>
  C39: Whatever hints arrive after initialisation, and however the pulse writes of interaction
  hints, which are made without the lock, fall between them, on nodes that meet no fault the hotplug
  profile and the two big-cluster nodes hold the values of the mode the last low-power hint
  asked for (a null pointer counts as off).
\<close>

theorem legacy_profile_follows_hints:
  assumes "faults (mworld m) = []"
  shows "let t = mworld (hal (foldl legacy_step (legacy_start m) events)); eco = last_low_power (rev events) in
    node_value t HOTPLUG_PROFILE = Some (if eco then PROFILE_ECO else PROFILE_BALANCED) \<and>
    node_value t HOTPLUG_BIG_CLUSTER = Some (if eco then ''0'' else ''1'') \<and>
    node_value t HOTPLUG_BIG_MINIMUM = Some (if eco then ''0'' else ''1'')"
proof -
  have "legacy_ok (foldl legacy_step (legacy_start m) events)"
    using assms by (intro legacy_hal.reach_inv) blast
  then show ?thesis using low_power_run [of m events] by (simp add: legacy_ok_def profile_shown_def Let_def)
qed

theorem legacy_profile_follows_hints_witness:
  "node_value (mworld (hal (foldl legacy_step (legacy_start \<lparr>low_power = False, mworld = idle_world\<rparr>)
     [Hint POWER_HINT_INTERACTION None, PulseWrite 0, Hint POWER_HINT_LOW_POWER (Some 1), PulseWrite 0]))) HOTPLUG_PROFILE = Some PROFILE_ECO"
  using legacy_profile_follows_hints
    [of "\<lparr>low_power = False, mworld = idle_world\<rparr>" "[Hint POWER_HINT_INTERACTION None, PulseWrite 0, Hint POWER_HINT_LOW_POWER (Some 1), PulseWrite 0]"]
  by (simp add: idle_world_def Let_def)

text \<open>
  A refused change of mode is never made up for: the results of the three writes are dropped and the new mode is
  recorded, so that the same hint sent again does nothing, and the nodes keep the values of the old mode
  until the opposite hint has been sent.
\<close>

theorem low_power_not_retried:
  "low_power (m86_set_low_power enabled m) = enabled \<and>
   m86_power_hint POWER_HINT_LOW_POWER (Some (if enabled then 1 else 0)) (m86_set_low_power enabled m) = m86_set_low_power enabled m"
  by (simp add: m86_power_hint_def m86_set_low_power_def)

text \<open>
  An interaction hint pulses both clusters once when the device is not in low power and
  writes nothing at all when it is, and no hint leaves a descriptor open, whatever the faults.
\<close>

theorem interaction_pulses:
  "fds (mworld (m86_power_hint hint data m)) = fds (mworld m) \<and>
   (if low_power m then m86_power_hint POWER_HINT_INTERACTION data m = m
    else faults (mworld m) = [] \<longrightarrow> stores (mworld (m86_power_hint POWER_HINT_INTERACTION data m)) =
      stores (mworld m) @ [(CPU0_BOOSTPULSE, ''1''), (CPU4_BOOSTPULSE, ''1'')])"
proof -
  have "fds (mworld (m86_power_hint hint data m)) = fds (mworld m)"
    by (simp add: m86_power_hint_def m86_set_low_power_def interaction_pulse_def legacy.write_all_fds split: power_hint.split)
  then show ?thesis
    using legacy.write_all_faultless [of "mworld m" "[(CPU0_BOOSTPULSE, ''1''), (CPU4_BOOSTPULSE, ''1'')]"]
    by (auto simp: m86_power_hint_def interaction_pulse_def write_all_def)
qed

theorem interaction_pulses_witness:
  "stores (mworld (m86_power_hint POWER_HINT_INTERACTION None \<lparr>low_power = False, mworld = idle_world\<rparr>)) =
     [(CPU0_BOOSTPULSE, ''1''), (CPU4_BOOSTPULSE, ''1'')]"
  using interaction_pulses [of POWER_HINT_INTERACTION None "\<lparr>low_power = False, mworld = idle_world\<rparr>"]
  by (simp add: idle_world_def)

end
