(* ===== verification/Power_Aidl.thy ===== *)
theory Power_Aidl
  imports Nodes
begin

text \<open>
  The AIDL power HAL of \<^verbatim>\<open>power/Power.cpp\<close> and \<^verbatim>\<open>power/Power.h\<close>: boosts with deadlines, the CPU
  frequency floor held through open descriptors, the hotplug profile and the two GPU locks.
  Every operation runs under the lock of the class, so operations and iterations of the
  boost worker are atomic steps over one state; where the worker waits on the condition variable is part of
  it. Time is the reading of the steady clock in
  nanoseconds; each reading advances it by an arbitrary amount that the state scripts.
\<close>

section \<open>State\<close>

text \<open>
  Where the thread of \<open>BoostWorker\<close> stands between the steps: awake and about to take the lock, or waiting on
  \<open>boost_cv_\<close>, up to a moment of the steady clock or, with \<open>None\<close>, until it is notified.
\<close>

datatype boost_thread = NotStarted | Awake | Waiting "int option" | Finished

record power =
  interactive :: bool
  display_inactive :: bool
  eco :: bool
  profile_applied :: bool
  sustained_performance :: bool
  expensive_rendering :: bool
  applied_gpu_floor :: "string option"
  applied_gpu_ceiling :: "string option"
  cpu_floor_fds :: "nat option list"
  cpu_floor_ready :: bool
  foreground_boost :: int
  base_boost :: int
  active_boost :: int
  interaction_ms :: int
  display_ms :: int
  launch_ms :: int
  applied_foreground :: int
  config_valid :: bool
  boost_deadlines :: "int list"
  stop_boost :: bool
  boost_worker :: boost_thread
  applied_boost :: int
  boost_requests :: u32
  boost_errors :: u32
  clock :: int
  ticks :: "nat list"
  pworld :: world

definition kTopAppBoost :: path where "kTopAppBoost = ''/dev/stune/top-app/schedtune.boost''"
definition kForegroundBoost :: path where "kForegroundBoost = ''/dev/stune/foreground/schedtune.boost''"
definition kHotplugProfile :: path where
  "kHotplugProfile = ''/sys/module/exynos_march_cpu_hotplug/parameters/current_profile_no''"
definition kGpuDvfsMinLock :: path where "kGpuDvfsMinLock = ''/sys/devices/14ac0000.mali/dvfs_min_lock''"
definition kGpuDvfsMaxLock :: path where "kGpuDvfsMaxLock = ''/sys/devices/14ac0000.mali/dvfs_max_lock''"
definition kCpuFloorPaths :: "path list" where
  "kCpuFloorPaths = [''/dev/cluster0_freq_min'', ''/dev/cluster1_freq_min'']"
definition kCpuBoostFloorKHz :: int where "kCpuBoostFloorKHz = 1200000"
definition kProfileHigh :: string where "kProfileHigh = ''0''"
definition kProfileEco :: string where "kProfileEco = ''2''"
definition kGpuUnlock :: string where "kGpuUnlock = ''0''"
definition kGpuFloorRendering :: string where "kGpuFloorRendering = ''420''"
definition kGpuCeilingLimited :: string where "kGpuCeilingLimited = ''544''"
definition kConfigPath :: path where "kConfigPath = ''/vendor/etc/m86-schedtune.conf''"

text \<open>The member initialisers of \<^verbatim>\<open>Power.h\<close>; the empty time point is 0.\<close>

definition power0 :: "int \<Rightarrow> nat list \<Rightarrow> world \<Rightarrow> power" where
  "power0 now ts w =
     \<lparr>interactive = True, display_inactive = False, eco = False, profile_applied = False,
      sustained_performance = False, expensive_rendering = False, applied_gpu_floor = None,
      applied_gpu_ceiling = None, cpu_floor_fds = [None, None], cpu_floor_ready = True,
      foreground_boost = 10, base_boost = 15, active_boost = 30, interaction_ms = 500, display_ms = 120,
      launch_ms = 1000, applied_foreground = -1, config_valid = False, boost_deadlines = [0, 0, 0],
      stop_boost = False, boost_worker = NotStarted, applied_boost = -1, boost_requests = 0, boost_errors = 0,
      clock = now, ticks = ts, pworld = w\<rparr>"

text \<open>\<^verbatim>\<open>Clock::now()\<close>: the steady clock never goes back.\<close>

definition clock_now :: "power \<Rightarrow> int \<times> power" where
  "clock_now p =
     (case ticks p of [] \<Rightarrow> (clock p, p)
      | t # ts \<Rightarrow> (clock p + int t, p\<lparr>clock := clock p + int t, ticks := ts\<rparr>))"

definition milliseconds :: "int \<Rightarrow> int" where
  "milliseconds ms = ms * 1000000"

section \<open>Configuration\<close>

text \<open>
  \<^verbatim>\<open>fscanf\<close> with a sequence of \<^verbatim>\<open>%d\<close> and a final \<^verbatim>\<open>%c\<close>: it stops at the first conversion that fails.
\<close>

fun scan_ints :: "(int \<Rightarrow> int) \<Rightarrow> nat \<Rightarrow> string \<Rightarrow> int list \<times> string" where
  "scan_ints outside 0 s = ([], s)"
| "scan_ints outside (Suc n) s =
     (case scan_int outside s of
        None \<Rightarrow> ([], s)
      | Some (v, rest) \<Rightarrow> (let (vs, r) = scan_ints outside n rest in (v # vs, r)))"

text \<open>
  What a stdio stream on an open file delivers: blocks up to the end of the file or the first call that
  fails, which \<^verbatim>\<open>fscanf\<close> sees as the end of its input. Every block but the last brings a byte, so one
  call more than the file has bytes always reaches the end. The library may stop at the block that decides its
  conversions; what it has read by then decides the result just the same.
\<close>

fun read_stream :: "nat \<Rightarrow> nat \<Rightarrow> world \<Rightarrow> byte list \<times> world" where
  "read_stream fd 0 w = ([], w)"
| "read_stream fd (Suc n) w =
     (case sys_read fd 4096 w of
        (Inl e, w1) \<Rightarrow> ([], w1)
      | (Inr bs, w1) \<Rightarrow>
          if bs = [] then ([], w1) else (let (rest, w2) = read_stream fd n w1 in (bs @ rest, w2)))"

definition config_blocks :: "world \<Rightarrow> nat" where
  "config_blocks w = (case files w kConfigPath of None \<Rightarrow> 1 | Some content \<Rightarrow> Suc (length content))"

definition config_chars :: "byte list \<Rightarrow> string" where
  "config_chars bs = map (\<lambda>b. char_of (unat b)) bs"

definition LoadBoostConfigLocked :: "(int \<Rightarrow> int) \<Rightarrow> power \<Rightarrow> power" where
  "LoadBoostConfigLocked outside p0 =
     (case sys_open_rd kConfigPath (pworld p0) of
        (Inl e, w1) \<Rightarrow> p0\<lparr>pworld := w1\<rparr>
      | (Inr fp, w1) \<Rightarrow>
          (let (contents, w2) = read_stream fp (config_blocks w1) w1;
               (vs, rest) = scan_ints outside 6 (config_chars contents);
               count = (if length vs < 6 then length vs else if dropWhile is_space rest = [] then 6 else 7);
               p = p0\<lparr>pworld := snd (sys_close fp w2)\<rparr>
           in if count \<noteq> 6 then p
              else let fg = vs ! 0; base = vs ! 1; act = vs ! 2; inter = vs ! 3; disp = vs ! 4; launch = vs ! 5
                   in if fg < 0 \<or> fg > 50 \<or> base < 0 \<or> base > 50 \<or> act < base \<or> act > 50 \<or>
                         inter < 40 \<or> inter > 2000 \<or> disp < 40 \<or> disp > 2000 \<or> launch < 40 \<or> launch > 2000
                      then p
                      else p\<lparr>foreground_boost := fg, base_boost := base, active_boost := act,
                             interaction_ms := inter, display_ms := disp, launch_ms := launch, config_valid := True\<rparr>))"

section \<open>GPU locks and profile\<close>

definition gpu_floor :: "power \<Rightarrow> string" where
  "gpu_floor p = (if interactive p \<and> \<not> display_inactive p \<and> expensive_rendering p then kGpuFloorRendering else kGpuUnlock)"

definition gpu_ceiling :: "power \<Rightarrow> string" where
  "gpu_ceiling p = (if eco p \<or> sustained_performance p then kGpuCeilingLimited else kGpuUnlock)"

definition ApplyGpuFloorLocked :: "power \<Rightarrow> power" where
  "ApplyGpuFloorLocked p =
     (if applied_gpu_floor p = None \<or> applied_gpu_floor p \<noteq> Some (gpu_floor p)
      then let (r, w) = WriteNode kGpuDvfsMinLock (gpu_floor p) (pworld p); p1 = p\<lparr>pworld := w\<rparr>
           in if r = 0 then p1\<lparr>applied_gpu_floor := Some (gpu_floor p)\<rparr> else p1
      else p)"

definition ApplyGpuCeilingLocked :: "power \<Rightarrow> power" where
  "ApplyGpuCeilingLocked p =
     (if applied_gpu_ceiling p = None \<or> applied_gpu_ceiling p \<noteq> Some (gpu_ceiling p)
      then let (r, w) = WriteNode kGpuDvfsMaxLock (gpu_ceiling p) (pworld p); p1 = p\<lparr>pworld := w\<rparr>
           in if r = 0 then p1\<lparr>applied_gpu_ceiling := Some (gpu_ceiling p)\<rparr> else p1
      else p)"

definition ApplyPowerProfileLocked :: "bool \<Rightarrow> power \<Rightarrow> power" where
  "ApplyPowerProfileLocked low_power p =
     (let (profile_error, w) = WriteNode kHotplugProfile (if low_power then kProfileEco else kProfileHigh) (pworld p)
      in ApplyGpuFloorLocked (ApplyGpuCeilingLocked
           (p\<lparr>pworld := w, eco := low_power, profile_applied := (profile_error = 0)\<rparr>)))"

section \<open>CPU floor\<close>

text \<open>The native binary \<^verbatim>\<open>s32\<close> the PM QoS node takes.\<close>

definition floor_bytes :: string where
  "floor_bytes = map (\<lambda>b. char_of (unat b)) (le_bytes 4 (nat kCpuBoostFloorKHz))"

definition release_floors :: "power \<Rightarrow> power" where
  "release_floors p =
     p\<lparr>pworld := fold (\<lambda>fd w. case fd of None \<Rightarrow> w | Some n \<Rightarrow> snd (sys_close n w)) (cpu_floor_fds p) (pworld p),
       cpu_floor_fds := map (\<lambda>fd. None) (cpu_floor_fds p)\<rparr>"

text \<open>The acquiring loop from index \<open>i\<close>: a failure counts an error and leaves the loop.\<close>

fun acquire_floors :: "nat list \<Rightarrow> power \<Rightarrow> power" where
  "acquire_floors [] p = p"
| "acquire_floors (i # is) p =
     (if cpu_floor_fds p ! i \<noteq> None then acquire_floors is p
      else case retry_eintr (sys_open_node (kCpuFloorPaths ! i)) (pworld p) of
        (Inl e, w) \<Rightarrow> p\<lparr>pworld := w, boost_errors := boost_errors p + 1\<rparr>
      | (Inr fd, w) \<Rightarrow>
          (case retry_eintr (sys_write_node fd floor_bytes) w of (written, w1) \<Rightarrow>
             if written \<noteq> Inr (length floor_bytes)
             then p\<lparr>pworld := snd (sys_close fd w1), boost_errors := boost_errors p + 1\<rparr>
             else acquire_floors is (p\<lparr>pworld := w1, cpu_floor_fds := (cpu_floor_fds p)[i := Some fd]\<rparr>)))"

definition ApplyCpuFloorLocked :: "bool \<Rightarrow> power \<Rightarrow> power" where
  "ApplyCpuFloorLocked active p =
     (if \<not> active then (release_floors p)\<lparr>cpu_floor_ready := True\<rparr>
      else let p1 = acquire_floors [0..<length (cpu_floor_fds p)] p;
               ready = (cpu_floor_fds p1 ! 0 \<noteq> None \<and> cpu_floor_fds p1 ! 1 \<noteq> None);
               p2 = p1\<lparr>cpu_floor_ready := ready\<rparr>
           in if \<not> ready then release_floors p2 else p2)"

section \<open>Boosts\<close>

definition boost_allowed :: "power \<Rightarrow> bool" where
  "boost_allowed p \<longleftrightarrow> interactive p \<and> \<not> display_inactive p \<and> \<not> eco p \<and> \<not> sustained_performance p"

definition ApplyBoostLocked :: "power \<Rightarrow> power" where
  "ApplyBoostLocked p0 =
     (let p1 = (if applied_foreground p0 \<noteq> foreground_boost p0
                then let (r, w) = WriteNode kForegroundBoost (dec_of_int (foreground_boost p0)) (pworld p0)
                     in if r = 0 then p0\<lparr>pworld := w, applied_foreground := foreground_boost p0\<rparr>
                        else p0\<lparr>pworld := w, boost_errors := boost_errors p0 + 1\<rparr>
                else p0);
          (now, p2) = clock_now p1;
          allowed = (boost_allowed p2 \<and> \<not> stop_boost p2);
          ds = (if allowed then boost_deadlines p2 else map (\<lambda>d. 0) (boost_deadlines p2));
          active = list_ex (\<lambda>d. d > now) ds;
          p3 = ApplyCpuFloorLocked active (p2\<lparr>boost_deadlines := map (\<lambda>d. if d > now then d else 0) ds\<rparr>);
          value = (if active then active_boost p3 else base_boost p3)
      in if value \<noteq> applied_boost p3
         then let (error, w) = WriteNode kTopAppBoost (dec_of_int value) (pworld p3)
              in if error = 0 then p3\<lparr>pworld := w, applied_boost := value\<rparr>
                 else p3\<lparr>pworld := w, boost_errors := boost_errors p3 + 1\<rparr>
         else p3)"

text \<open>\<^verbatim>\<open>boost_cv_.notify_all()\<close>: the worker is the only thread that waits there.\<close>

definition boost_cv_notify_all :: "power \<Rightarrow> power" where
  "boost_cv_notify_all p = p\<lparr>boost_worker := (case boost_worker p of Waiting wait \<Rightarrow> Awake | th \<Rightarrow> th)\<rparr>"

definition RequestBoostLocked :: "nat \<Rightarrow> int \<Rightarrow> int \<Rightarrow> power \<Rightarrow> power" where
  "RequestBoostLocked source duration_ms default_ms p0 =
     (let p = p0\<lparr>boost_requests := boost_requests p0 + 1\<rparr>;
          p1 = (if duration_ms < 0 then p\<lparr>boost_deadlines := (boost_deadlines p)[source := 0]\<rparr>
                else if boost_allowed p
                then let duration = (if duration_ms = 0 then default_ms else min duration_ms 2000);
                         (now, q) = clock_now p
                     in q\<lparr>boost_deadlines := (boost_deadlines q)
                           [source := max (boost_deadlines q ! source) (now + milliseconds duration)]\<rparr>
                else p)
      in boost_cv_notify_all (ApplyBoostLocked p1))"

text \<open>The body of the loop of \<open>BoostWorker\<close>: until when it then waits, \<open>None\<close> until it is notified.\<close>

definition worker_iteration :: "power \<Rightarrow> int option \<times> power" where
  "worker_iteration p0 =
     (let p = ApplyBoostLocked p0;
          pending = filter (\<lambda>d. d \<noteq> 0) (boost_deadlines p);
          next = (if pending = [] then None else Some (Min (set pending)));
          desired = (if next = None then base_boost p else active_boost p)
      in if desired \<noteq> applied_boost p \<or> applied_foreground p \<noteq> foreground_boost p \<or> \<not> cpu_floor_ready p
         then let (now, q) = clock_now p; retry = now + milliseconds 100
              in (Some (case next of None \<Rightarrow> retry | Some n \<Rightarrow> min n retry), q)
         else (next, p))"

text \<open>
  A turn of the worker: its wait returns, because it was notified, its time has come or spuriously, it has the
  lock again, tests the condition of the loop and goes once through the body, which ends in the next wait.
\<close>

definition BoostWorker :: "power \<Rightarrow> power" where
  "BoostWorker p =
     (if boost_worker p = NotStarted \<or> boost_worker p = Finished then p
      else if stop_boost p then p\<lparr>boost_worker := Finished\<rparr>
      else let (wait, q) = worker_iteration p in q\<lparr>boost_worker := Waiting wait\<rparr>)"

section \<open>Entry points\<close>

datatype mode = LOW_POWER | SUSTAINED_PERFORMANCE | LAUNCH | EXPENSIVE_RENDERING | INTERACTIVE | DISPLAY_INACTIVE | OtherMode

datatype boost = INTERACTION | DISPLAY_UPDATE_IMMINENT | OtherBoost

definition Power_construct :: "(int \<Rightarrow> int) \<Rightarrow> int \<Rightarrow> nat list \<Rightarrow> world \<Rightarrow> power" where
  "Power_construct outside now ts w =
     (ApplyPowerProfileLocked False (ApplyBoostLocked (LoadBoostConfigLocked outside (power0 now ts w))))\<lparr>boost_worker := Awake\<rparr>"

text \<open>
  Joining the worker returns when the thread has left its loop: a thread that is awake, or whose limited wait
  ends, leaves it once \<open>stop_boost_\<close> is set; one that waits without a limit and is not notified never does
  (\<open>None\<close>).
\<close>

definition join_boost_worker :: "power \<Rightarrow> power option" where
  "join_boost_worker p =
     (case boost_worker p of
        NotStarted \<Rightarrow> Some p
      | Finished \<Rightarrow> Some p
      | Waiting None \<Rightarrow> None
      | _ \<Rightarrow> if stop_boost p then Some (p\<lparr>boost_worker := Finished\<rparr>) else None)"

definition Power_destroy :: "power \<Rightarrow> power option" where
  "Power_destroy p =
     join_boost_worker (boost_cv_notify_all
       (ApplyBoostLocked (p\<lparr>stop_boost := True, boost_deadlines := map (\<lambda>d. 0) (boost_deadlines p)\<rparr>)))"

definition setMode :: "mode \<Rightarrow> bool \<Rightarrow> power \<Rightarrow> power" where
  "setMode type enabled p =
     boost_cv_notify_all (ApplyBoostLocked
       (case type of
          LOW_POWER \<Rightarrow> (if eco p \<noteq> enabled \<or> \<not> profile_applied p then ApplyPowerProfileLocked enabled p else p)
        | SUSTAINED_PERFORMANCE \<Rightarrow> ApplyGpuCeilingLocked (p\<lparr>sustained_performance := enabled\<rparr>)
        | LAUNCH \<Rightarrow> RequestBoostLocked 2 (if enabled then launch_ms p else -1) (launch_ms p) p
        | EXPENSIVE_RENDERING \<Rightarrow> ApplyGpuFloorLocked (p\<lparr>expensive_rendering := enabled\<rparr>)
        | INTERACTIVE \<Rightarrow> ApplyGpuFloorLocked (p\<lparr>interactive := enabled\<rparr>)
        | DISPLAY_INACTIVE \<Rightarrow> ApplyGpuFloorLocked (p\<lparr>display_inactive := enabled\<rparr>)
        | OtherMode \<Rightarrow> p))"

definition isModeSupported :: "mode \<Rightarrow> bool" where
  "isModeSupported type \<longleftrightarrow> type \<noteq> OtherMode"

definition setBoost :: "boost \<Rightarrow> int \<Rightarrow> power \<Rightarrow> power" where
  "setBoost type duration_ms p =
     (case type of
        INTERACTION \<Rightarrow> RequestBoostLocked 0 duration_ms (interaction_ms p) p
      | DISPLAY_UPDATE_IMMINENT \<Rightarrow> RequestBoostLocked 1 duration_ms (display_ms p) p
      | OtherBoost \<Rightarrow> p)"

definition isBoostSupported :: "boost \<Rightarrow> bool" where
  "isBoostSupported type \<longleftrightarrow> type = INTERACTION \<or> type = DISPLAY_UPDATE_IMMINENT"

text \<open>Hint sessions are refused: no session (a preferred rate of 0) and an exception.\<close>

datatype binder_exception = EX_NONE | EX_UNSUPPORTED_OPERATION

definition createHintSession :: "int \<Rightarrow> int \<Rightarrow> int list \<Rightarrow> int \<Rightarrow> unit option \<times> binder_exception" where
  "createHintSession tgid uid thread_ids duration_nanos = (None, EX_UNSUPPORTED_OPERATION)"

definition getHintSessionPreferredRate :: "int \<times> binder_exception" where
  "getHintSessionPreferredRate = (0, EX_UNSUPPORTED_OPERATION)"

text \<open>\<^verbatim>\<open>dump\<close>: the text it prints, and the state with the clock readings made on the way.\<close>

definition flag_text :: "bool \<Rightarrow> string" where
  "flag_text b = (if b then ''1'' else ''0'')"

definition lock_text :: "string option \<Rightarrow> string" where
  "lock_text v = (case v of None \<Rightarrow> ''unknown'' | Some s \<Rightarrow> s)"

fun dump_remaining :: "int list \<Rightarrow> power \<Rightarrow> string \<times> power" where
  "dump_remaining [] p = ([], p)"
| "dump_remaining (deadline # ds) p =
     (let (now, q) = clock_now p;
          (rest, q') = dump_remaining ds q
      in (dec_of_int (max 0 (cdiv (deadline - now) 1000000)) @ '' '' @ rest, q'))"

definition dump :: "power \<Rightarrow> string \<times> power" where
  "dump p =
     (let (remaining, q) = dump_remaining (boost_deadlines p) p
      in (''m86 AIDL PowerHAL'' @ [CHR 0x0A] @
          ''interactive='' @ flag_text (interactive p) @ '' display_inactive='' @ flag_text (display_inactive p) @
          '' low_power='' @ flag_text (eco p) @ '' sustained='' @ flag_text (sustained_performance p) @
          '' expensive_rendering='' @ flag_text (expensive_rendering p) @
          '' gpu_floor='' @ lock_text (applied_gpu_floor p) @ '' gpu_ceiling='' @ lock_text (applied_gpu_ceiling p) @
          '' core_targets=kernel_policy cpu_boost=schedtune-qos-b12'' @ [CHR 0x0A] @
          ''cpu_floor_khz='' @ dec_of_int kCpuBoostFloorKHz @ ''/'' @ dec_of_int kCpuBoostFloorKHz @
          '' cpu_floor_active='' @ flag_text (cpu_floor_fds p ! 0 \<noteq> None) @ ''/'' @ flag_text (cpu_floor_fds p ! 1 \<noteq> None) @
          '' cpu_floor_ready='' @ flag_text (cpu_floor_ready p) @ [CHR 0x0A] @
          ''config_valid='' @ flag_text (config_valid p) @ '' foreground='' @ dec_of_int (foreground_boost p) @
          '' applied_foreground='' @ dec_of_int (applied_foreground p) @
          '' default_ms='' @ dec_of_int (interaction_ms p) @ ''/'' @ dec_of_int (display_ms p) @ ''/'' @
          dec_of_int (launch_ms p) @ [CHR 0x0A] @
          ''stune_base='' @ dec_of_int (base_boost p) @ '' stune_active='' @ dec_of_int (active_boost p) @
          '' stune_applied='' @ dec_of_int (applied_boost p) @ '' requests='' @ dec_of_nat (unat (boost_requests p)) @
          '' errors='' @ dec_of_nat (unat (boost_errors p)) @ '' remaining_ms='' @ remaining @ [CHR 0x0A], q))"

section \<open>Lemmas: the CPU floor\<close>

text \<open>
  The descriptor table and the two members together: \<open>B\<close> is the table without the floors.
  The middle case is the one the rollback undoes.
\<close>

abbreviation floor_node :: "nat \<Rightarrow> ofile" where
  "floor_node i \<equiv> new_ofile NodeFile (kCpuFloorPaths ! i)"

definition floors_held :: "(nat \<times> ofile) list \<Rightarrow> nat option list \<Rightarrow> (nat \<times> ofile) list \<Rightarrow> bool" where
  "floors_held B fdl t \<longleftrightarrow>
     fdl = [None, None] \<and> t = B \<or>
     (\<exists>a. fdl = [Some a, None] \<and> a \<notin> fst ` set B \<and> t = (a, floor_node 0) # B) \<or>
     (\<exists>a b. fdl = [Some a, Some b] \<and> a \<noteq> b \<and> a \<notin> fst ` set B \<and> b \<notin> fst ` set B \<and>
        t = (b, floor_node 1) # (a, floor_node 0) # B)"

definition both_or_none :: "nat option list \<Rightarrow> bool" where
  "both_or_none fdl \<longleftrightarrow> fdl = [None, None] \<or> (\<exists>a b. fdl = [Some a, Some b])"

text \<open>Changes of the world that no node but the two floors can see.\<close>

definition quiet :: "world \<Rightarrow> world \<Rightarrow> bool" where
  "quiet w w' \<longleftrightarrow> files w' = files w \<and> (\<exists>n. faults w' = drop n (faults w)) \<and>
     (\<forall>q. q \<notin> set kCpuFloorPaths \<longrightarrow> node_value w' q = node_value w q)"

lemma quiet_refl [simp]: "quiet w w"
  by (auto simp: quiet_def intro: exI [of _ 0])

lemma quiet_trans: "quiet w1 w2 \<Longrightarrow> quiet w2 w3 \<Longrightarrow> quiet w1 w3"
  by (auto simp: quiet_def)

lemma quiet_atomic: "quiet w w' \<Longrightarrow> atomic_nodes w \<Longrightarrow> atomic_nodes w'"
  by (auto simp: quiet_def intro: atomic_drop)

lemma quiet_close: "quiet w (snd (sys_close fd w))"
  using close_drop [of fd w] by (auto simp: quiet_def node_value_def)

lemma fds_close: "fds (snd (sys_close fd w)) = filter (\<lambda>p. fst p \<noteq> fd) (fds w)"
  using close_drop [of fd w] by auto

lemma filter_absent: "fd \<notin> fst ` set t \<Longrightarrow> filter (\<lambda>p. fst p \<noteq> fd) t = t"
  by (induction t) auto

lemma fresh_absent: "fresh_fd t \<notin> fst ` set t"
  using fresh_fd_notin by fastforce

lemma quiet_open:
  assumes "retry_eintr (sys_open_node q) w = (r, w')"
  shows "quiet w w' \<and> (faults w = [] \<longrightarrow> faults w' = []) \<and> (case r of Inl e \<Rightarrow> fds w' = fds w \<and> faults w \<noteq> []
    | Inr fd \<Rightarrow> fd \<notin> fst ` set (fds w) \<and> fds w' = (fd, new_ofile NodeFile q) # fds w)"
  using retry_open_spec [OF assms] fresh_absent
  by (cases r) (auto simp: node_open_spec_def quiet_def node_value_def)

lemma quiet_write:
  assumes "retry_eintr (sys_write_node fd v) w = (r, w')" and "map_of (fds w) fd = Some (new_ofile NodeFile q)"
    and "q \<in> set kCpuFloorPaths"
  shows "quiet w w' \<and> fds w' = fds w \<and> (faults w = [] \<longrightarrow> r = Inr (length v) \<and> faults w' = [])"
  using retry_write_spec [OF assms(2,1)] assms(3)
  by (cases r) (auto simp: node_write_spec_def quiet_def node_value_def)

text \<open>One turn of the acquiring loop.\<close>

lemma floor_turn:
  assumes op: "retry_eintr (sys_open_node (kCpuFloorPaths ! i)) w = (Inr fd, w1)"
    and wr: "retry_eintr (sys_write_node fd v) w1 = (written, w2)" and i: "i < length kCpuFloorPaths"
  shows "quiet w w2" "fds w2 = (fd, floor_node i) # fds w" "fd \<notin> fst ` set (fds w)"
    "fds (snd (sys_close fd w2)) = fds w" "quiet w (snd (sys_close fd w2))"
    "faults w = [] \<Longrightarrow> written = Inr (length v) \<and> faults w2 = []"
proof -
  from quiet_open [OF op] have o: "quiet w w1" "fd \<notin> fst ` set (fds w)" "fds w1 = (fd, floor_node i) # fds w"
    "faults w = [] \<Longrightarrow> faults w1 = []" by simp_all
  from quiet_write [OF wr, of "kCpuFloorPaths ! i"] o i
  have w: "quiet w1 w2" "fds w2 = fds w1" "faults w1 = [] \<Longrightarrow> written = Inr (length v) \<and> faults w2 = []" by auto
  show q: "quiet w w2" using o(1) w(1) by (rule quiet_trans)
  show f: "fds w2 = (fd, floor_node i) # fds w" "fd \<notin> fst ` set (fds w)" using o w by simp_all
  show "fds (snd (sys_close fd w2)) = fds w" by (simp add: fds_close f filter_absent)
  show "quiet w (snd (sys_close fd w2))" using q quiet_close by (rule quiet_trans)
  show "faults w = [] \<Longrightarrow> written = Inr (length v) \<and> faults w2 = []" using o(4) w(3) by blast
qed

lemma release_spec:
  assumes "floors_held B (cpu_floor_fds p) (fds (pworld p))"
  shows "cpu_floor_fds (release_floors p) = [None, None]" "fds (pworld (release_floors p)) = B"
    "quiet (pworld p) (pworld (release_floors p))"
    "release_floors p = p\<lparr>pworld := pworld (release_floors p), cpu_floor_fds := [None, None]\<rparr>"
proof -
  have two: "quiet w (snd (sys_close b (snd (sys_close a w))))" for a b w
    using quiet_close quiet_close by (rule quiet_trans)
  show "cpu_floor_fds (release_floors p) = [None, None]" "fds (pworld (release_floors p)) = B"
    "quiet (pworld p) (pworld (release_floors p))"
    "release_floors p = p\<lparr>pworld := pworld (release_floors p), cpu_floor_fds := [None, None]\<rparr>"
    using assms two quiet_close by (auto simp: floors_held_def release_floors_def fds_close filter_absent)
qed

definition floor_frame :: "power \<Rightarrow> power \<Rightarrow> bool" where
  "floor_frame p p' \<longleftrightarrow> quiet (pworld p) (pworld p') \<and>
     p' = p\<lparr>pworld := pworld p', cpu_floor_fds := cpu_floor_fds p', cpu_floor_ready := cpu_floor_ready p',
            boost_errors := boost_errors p'\<rparr>"

lemma acquire_second:
  assumes held: "floors_held B [Some a, None] (fds (pworld p))" and fd: "cpu_floor_fds p = [Some a, None]"
  defines "p' \<equiv> acquire_floors [1] p"
  shows "floors_held B (cpu_floor_fds p') (fds (pworld p')) \<and> floor_frame p p' \<and>
    (faults (pworld p) = [] \<longrightarrow> cpu_floor_fds p' ! 0 \<noteq> None \<and> cpu_floor_fds p' ! 1 \<noteq> None \<and> faults (pworld p') = [])"
proof -
  obtain r w1 where op: "retry_eintr (sys_open_node (kCpuFloorPaths ! 1)) (pworld p) = (r, w1)" by fastforce
  note o = quiet_open [OF op]
  show ?thesis
  proof (cases r)
    case (Inl e)
    with o op fd held show ?thesis by (simp add: p'_def floor_frame_def)
  next
    case (Inr b)
    obtain written w2 where wr: "retry_eintr (sys_write_node b floor_bytes) w1 = (written, w2)" by fastforce
    have "1 < length kCpuFloorPaths" by (simp add: kCpuFloorPaths_def)
    note t = floor_turn [OF op [unfolded Inr] wr this]
    show ?thesis
    proof (cases "written = Inr (length floor_bytes)")
      case True
      with op wr Inr fd have p': "p' = p\<lparr>pworld := w2, cpu_floor_fds := [Some a, Some b]\<rparr>" by (simp add: p'_def)
      from held t(2,3) have "floors_held B [Some a, Some b] (fds w2)" by (auto simp: floors_held_def)
      with t(1,6) show ?thesis by (simp add: p' floor_frame_def)
    next
      case False
      with op wr Inr fd have "p' = p\<lparr>pworld := snd (sys_close b w2), boost_errors := boost_errors p + 1\<rparr>"
        by (simp add: p'_def)
      with t(4,5,6) held fd False show ?thesis by (auto simp: floor_frame_def)
    qed
  qed
qed

lemma floor_frame_trans:
  assumes "floor_frame p q" and "floor_frame q r"
  shows "floor_frame p r"
proof -
  have "r = q\<lparr>pworld := pworld r, cpu_floor_fds := cpu_floor_fds r, cpu_floor_ready := cpu_floor_ready r,
            boost_errors := boost_errors r\<rparr>" using assms(2) by (simp add: floor_frame_def)
  also have "\<dots> = p\<lparr>pworld := pworld r, cpu_floor_fds := cpu_floor_fds r, cpu_floor_ready := cpu_floor_ready r,
            boost_errors := boost_errors r\<rparr>"
  proof -
    have "q = p\<lparr>pworld := pworld q, cpu_floor_fds := cpu_floor_fds q, cpu_floor_ready := cpu_floor_ready q,
            boost_errors := boost_errors q\<rparr>" using assms(1) by (simp add: floor_frame_def)
    then show ?thesis by (rule ssubst) simp
  qed
  finally show ?thesis using assms by (auto simp: floor_frame_def intro: quiet_trans)
qed

lemma acquire_spec:
  assumes held: "floors_held B (cpu_floor_fds p) (fds (pworld p))" and bn: "both_or_none (cpu_floor_fds p)"
  defines "p' \<equiv> acquire_floors [0, 1] p"
  shows "floors_held B (cpu_floor_fds p') (fds (pworld p')) \<and> floor_frame p p' \<and>
    (faults (pworld p) = [] \<longrightarrow> cpu_floor_fds p' ! 0 \<noteq> None \<and> cpu_floor_fds p' ! 1 \<noteq> None \<and> faults (pworld p') = [])"
proof (cases "cpu_floor_fds p = [None, None]")
  case False
  with bn obtain a b where "cpu_floor_fds p = [Some a, Some b]" by (auto simp: both_or_none_def)
  with held show ?thesis by (simp add: p'_def floor_frame_def)
next
  case True
  obtain r w1 where op: "retry_eintr (sys_open_node (kCpuFloorPaths ! 0)) (pworld p) = (r, w1)" by fastforce
  note o = quiet_open [OF op]
  show ?thesis
  proof (cases r)
    case (Inl e)
    with o op True held show ?thesis by (simp add: p'_def floor_frame_def)
  next
    case (Inr a)
    obtain written w2 where wr: "retry_eintr (sys_write_node a floor_bytes) w1 = (written, w2)" by fastforce
    have "0 < length kCpuFloorPaths" by (simp add: kCpuFloorPaths_def)
    note t = floor_turn [OF op [unfolded Inr] wr this]
    show ?thesis
    proof (cases "written = Inr (length floor_bytes)")
      case wrote: True
      let ?q = "p\<lparr>pworld := w2, cpu_floor_fds := [Some a, None]\<rparr>"
      from op wr Inr True wrote have p': "p' = acquire_floors [1] ?q" by (simp add: p'_def)
      from held True t(2,3) have "floors_held B [Some a, None] (fds (pworld ?q))" by (auto simp: floors_held_def)
      moreover have "floor_frame p ?q" using t(1) by (simp add: floor_frame_def)
      ultimately show ?thesis using acquire_second [of B a ?q] t(6) floor_frame_trans [of p ?q] by (simp add: p')
    next
      case False
      with op wr Inr True have "p' = p\<lparr>pworld := snd (sys_close a w2), boost_errors := boost_errors p + 1\<rparr>"
        by (simp add: p'_def)
      with t(4,5,6) held True False show ?thesis by (auto simp: floor_frame_def)
    qed
  qed
qed

text \<open>The floor after \<open>ApplyCpuFloorLocked\<close>: both requests or none, none without a boost, no descriptor lost.\<close>

lemma apply_floor_spec:
  fixes active :: bool
  assumes held: "floors_held B (cpu_floor_fds p) (fds (pworld p))" and bn: "both_or_none (cpu_floor_fds p)"
  defines "p' \<equiv> ApplyCpuFloorLocked active p"
  shows "floors_held B (cpu_floor_fds p') (fds (pworld p'))" "both_or_none (cpu_floor_fds p')" "floor_frame p p'"
    "cpu_floor_ready p' \<longleftrightarrow> (active \<longleftrightarrow> cpu_floor_fds p' \<noteq> [None, None])"
    "\<not> active \<Longrightarrow> cpu_floor_fds p' = [None, None]" "faults (pworld p) = [] \<Longrightarrow> cpu_floor_ready p'"
proof -
  have len: "length (cpu_floor_fds p) = 2" using bn by (auto simp: both_or_none_def)
  let ?q = "acquire_floors [0, 1] p"
  note a = acquire_spec [OF held bn]
  let ?ready = "cpu_floor_fds ?q ! 0 \<noteq> None \<and> cpu_floor_fds ?q ! 1 \<noteq> None"
  let ?q2 = "?q\<lparr>cpu_floor_ready := ?ready\<rparr>"
  have fr2: "floor_frame p ?q2"
    using a floor_frame_trans [of p ?q ?q2] by (simp add: floor_frame_def)
  have up: "[0..<length (cpu_floor_fds p)] = [0, 1]" by (simp add: len upt_rec)
  have p': "p' = (if \<not> active then (release_floors p)\<lparr>cpu_floor_ready := True\<rparr>
      else if \<not> ?ready then release_floors ?q2 else ?q2)"
    by (simp add: p'_def ApplyCpuFloorLocked_def Let_def up)
  have rel: "floor_frame q ((release_floors q)\<lparr>cpu_floor_ready := c\<rparr>)"
    if "floors_held B (cpu_floor_fds q) (fds (pworld q))" for q c
    using release_spec(3) [OF that] by (simp add: floor_frame_def release_floors_def)
  have h2: "floors_held B (cpu_floor_fds ?q2) (fds (pworld ?q2))" using a by simp
  have r2: "floor_frame ?q2 (release_floors ?q2)"
    using release_spec(3) [OF h2] by (simp add: floor_frame_def release_floors_def)
  have rdy2: "cpu_floor_ready (release_floors ?q2) = ?ready" by (simp add: release_floors_def)
  have none: "floors_held B [None, None] B" by (simp add: floors_held_def)
  have both: "?ready \<Longrightarrow> both_or_none (cpu_floor_fds ?q) \<and> cpu_floor_fds ?q \<noteq> [None, None]"
    using a by (auto simp: floors_held_def both_or_none_def)
  have "floors_held B (cpu_floor_fds p') (fds (pworld p')) \<and> both_or_none (cpu_floor_fds p') \<and> floor_frame p p' \<and>
    (cpu_floor_ready p' \<longleftrightarrow> (active \<longleftrightarrow> cpu_floor_fds p' \<noteq> [None, None])) \<and>
    (\<not> active \<longrightarrow> cpu_floor_fds p' = [None, None]) \<and> (faults (pworld p) = [] \<longrightarrow> cpu_floor_ready p')"
  proof (cases active)
    case False
    with p' rel [OF held] release_spec(1,2) [OF held] none show ?thesis by (simp add: both_or_none_def)
  next
    case True
    show ?thesis
    proof (cases ?ready)
      case ready: True
      then have "p' = ?q2" using p' True by simp
      with both [OF ready] True ready a fr2 show ?thesis by simp
    next
      case ready: False
      then have "p' = release_floors ?q2" using p' True by simp
      with True ready a floor_frame_trans [OF fr2 r2] release_spec(1,2) [OF h2] rdy2 none show ?thesis
        by (auto simp: both_or_none_def)
    qed
  qed
  then show "floors_held B (cpu_floor_fds p') (fds (pworld p'))" "both_or_none (cpu_floor_fds p')" "floor_frame p p'"
    "cpu_floor_ready p' \<longleftrightarrow> (active \<longleftrightarrow> cpu_floor_fds p' \<noteq> [None, None])"
    "\<not> active \<Longrightarrow> cpu_floor_fds p' = [None, None]" "faults (pworld p) = [] \<Longrightarrow> cpu_floor_ready p'"
    by blast+
qed

section \<open>Lemmas: boosts\<close>

text \<open>\<open>ApplyBoostLocked\<close> in stages.\<close>

definition boost_foreground :: "power \<Rightarrow> power" where
  "boost_foreground p =
     (if applied_foreground p \<noteq> foreground_boost p
      then let (r, w) = WriteNode kForegroundBoost (dec_of_int (foreground_boost p)) (pworld p)
           in if r = 0 then p\<lparr>pworld := w, applied_foreground := foreground_boost p\<rparr>
              else p\<lparr>pworld := w, boost_errors := boost_errors p + 1\<rparr>
      else p)"

definition prune :: "power \<Rightarrow> power" where
  "prune p =
     p\<lparr>boost_deadlines := map (\<lambda>d. if d > clock p then d else 0)
         (if boost_allowed p \<and> \<not> stop_boost p then boost_deadlines p else map (\<lambda>d. 0) (boost_deadlines p))\<rparr>"

definition boosting :: "power \<Rightarrow> bool" where
  "boosting p \<longleftrightarrow> (\<exists>d \<in> set (boost_deadlines p). d > clock p)"

definition boost_top_app :: "power \<Rightarrow> power" where
  "boost_top_app p =
     (let value = (if boosting p then active_boost p else base_boost p)
      in if value \<noteq> applied_boost p
         then let (error, w) = WriteNode kTopAppBoost (dec_of_int value) (pworld p)
              in if error = 0 then p\<lparr>pworld := w, applied_boost := value\<rparr>
                 else p\<lparr>pworld := w, boost_errors := boost_errors p + 1\<rparr>
         else p)"

lemma clock_now_eq: "clock_now p = (clock (snd (clock_now p)), snd (clock_now p))"
  by (simp add: clock_now_def split: list.split)

lemma clock_now_frame: "snd (clock_now p) = p\<lparr>clock := clock (snd (clock_now p)), ticks := ticks (snd (clock_now p))\<rparr>"
  "clock p \<le> clock (snd (clock_now p))"
  by (simp_all add: clock_now_def split: list.split)

lemma boosting_prune: "0 < clock p \<Longrightarrow> boosting (prune p) \<longleftrightarrow> boosting p \<and> boost_allowed p \<and> \<not> stop_boost p"
  by (auto simp: boosting_def prune_def)

text \<open>The members only the modes and the configuration write.\<close>

definition settings :: "power \<Rightarrow>
    (bool \<times> bool \<times> bool \<times> bool \<times> bool \<times> bool \<times> bool) \<times> (string option \<times> string option \<times> boost_thread) \<times>
    (int \<times> int \<times> int \<times> int \<times> int \<times> int \<times> bool)" where
  "settings p =
     ((interactive p, display_inactive p, eco p, profile_applied p, sustained_performance p, expensive_rendering p, stop_boost p),
      (applied_gpu_floor p, applied_gpu_ceiling p, boost_worker p),
      (foreground_boost p, base_boost p, active_boost p, interaction_ms p, display_ms p, launch_ms p, config_valid p))"

lemma settingsD:
  assumes "settings p' = settings p"
  shows "interactive p' = interactive p" "display_inactive p' = display_inactive p" "eco p' = eco p"
    "profile_applied p' = profile_applied p" "sustained_performance p' = sustained_performance p"
    "expensive_rendering p' = expensive_rendering p" "stop_boost p' = stop_boost p"
    "applied_gpu_floor p' = applied_gpu_floor p" "applied_gpu_ceiling p' = applied_gpu_ceiling p"
    "foreground_boost p' = foreground_boost p" "base_boost p' = base_boost p" "active_boost p' = active_boost p"
    "interaction_ms p' = interaction_ms p" "display_ms p' = display_ms p" "launch_ms p' = launch_ms p"
    "boost_allowed p' = boost_allowed p" "boost_worker p' = boost_worker p"
  using assms by (simp_all add: settings_def boost_allowed_def)

lemma floor_frame_fields:
  assumes "floor_frame p p'"
  shows "boost_deadlines p' = boost_deadlines p" "clock p' = clock p" "settings p' = settings p"
    "applied_foreground p' = applied_foreground p" "applied_boost p' = applied_boost p" "boosting p' = boosting p"
proof -
  have e: "p' = p\<lparr>pworld := pworld p', cpu_floor_fds := cpu_floor_fds p', cpu_floor_ready := cpu_floor_ready p',
            boost_errors := boost_errors p'\<rparr>" using assms by (simp add: floor_frame_def)
  show f: "boost_deadlines p' = boost_deadlines p" "clock p' = clock p" by (subst e, simp)+
  show "settings p' = settings p" by (subst e, simp add: settings_def)
  show "applied_foreground p' = applied_foreground p" "applied_boost p' = applied_boost p" by (subst e, simp)+
  show "boosting p' = boosting p" by (simp add: boosting_def f)
qed

definition with_now :: "power \<Rightarrow> power" where
  "with_now p = snd (clock_now p)"

lemma ApplyBoost_stages:
  assumes "0 < clock p" and "floors_held B (cpu_floor_fds p) (fds (pworld p))" and "both_or_none (cpu_floor_fds p)"
    and fg: "fds (pworld (boost_foreground p)) = fds (pworld p)"
  shows "ApplyBoostLocked p =
    (let q = prune (with_now (boost_foreground p)) in boost_top_app (ApplyCpuFloorLocked (boosting q) q))"
proof -
  define p1 where "p1 = boost_foreground p"
  define p2 where "p2 = snd (clock_now p1)"
  have c1: "clock p1 = clock p" "cpu_floor_fds p1 = cpu_floor_fds p"
    by (simp_all add: p1_def boost_foreground_def Let_def split: prod.split)
  have cn: "clock_now p1 = (clock p2, p2)" using clock_now_eq [of p1] by (simp add: p2_def)
  have fr: "p2 = p1\<lparr>clock := clock p2, ticks := ticks p2\<rparr>" using clock_now_frame(1) [of p1] by (simp add: p2_def)
  have pos: "0 < clock p2" using clock_now_frame(2) [of p1] assms(1) c1 by (simp add: p2_def)
  let ?ds = "if boost_allowed p2 \<and> \<not> stop_boost p2 then boost_deadlines p2 else map (\<lambda>d. 0) (boost_deadlines p2)"
  have act: "list_ex (\<lambda>d. d > clock p2) ?ds = boosting (prune p2)"
    using pos by (auto simp: boosting_def prune_def list_ex_iff)
  have pr: "p2\<lparr>boost_deadlines := map (\<lambda>d. if d > clock p2 then d else 0) ?ds\<rparr> = prune p2" by (simp add: prune_def)
  let ?p3 = "ApplyCpuFloorLocked (boosting (prune p2)) (prune p2)"
  have "pworld p2 = pworld p1" "cpu_floor_fds p2 = cpu_floor_fds p1" by (subst fr, simp)+
  then have "floors_held B (cpu_floor_fds (prune p2)) (fds (pworld (prune p2)))" "both_or_none (cpu_floor_fds (prune p2))"
    using assms(2-4) c1 by (simp_all add: prune_def p1_def)
  from floor_frame_fields(6) [OF apply_floor_spec(3) [OF this]] have b3: "boosting ?p3 = boosting (prune p2)" .
  show ?thesis
    apply (simp only: ApplyBoostLocked_def boost_foreground_def [symmetric])
    apply (simp only: p1_def [symmetric])
    apply (simp only: Let_def cn prod.case act pr)
    apply (simp only: with_now_def p2_def [symmetric] boost_top_app_def b3 Let_def)
    done
qed

section \<open>The invariant\<close>

definition caches_ok :: "power \<Rightarrow> bool" where
  "caches_ok p \<longleftrightarrow> atomic_nodes (pworld p) \<and>
     (\<forall>v. applied_gpu_floor p = Some v \<longrightarrow> node_value (pworld p) kGpuDvfsMinLock = Some v) \<and>
     (\<forall>v. applied_gpu_ceiling p = Some v \<longrightarrow> node_value (pworld p) kGpuDvfsMaxLock = Some v) \<and>
     (applied_boost p \<noteq> -1 \<longrightarrow> node_value (pworld p) kTopAppBoost = Some (dec_of_int (applied_boost p))) \<and>
     (applied_foreground p \<noteq> -1 \<longrightarrow> node_value (pworld p) kForegroundBoost = Some (dec_of_int (applied_foreground p))) \<and>
     (profile_applied p \<longrightarrow> node_value (pworld p) kHotplugProfile = Some (if eco p then kProfileEco else kProfileHigh))"

definition config_ok :: "power \<Rightarrow> bool" where
  "config_ok p \<longleftrightarrow> 0 \<le> foreground_boost p \<and> foreground_boost p \<le> 50 \<and> 0 \<le> base_boost p \<and>
     base_boost p \<le> active_boost p \<and> active_boost p \<le> 50 \<and> 40 \<le> interaction_ms p \<and> interaction_ms p \<le> 2000 \<and>
     40 \<le> display_ms p \<and> display_ms p \<le> 2000 \<and> 40 \<le> launch_ms p \<and> launch_ms p \<le> 2000"

definition boosts_bounded :: "power \<Rightarrow> bool" where
  "boosts_bounded p \<longleftrightarrow> 0 < clock p \<and> length (boost_deadlines p) = 3 \<and>
     (\<forall>d \<in> set (boost_deadlines p). 0 \<le> d \<and> d \<le> clock p + milliseconds 2000)"

definition floors_ok :: "(nat \<times> ofile) list \<Rightarrow> power \<Rightarrow> bool" where
  "floors_ok B p \<longleftrightarrow> floors_held B (cpu_floor_fds p) (fds (pworld p)) \<and> both_or_none (cpu_floor_fds p)"

text \<open>\<open>at\<close>: the nodes take values whole.\<close>

definition power_inv :: "bool \<Rightarrow> (nat \<times> ofile) list \<Rightarrow> power \<Rightarrow> bool" where
  "power_inv at B p \<longleftrightarrow> floors_ok B p \<and> boosts_bounded p \<and> config_ok p \<and> (at \<longrightarrow> caches_ok p)"

lemma config_ok_settings: "settings p' = settings p \<Longrightarrow> config_ok p' = config_ok p"
  by (simp add: config_ok_def settings_def)

lemmas aidl_paths = kTopAppBoost_def kForegroundBoost_def kHotplugProfile_def kGpuDvfsMinLock_def kGpuDvfsMaxLock_def
  kCpuFloorPaths_def

lemma not_floor_path [simp]:
  "kTopAppBoost \<notin> set kCpuFloorPaths" "kForegroundBoost \<notin> set kCpuFloorPaths" "kHotplugProfile \<notin> set kCpuFloorPaths"
  "kGpuDvfsMinLock \<notin> set kCpuFloorPaths" "kGpuDvfsMaxLock \<notin> set kCpuFloorPaths"
  by (simp_all add: aidl_paths)

lemma distinct_paths: "distinct [kTopAppBoost, kForegroundBoost, kHotplugProfile, kGpuDvfsMinLock, kGpuDvfsMaxLock]"
  by (simp add: aidl_paths)

lemmas distinct_pathD [simp] = distinct_paths [simplified]

lemma distinct_path_sym [simp]:
  "kForegroundBoost \<noteq> kTopAppBoost" "kHotplugProfile \<noteq> kTopAppBoost" "kGpuDvfsMinLock \<noteq> kTopAppBoost"
  "kGpuDvfsMaxLock \<noteq> kTopAppBoost" "kHotplugProfile \<noteq> kForegroundBoost" "kGpuDvfsMinLock \<noteq> kForegroundBoost"
  "kGpuDvfsMaxLock \<noteq> kForegroundBoost" "kGpuDvfsMinLock \<noteq> kHotplugProfile" "kGpuDvfsMaxLock \<noteq> kHotplugProfile"
  "kGpuDvfsMaxLock \<noteq> kGpuDvfsMinLock"
  by (simp_all add: aidl_paths)

lemma WriteNode_effect:
  assumes "WriteNode q v w = (r, w')" and "v \<noteq> []"
  shows "fds w' = fds w" "atomic_nodes w \<Longrightarrow> atomic_nodes w'"
    "atomic_nodes w \<Longrightarrow> node_value w' k = (if r = 0 \<and> k = q then Some v else node_value w k)"
    "faults w = [] \<Longrightarrow> r = 0 \<and> faults w' = []"
  using aidl.frame(1) [OF assms(2,1)] aidl.keeps_atomic [OF assms(2), of w q] aidl.value_after [OF assms(2,1)]
    aidl.faultless [OF assms(2), of w q] assms(1) by auto

lemma foreground_spec:
  fixes p
  defines "p' \<equiv> boost_foreground p"
  shows "fds (pworld p') = fds (pworld p)" "cpu_floor_fds p' = cpu_floor_fds p" "boost_deadlines p' = boost_deadlines p"
    "clock p' = clock p" "settings p' = settings p" "caches_ok p \<Longrightarrow> config_ok p \<Longrightarrow> caches_ok p'"
    "faults (pworld p) = [] \<Longrightarrow> faults (pworld p') = [] \<and> applied_foreground p' = foreground_boost p"
    "applied_boost p' = applied_boost p"
proof -
  obtain r w where wr: "WriteNode kForegroundBoost (dec_of_int (foreground_boost p)) (pworld p) = (r, w)" by fastforce
  note e = WriteNode_effect [OF wr dec_of_int_not_Nil]
  show "fds (pworld p') = fds (pworld p)" "cpu_floor_fds p' = cpu_floor_fds p" "boost_deadlines p' = boost_deadlines p"
    "clock p' = clock p" "settings p' = settings p" "applied_boost p' = applied_boost p"
    using e(1) wr by (simp_all add: p'_def boost_foreground_def settings_def)
  show "caches_ok p \<Longrightarrow> config_ok p \<Longrightarrow> caches_ok p'"
    using e(2,3) wr by (auto simp: p'_def boost_foreground_def caches_ok_def)
  show "faults (pworld p) = [] \<Longrightarrow> faults (pworld p') = [] \<and> applied_foreground p' = foreground_boost p"
    using e(4) wr by (simp add: p'_def boost_foreground_def)
qed

lemma top_app_spec:
  fixes p
  defines "p' \<equiv> boost_top_app p"
  shows "fds (pworld p') = fds (pworld p)" "cpu_floor_fds p' = cpu_floor_fds p" "boost_deadlines p' = boost_deadlines p"
    "clock p' = clock p" "settings p' = settings p" "caches_ok p \<Longrightarrow> caches_ok p'"
    "faults (pworld p) = [] \<Longrightarrow> faults (pworld p') = [] \<and> applied_boost p' = (if boosting p then active_boost p else base_boost p)"
    "applied_foreground p' = applied_foreground p" "cpu_floor_ready p' = cpu_floor_ready p"
proof -
  let ?v = "if boosting p then active_boost p else base_boost p"
  obtain r w where wr: "WriteNode kTopAppBoost (dec_of_int ?v) (pworld p) = (r, w)" by fastforce
  note e = WriteNode_effect [OF wr dec_of_int_not_Nil]
  have p': "p' = (if ?v \<noteq> applied_boost p then if r = 0 then p\<lparr>pworld := w, applied_boost := ?v\<rparr>
      else p\<lparr>pworld := w, boost_errors := boost_errors p + 1\<rparr> else p)"
    unfolding p'_def boost_top_app_def Let_def wr by simp
  show "fds (pworld p') = fds (pworld p)" "cpu_floor_fds p' = cpu_floor_fds p" "boost_deadlines p' = boost_deadlines p"
    "clock p' = clock p" "settings p' = settings p" "applied_foreground p' = applied_foreground p"
    "cpu_floor_ready p' = cpu_floor_ready p"
    using e(1) by (simp_all add: p' settings_def)
  show "caches_ok p \<Longrightarrow> caches_ok p'"
    using e(2,3) by (auto simp: p' caches_ok_def)
  show "faults (pworld p) = [] \<Longrightarrow> faults (pworld p') = [] \<and> applied_boost p' = ?v"
    using e(4) by (simp add: p')
qed

end
