(* ===== verification/Power_Boost.thy ===== *)
theory Power_Boost
  imports Power_Aidl
begin

text \<open>
  What the AIDL power HAL guarantees under any sequence of calls and worker wake-ups: no
  descriptor is lost, the caches agree with the nodes, boosts end, a worker that nobody notified sleeps past no
  deadline and only sleeps without a limit when nothing is left to do, and the destructor joins it.
\<close>

section \<open>Applying boosts\<close>

lemma quiet_caches:
  assumes "caches_ok p" and "floor_frame p p'"
  shows "caches_ok p'"
proof -
  note f = floor_frame_fields [OF assms(2)]
  have q: "quiet (pworld p) (pworld p')" using assms(2) by (simp add: floor_frame_def)
  then have v: "node_value (pworld p') k = node_value (pworld p) k" if "k \<notin> set kCpuFloorPaths" for k
    using that by (simp add: quiet_def)
  show ?thesis using assms(1) quiet_atomic [OF q] settingsD [OF f(3)] f(4,5)
    by (simp add: caches_ok_def v)
qed

lemma clock_fields:
  "fds (pworld (with_now p)) = fds (pworld p)" "pworld (with_now p) = pworld p"
  "cpu_floor_fds (with_now p) = cpu_floor_fds p" "boost_deadlines (with_now p) = boost_deadlines p"
  "settings (with_now p) = settings p" "caches_ok (with_now p) = caches_ok p" "clock p \<le> clock (with_now p)"
  "applied_foreground (with_now p) = applied_foreground p" "applied_boost (with_now p) = applied_boost p"
  by (simp_all add: with_now_def clock_now_def settings_def caches_ok_def split: list.split)

lemma prune_fields:
  "pworld (prune p) = pworld p" "cpu_floor_fds (prune p) = cpu_floor_fds p" "clock (prune p) = clock p"
  "settings (prune p) = settings p" "caches_ok (prune p) = caches_ok p"
  "applied_foreground (prune p) = applied_foreground p" "applied_boost (prune p) = applied_boost p"
  by (simp_all add: prune_def settings_def caches_ok_def)

lemma boosts_bounded_prune:
  assumes "boosts_bounded p" and "clock p \<le> clock p'" and "boost_deadlines p' = boost_deadlines p"
  shows "boosts_bounded (prune p')"
  using assms by (auto simp: boosts_bounded_def prune_def milliseconds_def)

text \<open>What one application of the boosts establishes, in terms of the state it leaves.\<close>

definition boost_applied :: "power \<Rightarrow> power \<Rightarrow> bool" where
  "boost_applied p p' \<longleftrightarrow> settings p' = settings p \<and> clock p \<le> clock p' \<and>
     boost_deadlines p' = map (\<lambda>d. if d > clock p' then d else 0)
       (if boost_allowed p \<and> \<not> stop_boost p then boost_deadlines p else map (\<lambda>d. 0) (boost_deadlines p)) \<and>
     (cpu_floor_fds p' \<noteq> [None, None] \<longrightarrow> boosting p') \<and>
     (cpu_floor_ready p' \<longleftrightarrow> (boosting p' \<longleftrightarrow> cpu_floor_fds p' \<noteq> [None, None])) \<and>
     (faults (pworld p) = [] \<longrightarrow> faults (pworld p') = [] \<and> cpu_floor_ready p' \<and>
        applied_foreground p' = foreground_boost p \<and>
        applied_boost p' = (if boosting p' then active_boost p else base_boost p))"

lemma ApplyBoost_spec:
  assumes inv: "power_inv at B p"
  shows "power_inv at B (ApplyBoostLocked p) \<and> boost_applied p (ApplyBoostLocked p)"
proof -
  define q where "q = prune (with_now (boost_foreground p))"
  define r where "r = ApplyCpuFloorLocked (boosting q) q"
  define p' where "p' = boost_top_app r"
  from inv have h: "floors_held B (cpu_floor_fds p) (fds (pworld p))" "both_or_none (cpu_floor_fds p)"
    and b: "boosts_bounded p" and cf: "config_ok p" and ca: "at \<Longrightarrow> caches_ok p"
    by (simp_all add: power_inv_def floors_ok_def)
  have "0 < clock p" using b by (simp add: boosts_bounded_def)
  from ApplyBoost_stages [OF this h foreground_spec(1)] have eq: "ApplyBoostLocked p = p'"
    by (simp add: p'_def r_def q_def Let_def)
  note fg = foreground_spec [of p] note cl = clock_fields [of "boost_foreground p"]
  note pr = prune_fields [of "with_now (boost_foreground p)"]
  have q: "fds (pworld q) = fds (pworld p)" "cpu_floor_fds q = cpu_floor_fds p" "settings q = settings p"
    "clock p \<le> clock q" "boosts_bounded q" "at \<Longrightarrow> caches_ok q"
    "faults (pworld p) = [] \<Longrightarrow> faults (pworld q) = [] \<and> applied_foreground q = foreground_boost p"
    using fg cl pr ca cf boosts_bounded_prune [OF b, of "with_now (boost_foreground p)"] by (simp_all add: q_def)
  have hq: "floors_held B (cpu_floor_fds q) (fds (pworld q))" "both_or_none (cpu_floor_fds q)" using h q by simp_all
  note fs = apply_floor_spec [OF hq, of "boosting q", folded r_def]
  note ff = floor_frame_fields [OF fs(3)]
  have nf: "faults (pworld q) = [] \<Longrightarrow> faults (pworld r) = []" using fs(3) by (auto simp: floor_frame_def quiet_def)
  note ta = top_app_spec [of r, folded p'_def]
  have bp: "boosting p' = boosting q" using ff(6) ta(3,4) by (simp add: boosting_def)
  have st: "settings p' = settings p" using ta(5) ff(3) q(3) by simp
  have ds: "boost_deadlines p' = boost_deadlines q" "clock p' = clock q" using ta(3,4) ff(1,2) by simp_all
  have qa: "boost_allowed (with_now (boost_foreground p)) = boost_allowed p"
    "stop_boost (with_now (boost_foreground p)) = stop_boost p"
    using settingsD(7,16) [of "with_now (boost_foreground p)" p] cl(5) fg(5) by simp_all
  have dl: "boost_deadlines q = map (\<lambda>d. if d > clock q then d else 0)
       (if boost_allowed p \<and> \<not> stop_boost p then boost_deadlines p else map (\<lambda>d. 0) (boost_deadlines p))"
    unfolding q_def prune_def using qa fg(3) cl(4) by simp
  have "power_inv at B p'"
    using fs(1,2) ta(1,2,6) q(5,6) ds cf config_ok_settings [OF st] quiet_caches [OF _ fs(3)]
    by (simp add: power_inv_def floors_ok_def boosts_bounded_def)
  moreover have "boost_applied p p'"
    using st q(4,7) ds dl fs(4-6) ta(2,7,8,9) ff(4) nf bp settingsD(11,12) [OF ff(3)] settingsD(11,12) [OF q(3)] ff(6)
    by (auto simp: boost_applied_def)
  ultimately show ?thesis by (simp add: eq)
qed

section \<open>The other operations\<close>

lemma gpu_values [simp]: "gpu_floor p \<noteq> []" "gpu_ceiling p \<noteq> []"
  by (simp_all add: gpu_floor_def gpu_ceiling_def kGpuFloorRendering_def kGpuUnlock_def kGpuCeilingLimited_def)

text \<open>The part of the state that applying the GPU locks leaves alone.\<close>

definition boost_view :: "power \<Rightarrow> (bool \<times> bool \<times> bool \<times> bool \<times> bool \<times> bool \<times> bool) \<times>
    (int \<times> int \<times> int \<times> int \<times> int \<times> int \<times> bool) \<times> (int list \<times> int \<times> int \<times> int \<times> nat option list \<times> bool \<times> boost_thread)" where
  "boost_view p =
     ((interactive p, display_inactive p, eco p, profile_applied p, sustained_performance p, expensive_rendering p, stop_boost p),
      (foreground_boost p, base_boost p, active_boost p, interaction_ms p, display_ms p, launch_ms p, config_valid p),
      (boost_deadlines p, clock p, applied_boost p, applied_foreground p, cpu_floor_fds p, cpu_floor_ready p, boost_worker p))"

lemma boost_viewD:
  assumes "boost_view p' = boost_view p"
  shows "boost_deadlines p' = boost_deadlines p" "clock p' = clock p" "applied_boost p' = applied_boost p"
    "applied_foreground p' = applied_foreground p" "cpu_floor_fds p' = cpu_floor_fds p"
    "cpu_floor_ready p' = cpu_floor_ready p" "profile_applied p' = profile_applied p" "eco p' = eco p"
    "foreground_boost p' = foreground_boost p" "base_boost p' = base_boost p" "active_boost p' = active_boost p"
    "gpu_floor p' = gpu_floor p" "gpu_ceiling p' = gpu_ceiling p" "config_ok p' = config_ok p"
    "boosts_bounded p' = boosts_bounded p" "boosting p' = boosting p" "boost_worker p' = boost_worker p" "stop_boost p' = stop_boost p"
  using assms by (simp_all add: boost_view_def gpu_floor_def gpu_ceiling_def config_ok_def boosts_bounded_def boosting_def)

lemma gpu_floor_spec:
  fixes p
  defines "p' \<equiv> ApplyGpuFloorLocked p"
  shows "boost_view p' = boost_view p" "fds (pworld p') = fds (pworld p)" "caches_ok p \<Longrightarrow> caches_ok p'"
    "applied_gpu_ceiling p' = applied_gpu_ceiling p"
    "faults (pworld p) = [] \<Longrightarrow> faults (pworld p') = [] \<and> applied_gpu_floor p' = Some (gpu_floor p)"
proof -
  obtain r w where wr: "WriteNode kGpuDvfsMinLock (gpu_floor p) (pworld p) = (r, w)" by fastforce
  note e = WriteNode_effect [OF wr gpu_values(1)]
  show "boost_view p' = boost_view p" "fds (pworld p') = fds (pworld p)" "applied_gpu_ceiling p' = applied_gpu_ceiling p"
    using e(1) wr by (simp_all add: p'_def ApplyGpuFloorLocked_def boost_view_def Let_def)
  show "caches_ok p \<Longrightarrow> caches_ok p'"
    using e(2,3) wr by (auto simp: p'_def ApplyGpuFloorLocked_def caches_ok_def Let_def)
  show "faults (pworld p) = [] \<Longrightarrow> faults (pworld p') = [] \<and> applied_gpu_floor p' = Some (gpu_floor p)"
    using e(4) wr by (auto simp: p'_def ApplyGpuFloorLocked_def Let_def)
qed

lemma gpu_ceiling_spec:
  fixes p
  defines "p' \<equiv> ApplyGpuCeilingLocked p"
  shows "boost_view p' = boost_view p" "fds (pworld p') = fds (pworld p)" "caches_ok p \<Longrightarrow> caches_ok p'"
    "applied_gpu_floor p' = applied_gpu_floor p"
    "faults (pworld p) = [] \<Longrightarrow> faults (pworld p') = [] \<and> applied_gpu_ceiling p' = Some (gpu_ceiling p)"
proof -
  obtain r w where wr: "WriteNode kGpuDvfsMaxLock (gpu_ceiling p) (pworld p) = (r, w)" by fastforce
  note e = WriteNode_effect [OF wr gpu_values(2)]
  show "boost_view p' = boost_view p" "fds (pworld p') = fds (pworld p)" "applied_gpu_floor p' = applied_gpu_floor p"
    using e(1) wr by (simp_all add: p'_def ApplyGpuCeilingLocked_def boost_view_def Let_def)
  show "caches_ok p \<Longrightarrow> caches_ok p'"
    using e(2,3) wr by (auto simp: p'_def ApplyGpuCeilingLocked_def caches_ok_def Let_def)
  show "faults (pworld p) = [] \<Longrightarrow> faults (pworld p') = [] \<and> applied_gpu_ceiling p' = Some (gpu_ceiling p)"
    using e(4) wr by (auto simp: p'_def ApplyGpuCeilingLocked_def Let_def)
qed

lemma power_inv_view:
  assumes "power_inv at B p" and "boost_view p' = boost_view p" and "fds (pworld p') = fds (pworld p)"
    and "caches_ok p \<Longrightarrow> caches_ok p'"
  shows "power_inv at B p'"
  using assms(1,3,4) boost_viewD [OF assms(2)] by (simp add: power_inv_def floors_ok_def)

text \<open>The invariant does not read the flags of the GPU locks.\<close>

lemma power_inv_flags [simp]:
  "power_inv at B (p\<lparr>sustained_performance := b\<rparr>) = power_inv at B p"
  "power_inv at B (p\<lparr>expensive_rendering := b\<rparr>) = power_inv at B p"
  "power_inv at B (p\<lparr>interactive := b\<rparr>) = power_inv at B p"
  "power_inv at B (p\<lparr>display_inactive := b\<rparr>) = power_inv at B p"
  "power_inv at B (p\<lparr>boost_requests := n\<rparr>) = power_inv at B p"
  "power_inv at B (p\<lparr>boost_worker := th\<rparr>) = power_inv at B p"
  by (simp_all add: power_inv_def floors_ok_def boosts_bounded_def config_ok_def caches_ok_def)

lemma profile_spec:
  fixes low :: bool
  assumes inv: "power_inv at B p"
  defines "p' \<equiv> ApplyPowerProfileLocked low p"
  shows "power_inv at B p'"
    "faults (pworld p) = [] \<Longrightarrow> faults (pworld p') = [] \<and> profile_applied p' \<and>
       applied_gpu_floor p' = Some (gpu_floor p') \<and> applied_gpu_ceiling p' = Some (gpu_ceiling p')"
    "eco p' = low" "boost_deadlines p' = boost_deadlines p" "clock p' = clock p" "cpu_floor_fds p' = cpu_floor_fds p"
    "interactive p' = interactive p" "display_inactive p' = display_inactive p"
    "sustained_performance p' = sustained_performance p" "expensive_rendering p' = expensive_rendering p"
    "stop_boost p' = stop_boost p" "boost_worker p' = boost_worker p"
proof -
  let ?v = "if low then kProfileEco else kProfileHigh"
  have v: "?v \<noteq> []" by (simp add: kProfileEco_def kProfileHigh_def)
  obtain r w where wr: "WriteNode kHotplugProfile ?v (pworld p) = (r, w)" by fastforce
  note e = WriteNode_effect [OF wr v]
  define q where "q = p\<lparr>pworld := w, eco := low, profile_applied := (r = 0)\<rparr>"
  have p': "p' = ApplyGpuFloorLocked (ApplyGpuCeilingLocked q)"
    using wr by (simp add: p'_def ApplyPowerProfileLocked_def q_def Let_def)
  note c = gpu_ceiling_spec [of q] note f = gpu_floor_spec [of "ApplyGpuCeilingLocked q", folded p']
  have view: "boost_view p' = boost_view q" using c(1) f(1) by simp
  have cq: "caches_ok p \<Longrightarrow> caches_ok q" using e(2,3) by (auto simp: q_def caches_ok_def)
  have "power_inv at B q"
    using inv e(1) cq by (simp add: power_inv_def floors_ok_def boosts_bounded_def config_ok_def q_def)
  from power_inv_view [OF this view] c(2,3) f(2,3) show "power_inv at B p'" by simp
  show "faults (pworld p) = [] \<Longrightarrow> faults (pworld p') = [] \<and> profile_applied p' \<and>
       applied_gpu_floor p' = Some (gpu_floor p') \<and> applied_gpu_ceiling p' = Some (gpu_ceiling p')"
    using e(4) c(5) f(4,5) boost_viewD(7,12,13) [OF view] boost_viewD(12) [OF c(1)] by (simp add: q_def)
  show "eco p' = low" "boost_deadlines p' = boost_deadlines p" "clock p' = clock p" "cpu_floor_fds p' = cpu_floor_fds p"
    "interactive p' = interactive p" "display_inactive p' = display_inactive p"
    "sustained_performance p' = sustained_performance p" "expensive_rendering p' = expensive_rendering p"
    "stop_boost p' = stop_boost p" "boost_worker p' = boost_worker p"
    using view by (simp_all add: boost_view_def q_def)
qed

text \<open>A request: the deadline it sets, before the boosts are applied.\<close>

lemma request_deadline:
  assumes inv: "power_inv at B p" and src: "source < 3" and def: "0 \<le> default_ms" "default_ms \<le> 2000"
  obtains q where "RequestBoostLocked source ms default_ms p = boost_cv_notify_all (ApplyBoostLocked q)" "power_inv at B q"
    "settings q = settings p" "pworld q = pworld p" "clock p \<le> clock q"
    "applied_gpu_floor q = applied_gpu_floor p" "applied_gpu_ceiling q = applied_gpu_ceiling p"
proof -
  let ?p = "p\<lparr>boost_requests := boost_requests p + 1\<rparr>"
  let ?n = "snd (clock_now ?p)"
  let ?dur = "if ms = 0 then default_ms else min ms 2000"
  define q where "q = (if ms < 0 then ?p\<lparr>boost_deadlines := (boost_deadlines ?p)[source := 0]\<rparr>
      else if boost_allowed ?p
      then ?n\<lparr>boost_deadlines := (boost_deadlines ?n)
               [source := max (boost_deadlines ?n ! source) (clock ?n + milliseconds ?dur)]\<rparr>
      else ?p)"
  have run: "RequestBoostLocked source ms default_ms p = boost_cv_notify_all (ApplyBoostLocked q)"
    unfolding RequestBoostLocked_def Let_def q_def by (simp add: split_def) (metis clock_now_eq fst_conv)
  have n: "?n = ?p\<lparr>clock := clock ?n, ticks := ticks ?n\<rparr>" "clock p \<le> clock ?n"
    using clock_now_frame [of ?p] by simp_all
  have ds: "boost_deadlines ?n = boost_deadlines p" by (subst n(1)) simp
  have b: "0 < clock p" "length (boost_deadlines p) = 3"
    "\<forall>d \<in> set (boost_deadlines p). 0 \<le> d \<and> d \<le> clock p + milliseconds 2000"
    using inv by (simp_all add: power_inv_def boosts_bounded_def)
  have old: "0 \<le> boost_deadlines p ! source" "boost_deadlines p ! source \<le> clock p + milliseconds 2000"
    using b(2,3) src by simp_all
  have bq: "boosts_bounded q"
    using b n(2) ds old def
    by (auto simp: boosts_bounded_def q_def milliseconds_def dest!: subsetD [OF set_update_subset_insert])
  have fq: "settings q = settings p" "pworld q = pworld p" "cpu_floor_fds q = cpu_floor_fds p"
    "applied_boost q = applied_boost p" "applied_foreground q = applied_foreground p" "clock p \<le> clock q"
    using n by (simp_all add: q_def clock_now_def settings_def split: list.split)
  have "power_inv at B q"
    using inv bq fq config_ok_settings [OF fq(1)] settingsD [OF fq(1)]
    by (simp add: power_inv_def floors_ok_def caches_ok_def)
  from that [OF run this fq(1,2,6)] settingsD(8,9) [OF fq(1)] show thesis by simp
qed

text \<open>What holds between two operations when no call meets a fault.\<close>

definition settled :: "power \<Rightarrow> bool" where
  "settled p \<longleftrightarrow> faults (pworld p) = [] \<and> profile_applied p \<and>
     applied_gpu_floor p = Some (gpu_floor p) \<and> applied_gpu_ceiling p = Some (gpu_ceiling p)"

definition floor_pending :: "power \<Rightarrow> bool" where
  "floor_pending p \<longleftrightarrow> (cpu_floor_fds p \<noteq> [None, None] \<longrightarrow> (\<exists>d \<in> set (boost_deadlines p). 0 < d))"

text \<open>The worker runs and has not been told to stop.\<close>

definition alive :: "power \<Rightarrow> bool" where
  "alive p \<longleftrightarrow> \<not> stop_boost p \<and> boost_worker p \<noteq> NotStarted \<and> boost_worker p \<noteq> Finished"

text \<open>
  What a wait of the worker owes to the state while nobody notifies it: without a limit nothing is left to do; up
  to a moment \<open>t\<close> no deadline ends before \<open>t\<close>, and a write that has to be retried is at most 100 ms away.
\<close>

definition sleep_ok :: "int option \<Rightarrow> power \<Rightarrow> bool" where
  "sleep_ok wait p = (case wait of
      None \<Rightarrow> list_all (\<lambda>d. d = 0) (boost_deadlines p) \<and> cpu_floor_fds p = [None, None] \<and>
        applied_boost p = base_boost p \<and> applied_foreground p = foreground_boost p
    | Some t \<Rightarrow> list_all (\<lambda>d. d = 0 \<or> t \<le> d) (boost_deadlines p) \<and>
        (t \<le> clock p + 100000000 \<or> applied_foreground p = foreground_boost p \<and> cpu_floor_ready p \<and> applied_boost p = active_boost p))"

definition worker_ok :: "power \<Rightarrow> bool" where
  "worker_ok p \<longleftrightarrow> alive p \<and> (\<forall>wait. boost_worker p = Waiting wait \<longrightarrow> sleep_ok wait p)"

lemma worker_fields [simp]:
  "settled (p\<lparr>boost_worker := th\<rparr>) = settled p" "floor_pending (p\<lparr>boost_worker := th\<rparr>) = floor_pending p"
  "sleep_ok wait (p\<lparr>boost_worker := th\<rparr>) = sleep_ok wait p"
  by (simp_all add: settled_def floor_pending_def sleep_ok_def gpu_floor_def gpu_ceiling_def split: option.split)

lemma notified [simp]:
  "power_inv at B (boost_cv_notify_all p) = power_inv at B p" "settled (boost_cv_notify_all p) = settled p"
  "floor_pending (boost_cv_notify_all p) = floor_pending p" "alive (boost_cv_notify_all p) = alive p"
  "boost_deadlines (boost_cv_notify_all p) = boost_deadlines p" "cpu_floor_fds (boost_cv_notify_all p) = cpu_floor_fds p"
  "pworld (boost_cv_notify_all p) = pworld p" "stop_boost (boost_cv_notify_all p) = stop_boost p"
  "boost_allowed (boost_cv_notify_all p) = boost_allowed p"
  by (simp_all add: boost_cv_notify_all_def alive_def boost_allowed_def split: boost_thread.split)

text \<open>A worker that has been notified does not wait.\<close>

lemma notified_awake: "boost_worker (boost_cv_notify_all p) \<noteq> Waiting wait"
  by (simp add: boost_cv_notify_all_def split: boost_thread.split)

lemma notified_ok: "alive p \<Longrightarrow> worker_ok (boost_cv_notify_all p)"
  by (simp add: worker_ok_def notified_awake)

lemma alive_settings: "settings p' = settings p \<Longrightarrow> alive p' = alive p"
  using settingsD(7,17) [of p' p] by (simp add: alive_def)

lemma alive_view: "boost_view p' = boost_view p \<Longrightarrow> alive p' = alive p"
  using boost_viewD(17,18) [of p' p] by (simp add: alive_def)

text \<open>Every operation ends in an application of the boosts to a state with the invariant.\<close>

lemma applied_ends:
  assumes "power_inv at B q"
  shows "power_inv at B (ApplyBoostLocked q) \<and> floor_pending (ApplyBoostLocked q) \<and>
    (settled q \<longrightarrow> settled (ApplyBoostLocked q)) \<and> (alive q \<longrightarrow> alive (ApplyBoostLocked q))"
proof -
  note s = ApplyBoost_spec [OF assms]
  have pos: "0 < clock (ApplyBoostLocked q)" using s by (simp add: power_inv_def boosts_bounded_def)
  have st: "settings (ApplyBoostLocked q) = settings q" using s by (simp add: boost_applied_def)
  note d = settingsD [OF st]
  have "settled q \<Longrightarrow> settled (ApplyBoostLocked q)"
    using s d by (simp add: settled_def boost_applied_def gpu_floor_def gpu_ceiling_def)
  moreover have "cpu_floor_fds (ApplyBoostLocked q) \<noteq> [None, None] \<Longrightarrow> boosting (ApplyBoostLocked q)"
    using s by (simp only: boost_applied_def) blast
  then have "floor_pending (ApplyBoostLocked q)"
    using pos unfolding floor_pending_def boosting_def by (meson order_less_trans)
  ultimately show ?thesis using s alive_settings [OF st] by blast
qed

lemma request_ends:
  assumes "power_inv at B p" and "source < 3" and "0 \<le> default_ms" "default_ms \<le> 2000"
  shows "power_inv at B (RequestBoostLocked source ms default_ms p) \<and> floor_pending (RequestBoostLocked source ms default_ms p) \<and>
    (settled p \<longrightarrow> settled (RequestBoostLocked source ms default_ms p)) \<and>
    (alive p \<longrightarrow> worker_ok (RequestBoostLocked source ms default_ms p))"
proof -
  obtain q where q: "RequestBoostLocked source ms default_ms p = boost_cv_notify_all (ApplyBoostLocked q)" "power_inv at B q"
    "settings q = settings p" "pworld q = pworld p" "clock p \<le> clock q"
    "applied_gpu_floor q = applied_gpu_floor p" "applied_gpu_ceiling q = applied_gpu_ceiling p"
    using request_deadline [OF assms] by blast
  have "settled q = settled p"
    using q(4,6,7) settingsD [OF q(3)] by (simp add: settled_def gpu_floor_def gpu_ceiling_def)
  with applied_ends [OF q(2)] q(1) alive_settings [OF q(3)] notified_ok show ?thesis by simp
qed

lemma config_range:
  assumes "power_inv at B p"
  shows "0 \<le> interaction_ms p" "interaction_ms p \<le> 2000" "0 \<le> display_ms p" "display_ms p \<le> 2000"
    "0 \<le> launch_ms p" "launch_ms p \<le> 2000"
  using assms by (simp_all add: power_inv_def config_ok_def)

text \<open>The state \<open>setMode\<close> hands to the final application.\<close>

lemma setMode_final:
  assumes inv: "power_inv at B p"
  obtains q where "setMode type b p = boost_cv_notify_all (ApplyBoostLocked q)" "power_inv at B q" "settled p \<Longrightarrow> settled q"
    "alive p \<Longrightarrow> alive q"
proof -
  have flr: "power_inv at B (ApplyGpuFloorLocked q) \<and>
      (faults (pworld q) = [] \<and> profile_applied q \<and> applied_gpu_ceiling q = Some (gpu_ceiling q) \<longrightarrow> settled (ApplyGpuFloorLocked q))"
    if "power_inv at B q" for q
    using power_inv_view [OF that gpu_floor_spec(1,2,3)] gpu_floor_spec(4,5) [of q] boost_viewD(7,12,13) [OF gpu_floor_spec(1) [of q]]
    by (simp add: settled_def)
  have cei: "power_inv at B (ApplyGpuCeilingLocked q) \<and>
      (faults (pworld q) = [] \<and> profile_applied q \<and> applied_gpu_floor q = Some (gpu_floor q) \<longrightarrow> settled (ApplyGpuCeilingLocked q))"
    if "power_inv at B q" for q
    using power_inv_view [OF that gpu_ceiling_spec(1,2,3)] gpu_ceiling_spec(4,5) [of q] boost_viewD(7,12,13) [OF gpu_ceiling_spec(1) [of q]]
    by (simp add: settled_def)
  define q where "q = (case type of
          LOW_POWER \<Rightarrow> (if eco p \<noteq> b \<or> \<not> profile_applied p then ApplyPowerProfileLocked b p else p)
        | SUSTAINED_PERFORMANCE \<Rightarrow> ApplyGpuCeilingLocked (p\<lparr>sustained_performance := b\<rparr>)
        | LAUNCH \<Rightarrow> RequestBoostLocked 2 (if b then launch_ms p else -1) (launch_ms p) p
        | EXPENSIVE_RENDERING \<Rightarrow> ApplyGpuFloorLocked (p\<lparr>expensive_rendering := b\<rparr>)
        | INTERACTIVE \<Rightarrow> ApplyGpuFloorLocked (p\<lparr>interactive := b\<rparr>)
        | DISPLAY_INACTIVE \<Rightarrow> ApplyGpuFloorLocked (p\<lparr>display_inactive := b\<rparr>)
        | OtherMode \<Rightarrow> p)"
  note av = alive_view [OF gpu_floor_spec(1)] alive_view [OF gpu_ceiling_spec(1)]
  have "power_inv at B q \<and> (settled p \<longrightarrow> settled q) \<and> (alive p \<longrightarrow> alive q)"
  proof (cases type)
    case LOW_POWER
    with inv profile_spec(1,2,11,12) [OF inv, of b] show ?thesis by (simp add: q_def settled_def alive_def)
  next
    case SUSTAINED_PERFORMANCE
    with inv cei [of "p\<lparr>sustained_performance := b\<rparr>"] show ?thesis
      by (simp add: q_def av) (simp add: settled_def gpu_floor_def alive_def)
  next
    case LAUNCH
    with request_ends [OF inv, of 2 "launch_ms p" "if b then launch_ms p else -1"] config_range [OF inv]
    show ?thesis by (simp add: q_def worker_ok_def)
  next
    case EXPENSIVE_RENDERING
    with inv flr [of "p\<lparr>expensive_rendering := b\<rparr>"] show ?thesis
      by (simp add: q_def av) (simp add: settled_def gpu_ceiling_def alive_def)
  next
    case INTERACTIVE
    with inv flr [of "p\<lparr>interactive := b\<rparr>"] show ?thesis
      by (simp add: q_def av) (simp add: settled_def gpu_ceiling_def alive_def)
  next
    case DISPLAY_INACTIVE
    with inv flr [of "p\<lparr>display_inactive := b\<rparr>"] show ?thesis
      by (simp add: q_def av) (simp add: settled_def gpu_ceiling_def alive_def)
  next
    case OtherMode
    with inv show ?thesis by (simp add: q_def)
  qed
  moreover have "setMode type b p = boost_cv_notify_all (ApplyBoostLocked q)" by (simp add: setMode_def q_def)
  ultimately show thesis using that by blast
qed

lemma setMode_ends:
  assumes "power_inv at B p"
  shows "power_inv at B (setMode type b p) \<and> floor_pending (setMode type b p) \<and> (settled p \<longrightarrow> settled (setMode type b p)) \<and>
    (alive p \<longrightarrow> worker_ok (setMode type b p))"
proof -
  obtain q where q: "setMode type b p = boost_cv_notify_all (ApplyBoostLocked q)" "power_inv at B q"
    "settled p \<Longrightarrow> settled q" "alive p \<Longrightarrow> alive q" using setMode_final [OF assms] by blast
  with applied_ends [OF q(2)] notified_ok show ?thesis by simp
qed

section \<open>The worker\<close>

text \<open>The earliest pending deadline, and the two outcomes of an iteration of the worker.\<close>

definition next_deadline :: "power \<Rightarrow> int option" where
  "next_deadline p = (let pending = filter (\<lambda>d. d \<noteq> 0) (boost_deadlines p) in if pending = [] then None else Some (Min (set pending)))"

lemma next_deadline_None:
  "0 < clock p \<Longrightarrow> next_deadline p = None \<Longrightarrow> list_all (\<lambda>d. d = 0) (boost_deadlines p) \<and> \<not> boosting p"
  by (fastforce simp: next_deadline_def filter_empty_conv list_all_iff boosting_def Let_def split: if_splits)

lemma next_deadline_le:
  "next_deadline p = Some n \<Longrightarrow> d \<in> set (boost_deadlines p) \<Longrightarrow> d \<noteq> 0 \<Longrightarrow> n \<le> d"
  by (auto simp: next_deadline_def Let_def split: if_splits intro: Min_le)

lemma worker_iteration_cases:
  assumes "worker_iteration p = (wait, q)"
  obtains (busy) "q = with_now (ApplyBoostLocked p)"
      "wait = Some (case next_deadline (ApplyBoostLocked p) of None \<Rightarrow> clock q + 100000000 | Some n \<Rightarrow> min n (clock q + 100000000))"
  | (settled) "q = ApplyBoostLocked p" "wait = next_deadline q" "cpu_floor_ready q" "applied_foreground q = foreground_boost q"
      "applied_boost q = (if next_deadline q = None then base_boost q else active_boost q)"
proof -
  let ?a = "ApplyBoostLocked p"
  have cn: "clock_now ?a = (clock (with_now ?a), with_now ?a)" unfolding with_now_def by (rule clock_now_eq)
  have run: "(wait, q) = (if (if next_deadline ?a = None then base_boost ?a else active_boost ?a) \<noteq> applied_boost ?a \<or>
        applied_foreground ?a \<noteq> foreground_boost ?a \<or> \<not> cpu_floor_ready ?a
      then (Some (case next_deadline ?a of None \<Rightarrow> clock (with_now ?a) + 100000000 | Some n \<Rightarrow> min n (clock (with_now ?a) + 100000000)), with_now ?a)
      else (next_deadline ?a, ?a))"
    unfolding assms [symmetric] worker_iteration_def next_deadline_def Let_def cn prod.case
    by (simp add: milliseconds_def split: option.split)
  show thesis
  proof (cases "(if next_deadline ?a = None then base_boost ?a else active_boost ?a) \<noteq> applied_boost ?a \<or>
        applied_foreground ?a \<noteq> foreground_boost ?a \<or> \<not> cpu_floor_ready ?a")
    case True
    with run have "q = with_now ?a" "wait = Some (case next_deadline ?a of None \<Rightarrow> clock (with_now ?a) + 100000000
        | Some n \<Rightarrow> min n (clock (with_now ?a) + 100000000))" by (simp_all only: if_True prod.inject)
    then show thesis by (intro busy) (simp_all only:)
  next
    case False
    with run have "q = ?a" "wait = next_deadline ?a" by (simp_all only: if_False prod.inject)
    with False show thesis by (intro settled) auto
  qed
qed

lemma iteration_sleeps:
  assumes inv: "power_inv at B p" and "worker_iteration p = (wait, q)"
  shows "sleep_ok wait q"
proof -
  let ?a = "ApplyBoostLocked p"
  note s = ApplyBoost_spec [OF inv]
  have pos: "0 < clock ?a" using s by (simp add: power_inv_def boosts_bounded_def)
  have rdy: "cpu_floor_ready ?a \<longleftrightarrow> (boosting ?a \<longleftrightarrow> cpu_floor_fds ?a \<noteq> [None, None])"
    using s by (simp only: boost_applied_def)
  from assms(2) show ?thesis
  proof (cases rule: worker_iteration_cases)
    case busy
    have ds: "boost_deadlines q = boost_deadlines ?a" by (simp add: busy(1) clock_fields)
    show ?thesis using next_deadline_None [OF pos] next_deadline_le [of ?a]
      by (auto simp: sleep_ok_def busy(2) ds list_all_iff min_le_iff_disj split: option.splits)
  next
    case settled
    with next_deadline_None [OF pos] next_deadline_le [of ?a] rdy show ?thesis
      by (cases "next_deadline ?a") (auto simp: sleep_ok_def list_all_iff)
  qed
qed

section \<open>Runs\<close>

datatype power_event = SetMode mode bool | SetBoost boost int | WorkerWakes

definition aidl_step :: "power \<Rightarrow> power_event \<Rightarrow> power" where
  "aidl_step p e =
     (case e of SetMode type b \<Rightarrow> setMode type b p
      | SetBoost type ms \<Rightarrow> setBoost type ms p
      | WorkerWakes \<Rightarrow> BoostWorker p)"

lemma aidl_step_simps [simp]:
  "aidl_step p (SetMode type b) = setMode type b p" "aidl_step p (SetBoost boost_type ms) = setBoost boost_type ms p"
  "aidl_step p WorkerWakes = BoostWorker p"
  by (simp_all add: aidl_step_def)

lemma with_now_inv:
  assumes "power_inv at B p"
  shows "power_inv at B (with_now p)"
proof -
  note c = clock_fields [of p]
  have "boosts_bounded (with_now p)" using assms c(4,7) by (auto simp: power_inv_def boosts_bounded_def)
  with assms c config_ok_settings [OF c(5)] show ?thesis by (simp add: power_inv_def floors_ok_def)
qed

lemma worker_next:
  "snd (worker_iteration p) = ApplyBoostLocked p \<or> snd (worker_iteration p) = with_now (ApplyBoostLocked p)"
  by (simp add: worker_iteration_def with_now_def Let_def split: prod.split)

definition hal_inv :: "bool \<Rightarrow> bool \<Rightarrow> (nat \<times> ofile) list \<Rightarrow> power \<Rightarrow> bool" where
  "hal_inv at nf B p \<longleftrightarrow> power_inv at B p \<and> floor_pending p \<and> (nf \<longrightarrow> settled p)"

definition run_inv :: "bool \<Rightarrow> bool \<Rightarrow> (nat \<times> ofile) list \<Rightarrow> power \<Rightarrow> bool" where
  "run_inv at nf B p \<longleftrightarrow> hal_inv at nf B p \<and> worker_ok p"

lemma hal_inv_with_now: "hal_inv at nf B p \<Longrightarrow> hal_inv at nf B (with_now p)"
  using with_now_inv [of at B p] clock_fields [of p] settingsD [OF clock_fields(5) [of p]]
  by (auto simp: hal_inv_def floor_pending_def settled_def gpu_floor_def gpu_ceiling_def)

lemma hal_inv_applied: "power_inv at B p \<Longrightarrow> (nf \<longrightarrow> settled p) \<Longrightarrow> hal_inv at nf B (ApplyBoostLocked p)"
  using applied_ends by (simp add: hal_inv_def)

lemma BoostWorker_run:
  assumes "run_inv at nf B p"
  shows "run_inv at nf B (BoostWorker p)"
proof -
  have inv: "power_inv at B p" and st: "nf \<longrightarrow> settled p" and al: "alive p"
    using assms by (simp_all add: run_inv_def hal_inv_def worker_ok_def)
  obtain wait q where w: "worker_iteration p = (wait, q)" by fastforce
  have q: "q = ApplyBoostLocked p \<or> q = with_now (ApplyBoostLocked p)" using worker_next [of p] w by simp
  have hal: "hal_inv at nf B q" using q hal_inv_applied [OF inv st] hal_inv_with_now by auto
  have "settings (ApplyBoostLocked p) = settings p" using ApplyBoost_spec [OF inv] by (simp add: boost_applied_def)
  moreover have "settings (with_now (ApplyBoostLocked p)) = settings (ApplyBoostLocked p)" by (rule clock_fields(5))
  ultimately have st: "settings q = settings p" using q by metis
  then have "\<not> stop_boost q" using settingsD(7) [OF st] al by (simp add: alive_def)
  moreover have "BoostWorker p = q\<lparr>boost_worker := Waiting wait\<rparr>" using al w by (simp add: BoostWorker_def alive_def)
  ultimately show ?thesis using hal iteration_sleeps [OF inv w]
    by (simp add: run_inv_def hal_inv_def worker_ok_def alive_def)
qed

lemma aidl_step_inv:
  assumes "run_inv at nf B p"
  shows "run_inv at nf B (aidl_step p e)"
proof -
  have inv: "power_inv at B p" and st: "nf \<longrightarrow> settled p" and al: "alive p"
    using assms by (simp_all add: run_inv_def hal_inv_def worker_ok_def)
  show ?thesis
  proof (cases e)
    case (SetMode type b)
    with setMode_ends [OF inv, of type b] st al show ?thesis by (simp add: aidl_step_def run_inv_def hal_inv_def)
  next
    case (SetBoost type ms)
    with assms request_ends [OF inv, of 0 "interaction_ms p" ms] request_ends [OF inv, of 1 "display_ms p" ms]
      config_range [OF inv] st al show ?thesis
      by (cases type) (simp_all add: aidl_step_def setBoost_def run_inv_def hal_inv_def)
  next
    case WorkerWakes
    with BoostWorker_run [OF assms] show ?thesis by simp
  qed
qed

section \<open>The configuration\<close>

lemma map_other: "fd \<notin> fst ` set t \<Longrightarrow> map (\<lambda>(d, f). if d = fd then g d f else (d, f)) t = t"
  by (induction t) auto

text \<open>A block read from the file that was opened last.\<close>

lemma read_block:
  assumes "fds w = (fd, f) # t" "fd \<notin> fst ` set t" "ofile_kind f = RegularFile" "sys_read fd n w = (r, w')"
  shows "files w' = files w \<and> stores w' = stores w \<and> (\<exists>k. faults w' = drop k (faults w)) \<and>
    (\<exists>pos. fds w' = (fd, f\<lparr>ofile_pos := pos\<rparr>) # t \<and>
      (\<forall>c. faults w = [] \<longrightarrow> files w (ofile_path f) = Some c \<longrightarrow>
         r = Inr (take n (drop (ofile_pos f) c)) \<and> pos = ofile_pos f + length (take n (drop (ofile_pos f) c))))"
proof -
  note m = map_other [OF assms(2)]
  show ?thesis
  proof (cases w rule: take_outcome_cases)
    case 1
    with assms m show ?thesis
      by (auto simp: sys_read_def advance_def Let_def intro: exI [of _ 0])
  next
    case (2 c fs)
    have fr: "faults w' = drop 1 (faults w)" "files w' = files w" "stores w' = stores w"
      using 2 assms by (cases c; auto simp: sys_read_def advance_def Let_def)+
    have "\<exists>pos. fds w' = (fd, f\<lparr>ofile_pos := pos\<rparr>) # t"
    proof (cases c)
      case (Fail e)
      with 2 assms have "fds w' = (fd, f) # t" by (auto simp: sys_read_def)
      then show ?thesis by (intro exI [of _ "ofile_pos f"]) simp
    qed (use 2 assms m in \<open>auto simp: sys_read_def advance_def Let_def\<close>)
    then obtain pos where "fds w' = (fd, f\<lparr>ofile_pos := pos\<rparr>) # t" by blast
    with fr 2(1) show ?thesis by (intro conjI exI [of _ pos] exI [of _ "1 :: nat"]) simp_all
  qed
qed

lemma read_stream_spec:
  assumes "fds w = (fd, f) # t" "fd \<notin> fst ` set t" "ofile_kind f = RegularFile" "read_stream fd n w = (bs, w')"
  shows "files w' = files w \<and> stores w' = stores w \<and> (\<exists>k. faults w' = drop k (faults w)) \<and> (\<exists>pos. fds w' = (fd, f\<lparr>ofile_pos := pos\<rparr>) # t) \<and>
    (\<forall>c. faults w = [] \<longrightarrow> files w (ofile_path f) = Some c \<longrightarrow> length c < n + ofile_pos f \<longrightarrow> bs = drop (ofile_pos f) c)"
  using assms
proof (induction n arbitrary: w w' f bs)
  case 0
  then have "\<exists>pos. fds w' = (fd, f\<lparr>ofile_pos := pos\<rparr>) # t" by (intro exI [of _ "ofile_pos f"]) simp
  with 0 show ?case by (auto intro: exI [of _ 0])
next
  case (Suc n)
  obtain r w1 where rd: "sys_read fd 4096 w = (r, w1)" by fastforce
  from read_block [OF Suc.prems(1-3) rd] obtain pos k where b: "files w1 = files w" "stores w1 = stores w"
    "faults w1 = drop k (faults w)" "fds w1 = (fd, f\<lparr>ofile_pos := pos\<rparr>) # t"
    and val: "\<forall>c. faults w = [] \<longrightarrow> files w (ofile_path f) = Some c \<longrightarrow>
         r = Inr (take 4096 (drop (ofile_pos f) c)) \<and> pos = ofile_pos f + length (take 4096 (drop (ofile_pos f) c))" by blast
  show ?case
  proof (cases "\<exists>b. r = Inr b \<and> b \<noteq> []")
    case False
    then have "bs = []" "w' = w1" using Suc.prems(4) rd by (auto split: sum.splits)
    with b val False show ?thesis by (auto simp: take_eq_Nil)
  next
    case True
    then obtain b0 where r: "r = Inr b0" "b0 \<noteq> []" by blast
    obtain rest w2 where rs: "read_stream fd n w1 = (rest, w2)" by fastforce
    have out: "bs = b0 @ rest" "w' = w2" using Suc.prems(4) rd r rs by auto
    have kind: "ofile_kind (f\<lparr>ofile_pos := pos\<rparr>) = RegularFile" using Suc.prems(3) by simp
    note ih = Suc.IH [OF b(4) Suc.prems(2) kind rs]
    have "bs = drop (ofile_pos f) c" if c: "faults w = []" "files w (ofile_path f) = Some c" "length c < Suc n + ofile_pos f" for c
    proof -
      have v: "b0 = take 4096 (drop (ofile_pos f) c)" "pos = ofile_pos f + length b0" using val c r by auto
      then have "length c < n + pos" using c(3) r(2) by (cases b0) auto
      moreover have "faults w1 = []" "files w1 (ofile_path f) = Some c" using b c by simp_all
      ultimately have "rest = drop pos c" using ih by simp
      moreover have "drop pos c = drop 4096 (drop (ofile_pos f) c)" using v
        by (cases "length c - ofile_pos f \<le> 4096") (simp_all add: min_def add.commute)
      ultimately show ?thesis using out(1) v(1) append_take_drop_id by metis
    qed
    with ih b out show ?thesis by (auto simp: drop_drop)
  qed
qed

lemma open_config:
  assumes "sys_open_rd kConfigPath w = (r, w')"
  shows "files w' = files w \<and> stores w' = stores w \<and> (\<exists>k. faults w' = drop k (faults w)) \<and>
    (case r of Inl e \<Rightarrow> fds w' = fds w | Inr fd \<Rightarrow> fd = fresh_fd (fds w) \<and> fds w' = (fd, new_ofile RegularFile kConfigPath) # fds w)"
proof -
  have p: "kConfigPath \<noteq> urandom_path" by (simp add: kConfigPath_def urandom_path_def)
  show ?thesis
  proof (cases w rule: take_outcome_cases)
    case 1
    with assms p show ?thesis by (auto simp: sys_open_rd_def alloc_fd_def Let_def split: option.splits intro: exI [of _ 0])
  next
    case (2 c fs)
    then show ?thesis using assms p
      by (cases c) (auto simp: sys_open_rd_def alloc_fd_def Let_def split: option.splits intro!: exI [of _ "1 :: nat"])
  qed
qed

text \<open>Loading the configuration only ever installs values in range, and gives its descriptor back.\<close>

lemma config_world:
  fixes outside p
  defines "p' \<equiv> LoadBoostConfigLocked outside p"
  shows "fds (pworld p') = fds (pworld p)" "stores (pworld p') = stores (pworld p)"
    "\<exists>k. faults (pworld p') = drop k (faults (pworld p))"
proof -
  obtain r w1 where op: "sys_open_rd kConfigPath (pworld p) = (r, w1)" by fastforce
  note o = open_config [OF op]
  have "fds (pworld p') = fds (pworld p) \<and> stores (pworld p') = stores (pworld p) \<and> (\<exists>k. faults (pworld p') = drop k (faults (pworld p)))"
  proof (cases r)
    case (Inl e)
    with o op show ?thesis by (simp add: p'_def LoadBoostConfigLocked_def)
  next
    case (Inr fd)
    obtain bs w2 where rs: "read_stream fd (config_blocks w1) w1 = (bs, w2)" by fastforce
    from o Inr have t: "fds w1 = (fd, new_ofile RegularFile kConfigPath) # fds (pworld p)" "fd \<notin> fst ` set (fds (pworld p))"
      using fresh_absent by auto
    from read_stream_spec [OF t _ rs] obtain pos k where s: "stores w2 = stores w1" "faults w2 = drop k (faults w1)"
      "fds w2 = (fd, (new_ofile RegularFile kConfigPath)\<lparr>ofile_pos := pos\<rparr>) # fds (pworld p)" by auto
    obtain j where c: "snd (sys_close fd w2) = w2\<lparr>faults := drop j (faults w2), fds := filter (\<lambda>p. fst p \<noteq> fd) (fds w2)\<rparr>"
      using close_drop by blast
    have w: "pworld p' = snd (sys_close fd w2)"
      using op Inr rs by (simp add: p'_def LoadBoostConfigLocked_def Let_def split: prod.split)
    from o obtain i where "faults w1 = drop i (faults (pworld p))" "stores w1 = stores (pworld p)" by blast
    then show ?thesis unfolding w c using s t(2) by (auto simp: filter_absent intro: exI [of _ "j + (k + i)"])
  qed
  then show "fds (pworld p') = fds (pworld p)" "stores (pworld p') = stores (pworld p)"
    "\<exists>k. faults (pworld p') = drop k (faults (pworld p))" by blast+
qed

lemma config_load:
  "LoadBoostConfigLocked outside p =
     p\<lparr>pworld := pworld (LoadBoostConfigLocked outside p),
       foreground_boost := foreground_boost (LoadBoostConfigLocked outside p),
       base_boost := base_boost (LoadBoostConfigLocked outside p),
       active_boost := active_boost (LoadBoostConfigLocked outside p),
       interaction_ms := interaction_ms (LoadBoostConfigLocked outside p),
       display_ms := display_ms (LoadBoostConfigLocked outside p),
       launch_ms := launch_ms (LoadBoostConfigLocked outside p),
       config_valid := config_valid (LoadBoostConfigLocked outside p)\<rparr>"
  by (simp add: LoadBoostConfigLocked_def Let_def split: sum.split prod.split)

lemma config_load_ok: "config_ok p \<Longrightarrow> config_ok (LoadBoostConfigLocked outside p)"
  by (auto simp: LoadBoostConfigLocked_def config_ok_def Let_def split: sum.split prod.split)

lemma loaded_fields:
  fixes outside now ts w
  defines "p1 \<equiv> LoadBoostConfigLocked outside (power0 now ts w)"
  shows "fds (pworld p1) = fds w" "atomic_nodes w \<Longrightarrow> atomic_nodes (pworld p1)" "faults w = [] \<Longrightarrow> faults (pworld p1) = []"
    "cpu_floor_fds p1 = [None, None]" "boost_deadlines p1 = [0, 0, 0]" "clock p1 = now"
    "applied_gpu_floor p1 = None" "applied_gpu_ceiling p1 = None" "applied_boost p1 = -1" "applied_foreground p1 = -1"
    "\<not> profile_applied p1" "interactive p1" "\<not> display_inactive p1" "\<not> sustained_performance p1" "\<not> expensive_rendering p1"
    "\<not> stop_boost p1"
proof -
  have w: "pworld (power0 now ts w) = w" by (simp add: power0_def)
  note c = config_world [of outside "power0 now ts w", unfolded w, folded p1_def]
  show "fds (pworld p1) = fds w" by (rule c(1))
  show "atomic_nodes w \<Longrightarrow> atomic_nodes (pworld p1)" "faults w = [] \<Longrightarrow> faults (pworld p1) = []"
    using c(3) by (auto intro: atomic_drop)
  show "cpu_floor_fds p1 = [None, None]" "boost_deadlines p1 = [0, 0, 0]" "clock p1 = now"
    "applied_gpu_floor p1 = None" "applied_gpu_ceiling p1 = None" "applied_boost p1 = -1" "applied_foreground p1 = -1"
    "\<not> profile_applied p1" "interactive p1" "\<not> display_inactive p1" "\<not> sustained_performance p1" "\<not> expensive_rendering p1"
    "\<not> stop_boost p1"
    unfolding p1_def by (subst config_load, simp add: power0_def)+
qed

lemma loaded_inv:
  assumes "0 < now"
  shows "power_inv (atomic_nodes w \<and> at) (fds w) (LoadBoostConfigLocked outside (power0 now ts w))"
proof -
  have "config_ok (LoadBoostConfigLocked outside (power0 now ts w))"
    by (rule config_load_ok) (simp add: config_ok_def power0_def)
  with loaded_fields [where outside = outside and now = now and ts = ts and w = w] assms show ?thesis
    by (simp add: power_inv_def floors_ok_def floors_held_def both_or_none_def boosts_bounded_def caches_ok_def milliseconds_def)
qed

section \<open>Construction\<close>

lemma construct_inv:
  assumes "0 < now"
  shows "run_inv (atomic_nodes w) (faults w = []) (fds w) (Power_construct outside now ts w)"
proof -
  define p1 where "p1 = LoadBoostConfigLocked outside (power0 now ts w)"
  note fr = loaded_fields [where outside = outside and now = now and ts = ts and w = w, folded p1_def]
  have i1: "power_inv (atomic_nodes w) (fds w) p1" using loaded_inv [OF assms, of w True] by (simp add: p1_def)
  let ?p2 = "ApplyBoostLocked p1"
  note s = ApplyBoost_spec [OF i1] note e = applied_ends [OF i1]
  let ?p3 = "ApplyPowerProfileLocked False ?p2"
  have nf: "faults w = [] \<Longrightarrow> faults (pworld ?p2) = []" using s fr(3) by (simp add: boost_applied_def)
  note pr = profile_spec [of _ _ ?p2 False, OF conjunct1 [OF s]]
  have "floor_pending ?p3" using e pr(4,6) by (simp add: floor_pending_def)
  moreover have "settings ?p2 = settings p1" using s by (simp add: boost_applied_def)
  then have "\<not> stop_boost ?p3" using pr(11) settingsD(7) fr(16) by metis
  ultimately show ?thesis using pr(1,2) nf unfolding Power_construct_def p1_def [symmetric]
    by (simp add: run_inv_def hal_inv_def worker_ok_def alive_def) (simp add: settled_def)
qed

interpretation power_hal: machine aidl_step
  "\<lambda>p. \<exists>outside now ts w. 0 < now \<and> p = Power_construct outside now ts w \<and> fds w = B \<and>
     (at \<longrightarrow> atomic_nodes w) \<and> (nf \<longrightarrow> faults w = [])"
  "run_inv at nf B" for at nf B
proof
  fix p assume "\<exists>outside now ts w. 0 < now \<and> p = Power_construct outside now ts w \<and> fds w = B \<and>
     (at \<longrightarrow> atomic_nodes w) \<and> (nf \<longrightarrow> faults w = [])"
  then show "run_inv at nf B p"
    using construct_inv by (auto simp: run_inv_def hal_inv_def power_inv_def)
next
  show "run_inv at nf B p \<Longrightarrow> run_inv at nf B (aidl_step p e)" for p e by (rule aidl_step_inv)
qed

lemma power_run:
  assumes "0 < now"
  shows "run_inv (atomic_nodes w) (faults w = []) (fds w) (foldl aidl_step (Power_construct outside now ts w) es)"
  using assms by (intro power_hal.reach_inv) blast

text \<open>The flags as a function of the calls made.\<close>

fun flag_of :: "mode \<Rightarrow> power \<Rightarrow> bool" where
  "flag_of LOW_POWER p = eco p"
| "flag_of SUSTAINED_PERFORMANCE p = sustained_performance p"
| "flag_of EXPENSIVE_RENDERING p = expensive_rendering p"
| "flag_of INTERACTIVE p = interactive p"
| "flag_of DISPLAY_INACTIVE p = display_inactive p"
| "flag_of _ p = False"

fun requested :: "mode \<Rightarrow> power_event list \<Rightarrow> bool" where
  "requested t [] = (t = INTERACTIVE)"
| "requested t (SetMode type b # es) = (if type = t then b else requested t es)"
| "requested t (_ # es) = requested t es"

lemma flag_settings: "settings p' = settings p \<Longrightarrow> flag_of t p' = flag_of t p"
  by (cases t) (simp_all add: settings_def)

lemma flag_worker [simp]: "flag_of t (p\<lparr>boost_worker := th\<rparr>) = flag_of t p"
  by (cases t) simp_all

lemma flag_notified [simp]: "flag_of t (boost_cv_notify_all p) = flag_of t p"
  by (simp add: boost_cv_notify_all_def)

lemma flag_view: "boost_view p' = boost_view p \<Longrightarrow> flag_of t p' = flag_of t p"
  by (cases t) (simp_all add: boost_view_def)

lemma flag_applied: "power_inv at B p \<Longrightarrow> flag_of t (ApplyBoostLocked p) = flag_of t p"
  using ApplyBoost_spec by (intro flag_settings) (simp add: boost_applied_def)

lemma flag_request:
  assumes "power_inv at B p" and "source < 3" and "0 \<le> default_ms" "default_ms \<le> 2000"
  shows "flag_of t (RequestBoostLocked source ms default_ms p) = flag_of t p"
proof -
  obtain q where q: "RequestBoostLocked source ms default_ms p = boost_cv_notify_all (ApplyBoostLocked q)" "power_inv at B q"
    "settings q = settings p"
    using request_deadline [OF assms] by blast
  show ?thesis unfolding q(1) flag_notified flag_applied [OF q(2)] by (rule flag_settings [OF q(3)])
qed

lemma flag_setMode:
  assumes inv: "power_inv at B p" and t: "t \<noteq> LAUNCH" "t \<noteq> OtherMode"
  shows "flag_of t (setMode type b p) = (if type = t then b else flag_of t p)"
proof -
  have fl: "flag_of t (ApplyBoostLocked (ApplyGpuFloorLocked q)) = flag_of t q"
    and ce: "flag_of t (ApplyBoostLocked (ApplyGpuCeilingLocked q)) = flag_of t q" if "power_inv at B q" for q
    using flag_applied [OF power_inv_view [OF that gpu_floor_spec(1,2,3)]] flag_view [OF gpu_floor_spec(1)]
      flag_applied [OF power_inv_view [OF that gpu_ceiling_spec(1,2,3)]] flag_view [OF gpu_ceiling_spec(1)] by simp_all
  have lp: "flag_of t (ApplyBoostLocked (ApplyPowerProfileLocked b p)) = (if LOW_POWER = t then b else flag_of t p)"
    using flag_applied [OF profile_spec(1) [OF inv, of b]] profile_spec(3,7-10) [OF inv, of b] t by (cases t) simp_all
  have la: "flag_of t (ApplyBoostLocked (RequestBoostLocked 2 ms (launch_ms p) p)) = flag_of t p" for ms
    using flag_applied [OF conjunct1 [OF request_ends [OF inv, of 2 "launch_ms p" ms]]] flag_request [OF inv, of 2 "launch_ms p"]
      config_range [OF inv] by simp
  show ?thesis
  proof (cases type)
    case LOW_POWER
    then show ?thesis using lp flag_applied [OF inv, of t] by (cases t) (auto simp: setMode_def)
  next
    case SUSTAINED_PERFORMANCE
    then show ?thesis using ce [of "p\<lparr>sustained_performance := b\<rparr>"] inv t by (cases t) (simp_all add: setMode_def)
  next
    case LAUNCH
    then show ?thesis using la t by (simp add: setMode_def)
  next
    case EXPENSIVE_RENDERING
    then show ?thesis using fl [of "p\<lparr>expensive_rendering := b\<rparr>"] inv t by (cases t) (simp_all add: setMode_def)
  next
    case INTERACTIVE
    then show ?thesis using fl [of "p\<lparr>interactive := b\<rparr>"] inv t by (cases t) (simp_all add: setMode_def)
  next
    case DISPLAY_INACTIVE
    then show ?thesis using fl [of "p\<lparr>display_inactive := b\<rparr>"] inv t by (cases t) (simp_all add: setMode_def)
  next
    case OtherMode
    then show ?thesis using flag_applied [OF inv] t by (simp add: setMode_def)
  qed
qed


lemma flag_construct:
  assumes "0 < now" and t: "t \<noteq> LAUNCH" "t \<noteq> OtherMode"
  shows "flag_of t (Power_construct outside now ts w) = requested t []"
proof -
  define p1 where "p1 = LoadBoostConfigLocked outside (power0 now ts w)"
  note f1 = loaded_fields(12-15) [where outside = outside and now = now and ts = ts and w = w, folded p1_def]
  have i1: "power_inv False (fds w) p1" using loaded_inv [OF assms(1), of w False] by (simp add: p1_def)
  note s = ApplyBoost_spec [OF i1]
  have "settings (ApplyBoostLocked p1) = settings p1" using s by (simp add: boost_applied_def)
  note d = settingsD [OF this] note pr = profile_spec(3,7-10) [OF conjunct1 [OF s], of False]
  show ?thesis unfolding Power_construct_def p1_def [symmetric]
    using d pr f1 t by (simp only: flag_worker) (cases t; simp)
qed

lemma flag_run:
  assumes "0 < now" and t: "t \<noteq> LAUNCH" "t \<noteq> OtherMode"
  shows "flag_of t (foldl aidl_step (Power_construct outside now ts w) es) = requested t (rev es)"
proof (induction es rule: rev_induct)
  case Nil
  then show ?case using flag_construct [OF assms] by simp
next
  case (snoc e es)
  let ?p = "foldl aidl_step (Power_construct outside now ts w) es"
  have inv: "power_inv (atomic_nodes w) (fds w) ?p" using power_run [OF assms(1)] by (simp add: run_inv_def hal_inv_def)
  note c = config_range [OF inv]
  show ?case
  proof (cases e)
    case (SetMode type b)
    then show ?thesis using flag_setMode [OF inv t] snoc by simp
  next
    case (SetBoost type ms)
    then show ?thesis using flag_request [OF inv, of 0 "interaction_ms ?p"] flag_request [OF inv, of 1 "display_ms ?p"] c snoc
      by (cases type) (simp_all add: setBoost_def)
  next
    case WorkerWakes
    then show ?thesis
      using worker_next [of ?p] flag_applied [OF inv] flag_settings [OF clock_fields(5)] snoc
      by (auto simp: BoostWorker_def case_prod_beta)
  qed
qed

text \<open>Scanning back a printed number.\<close>

lemma digits_of_nat: "list_all is_digit (dec_of_nat n)"
proof (induction n rule: dec_of_nat.induct)
  case (1 n)
  have d: "is_digit (char_of (48 + k))" if "k < 10" for k :: nat
    using that by (simp add: is_digit_def take_bit_eq_mod)
  show ?case
  proof (cases "n < 10")
    case True
    then show ?thesis using d [of n] by (subst dec_of_nat.simps) simp
  next
    case False
    then show ?thesis using 1 d [of "n mod 10"] by (subst dec_of_nat.simps) simp
  qed
qed

lemma is_digit_not: "is_digit c \<Longrightarrow> \<not> is_space c" "is_digit c \<Longrightarrow> c \<noteq> CHR ''-''" "is_digit c \<Longrightarrow> c \<noteq> CHR ''+''"
  "is_space c \<Longrightarrow> \<not> is_digit c"
  by (auto simp: is_digit_def is_space_def)

lemma scan_printed:
  assumes "0 \<le> v" and "fits_s32 v" and "is_space c"
  shows "scan_int outside (dec_of_int v @ c # rest) = Some (v, c # rest)"
proof -
  let ?s = "dec_of_nat (nat v)"
  have dig: "\<forall>x \<in> set ?s. is_digit x" using digits_of_nat by (simp add: list_all_iff)
  obtain x xs where s: "?s = x # xs" by (cases ?s) simp_all
  have x: "is_digit x" using dig s by simp
  have sp: "dropWhile is_space (?s @ c # rest) = ?s @ c # rest" using is_digit_not(1) [OF x] by (simp add: s)
  have tk: "takeWhile is_digit (?s @ c # rest) = ?s" "dropWhile is_digit (?s @ c # rest) = c # rest"
    using dig is_digit_not(4) [OF assms(3)] by (simp_all add: takeWhile_append2 dropWhile_append2)
  have hd: "hd (?s @ c # rest) = x" by (simp add: s)
  show ?thesis using assms is_digit_not(2,3) [OF x] tk
    by (simp add: scan_int_def dec_of_int_def sp hd Let_def)
qed

definition config_text :: "int list \<Rightarrow> string" where
  "config_text vs = concat (map (\<lambda>v. dec_of_int v @ [CHR '' '']) vs)"

lemma scan_int_space: "is_space c \<Longrightarrow> scan_int outside (c # s) = scan_int outside s"
  by (simp add: scan_int_def)

lemma scan_config:
  assumes "\<forall>v \<in> set vs. 0 \<le> v \<and> fits_s32 v"
  shows "scan_ints outside (length vs) (CHR '' '' # config_text vs) = (vs, [CHR '' ''])"
  using assms
proof (induction vs)
  case Nil
  then show ?case by (simp add: config_text_def)
next
  case (Cons v vs)
  have sp: "is_space (CHR '' '')" by (simp add: is_space_def)
  have "scan_int outside (CHR '' '' # config_text (v # vs)) = Some (v, CHR '' '' # config_text vs)"
    using Cons.prems scan_printed [of v "CHR '' ''" outside "config_text vs"] sp
    by (simp add: scan_int_space config_text_def)
  with Cons show ?case by simp
qed

text \<open>The destructor: the deadlines are gone, so the floors are released, and the worker is awake to see the flag.\<close>

lemma destroy_joins:
  assumes inv: "power_inv at B p" and ok: "worker_ok p"
  shows "\<exists>q. Power_destroy p = Some q \<and> boost_worker q = Finished \<and> cpu_floor_fds q = [None, None] \<and> fds (pworld q) = B"
proof -
  define r where "r = p\<lparr>stop_boost := True, boost_deadlines := map (\<lambda>d. 0) (boost_deadlines p)\<rparr>"
  define a where "a = ApplyBoostLocked r"
  have r: "power_inv at B r" using inv
    by (auto simp: r_def power_inv_def floors_ok_def boosts_bounded_def config_ok_def caches_ok_def milliseconds_def)
  note s = ApplyBoost_spec [OF r, folded a_def]
  have st: "settings a = settings r" using s by (simp add: boost_applied_def)
  have f: "stop_boost a" "boost_worker a = boost_worker p" using settingsD(7,17) [OF st] by (simp_all add: r_def)
  have "list_all (\<lambda>d. d = 0) (boost_deadlines a)" using s by (auto simp: boost_applied_def list_all_iff r_def)
  then have fl: "cpu_floor_fds a = [None, None]"
    using applied_ends [OF r] by (auto simp: floor_pending_def list_all_iff a_def)
  then have "fds (pworld a) = B" using s by (auto simp: power_inv_def floors_ok_def floors_held_def)
  moreover have "Power_destroy p = Some (a\<lparr>boost_worker := Finished\<rparr>)"
    using ok f by (cases "boost_worker p")
      (simp_all add: Power_destroy_def r_def [symmetric] a_def [symmetric] join_boost_worker_def boost_cv_notify_all_def worker_ok_def alive_def)
  ultimately show ?thesis using fl by simp
qed

section \<open>Properties\<close>

text \<open>
  C5: The CPU floor requests never leak: whatever modes and boosts are requested, whenever
  the worker runs and whatever calls fail, the process holds beyond its initial descriptors
  either none or exactly one request per cluster, and it holds them only while a boost has a
  deadline; a half-acquired pair is always rolled back.
\<close>

theorem cpu_floor_never_leaks:
  assumes "0 < now"
  shows "let p = foldl aidl_step (Power_construct outside now ts w) es in
    cpu_floor_fds p = [None, None] \<and> fds (pworld p) = fds w \<or>
    (\<exists>a b. cpu_floor_fds p = [Some a, Some b] \<and> a \<noteq> b \<and>
       fds (pworld p) = (b, new_ofile NodeFile ''/dev/cluster1_freq_min'') # (a, new_ofile NodeFile ''/dev/cluster0_freq_min'') # fds w \<and>
       (\<exists>d \<in> set (boost_deadlines p). 0 < d))"
  using power_run [OF assms, of w outside ts es]
  by (auto simp: run_inv_def hal_inv_def power_inv_def floors_ok_def floors_held_def both_or_none_def floor_pending_def
      kCpuFloorPaths_def Let_def)

text \<open>
  C19: Boosts are bounded: in every reachable state each of the three deadlines lies at most
  two seconds after the last reading of the clock, whatever durations were requested, and
  whatever the configuration file contains and whatever calls fail, the boost values stay in the
  range 0 to 50 with the base not above the active one and the three default durations between 40
  and 2000 milliseconds.
\<close>

theorem boosts_are_bounded:
  assumes "0 < now"
  shows "let p = foldl aidl_step (Power_construct outside now ts w) es in
    length (boost_deadlines p) = 3 \<and> list_all (\<lambda>d. 0 \<le> d \<and> d \<le> clock p + 2000000000) (boost_deadlines p) \<and>
    0 \<le> base_boost p \<and> base_boost p \<le> active_boost p \<and> active_boost p \<le> 50 \<and>
    0 \<le> foreground_boost p \<and> foreground_boost p \<le> 50 \<and>
    40 \<le> interaction_ms p \<and> interaction_ms p \<le> 2000 \<and> 40 \<le> display_ms p \<and> display_ms p \<le> 2000 \<and>
    40 \<le> launch_ms p \<and> launch_ms p \<le> 2000"
  using power_run [OF assms, of w outside ts es]
  by (simp add: run_inv_def hal_inv_def power_inv_def boosts_bounded_def config_ok_def milliseconds_def list_all_iff Let_def)

text \<open>
  C17: What the HAL believes it applied is what the nodes hold: on nodes that take a value
  whole or refuse it, every cached value (GPU floor and ceiling, the two boosts, the profile)
  is the last value its node accepted, after any calls and any failed writes; skipping a
  write because the cache agrees is therefore sound.
\<close>

theorem applied_values_are_current:
  assumes "0 < now" and "atomic_nodes w"
  shows "let p = foldl aidl_step (Power_construct outside now ts w) es in
    (\<forall>v. applied_gpu_floor p = Some v \<longrightarrow> node_value (pworld p) kGpuDvfsMinLock = Some v) \<and>
    (\<forall>v. applied_gpu_ceiling p = Some v \<longrightarrow> node_value (pworld p) kGpuDvfsMaxLock = Some v) \<and>
    (applied_boost p \<noteq> -1 \<longrightarrow> node_value (pworld p) kTopAppBoost = Some (dec_of_int (applied_boost p))) \<and>
    (applied_foreground p \<noteq> -1 \<longrightarrow> node_value (pworld p) kForegroundBoost = Some (dec_of_int (applied_foreground p))) \<and>
    (profile_applied p \<longrightarrow> node_value (pworld p) kHotplugProfile = Some (if eco p then kProfileEco else kProfileHigh))"
  using power_run [OF assms(1), of w outside ts es] assms(2)
  by (simp add: run_inv_def hal_inv_def power_inv_def caches_ok_def Let_def)

text \<open>
  C12: The mode nodes implement their specification: when no call fails, after any sequence of
  calls the GPU floor, the GPU ceiling and the hotplug profile hold the values that the modes
  last requested determine (the display starts interactive, every other mode off).
\<close>

theorem mode_nodes_follow_requests:
  assumes "0 < now" and "faults w = []"
  shows "let p = foldl aidl_step (Power_construct outside now ts w) es; on = (\<lambda>m. requested m (rev es)) in
    node_value (pworld p) kGpuDvfsMinLock =
      Some (if on INTERACTIVE \<and> \<not> on DISPLAY_INACTIVE \<and> on EXPENSIVE_RENDERING then ''420'' else ''0'') \<and>
    node_value (pworld p) kGpuDvfsMaxLock = Some (if on LOW_POWER \<or> on SUSTAINED_PERFORMANCE then ''544'' else ''0'') \<and>
    node_value (pworld p) kHotplugProfile = Some (if on LOW_POWER then ''2'' else ''0'')"
proof -
  let ?p = "foldl aidl_step (Power_construct outside now ts w) es"
  have at: "atomic_nodes w" using assms(2) by (simp add: atomic_nodes_def)
  have f: "flag_of t ?p = requested t (rev es)" if "t \<noteq> LAUNCH" "t \<noteq> OtherMode" for t
    using that by (rule flag_run [OF assms(1)])
  have "settled ?p" "caches_ok ?p" using power_run [OF assms(1), of w outside ts es] assms(2) at
    by (simp_all add: run_inv_def hal_inv_def power_inv_def)
  then show ?thesis
    using f [of INTERACTIVE] f [of DISPLAY_INACTIVE] f [of EXPENSIVE_RENDERING] f [of LOW_POWER] f [of SUSTAINED_PERFORMANCE]
    by (simp add: settled_def caches_ok_def gpu_floor_def gpu_ceiling_def kGpuFloorRendering_def kGpuUnlock_def
        kGpuCeilingLimited_def kProfileEco_def kProfileHigh_def Let_def)
qed

text \<open>
  C18: The worker never sleeps on unfinished work, whatever calls and wake-ups came before and whatever fails: in
  every reachable state in which it waits and has not been notified, a wait without a limit
  means that no boost is pending, the base boost and the foreground boost are applied and no floor
  is held; a limited wait ends at the latest at the earliest deadline there is now, and within 100 ms of the
  last clock reading when a write has to be retried. A new deadline or mode therefore always wakes it. And the
  destructor always gets the thread joined, with every CPU floor request released.
\<close>

theorem worker_sleeps_safely:
  assumes "0 < now" and "p = foldl aidl_step (Power_construct outside now ts w) es"
  shows "(case boost_worker p of
      Awake \<Rightarrow> True
    | Waiting None \<Rightarrow> list_all (\<lambda>d. d = 0) (boost_deadlines p) \<and> cpu_floor_fds p = [None, None] \<and>
        applied_boost p = base_boost p \<and> applied_foreground p = foreground_boost p
    | Waiting (Some t) \<Rightarrow> list_all (\<lambda>d. d = 0 \<or> t \<le> d) (boost_deadlines p) \<and>
        (t \<le> clock p + 100000000 \<or> applied_foreground p = foreground_boost p \<and> cpu_floor_ready p \<and> applied_boost p = active_boost p)
    | _ \<Rightarrow> False) \<and>
    (\<exists>q. Power_destroy p = Some q \<and> boost_worker q = Finished \<and> cpu_floor_fds q = [None, None] \<and> fds (pworld q) = fds w)"
proof -
  have inv: "power_inv (atomic_nodes w) (fds w) p" and ok: "worker_ok p"
    using power_run [OF assms(1)] assms(2) by (simp_all add: run_inv_def hal_inv_def)
  have "case boost_worker p of Awake \<Rightarrow> True | Waiting wait \<Rightarrow> sleep_ok wait p | _ \<Rightarrow> False"
    using ok by (auto simp: worker_ok_def alive_def split: boost_thread.split)
  with destroy_joins [OF inv ok] show ?thesis
    by (auto simp: sleep_ok_def split: boost_thread.split option.split)
qed


text \<open>
  C20: Power saving wins over boosts: after a mode call that leaves the display off or inactive,
  low power or sustained performance, every pending boost is dropped and no CPU floor is held,
  whatever calls fail.
\<close>

theorem saving_modes_stop_boosts:
  assumes "0 < now" and "p = foldl aidl_step (Power_construct outside now ts w) (es @ [SetMode type b])"
    and "\<not> interactive p \<or> display_inactive p \<or> eco p \<or> sustained_performance p"
  shows "list_all (\<lambda>d. d = 0) (boost_deadlines p) \<and> cpu_floor_fds p = [None, None] \<and> fds (pworld p) = fds w"
proof -
  let ?p = "foldl aidl_step (Power_construct outside now ts w) es"
  have "power_inv (atomic_nodes w) (fds w) ?p" using power_run [OF assms(1)] by (simp add: run_inv_def hal_inv_def)
  then obtain q where q: "setMode type b ?p = boost_cv_notify_all (ApplyBoostLocked q)" "power_inv (atomic_nodes w) (fds w) q"
    using setMode_final by blast
  define a where "a = ApplyBoostLocked q"
  have p: "p = boost_cv_notify_all a" using assms(2) q(1) by (simp add: a_def)
  note s = ApplyBoost_spec [OF q(2), folded a_def]
  have st: "settings a = settings q" using s by (simp only: boost_applied_def)
  have "boost_allowed p = boost_allowed a" by (simp add: p)
  then have "\<not> boost_allowed q" using assms(3) settingsD(16) [OF st] by (auto simp: boost_allowed_def)
  then have ds: "list_all (\<lambda>d. d = 0) (boost_deadlines a)" using s by (auto simp: boost_applied_def list_all_iff)
  then have fl: "cpu_floor_fds a = [None, None]"
    using applied_ends [OF q(2)] by (auto simp: floor_pending_def list_all_iff a_def)
  then have "fds (pworld a) = fds w" using s by (auto simp: power_inv_def floors_ok_def floors_held_def)
  with ds fl show ?thesis by (simp add: p)
qed

lemma config_chars_text: "config_chars (map (\<lambda>c. of_nat (of_char c)) s) = s"
proof -
  have "char_of (unat (of_nat (of_char c) :: byte)) = c" for c :: char
    by (simp add: unat_of_nat take_bit_nat_eq_self)
  then show ?thesis by (simp add: config_chars_def comp_def)
qed

text \<open>
  The configuration file round-trips: when no call fails, a file with six numbers in their ranges,
  separated by white space, sets exactly these six values.
\<close>

theorem config_roundtrip:
  assumes "0 \<le> fg" "fg \<le> 50" "0 \<le> base" "base \<le> act" "act \<le> 50" "40 \<le> itr" "itr \<le> 2000"
    "40 \<le> disp" "disp \<le> 2000" "40 \<le> launch" "launch \<le> 2000"
    and "faults (pworld p) = []"
    and "files (pworld p) kConfigPath = Some (map (\<lambda>c. of_nat (of_char c)) (CHR '' '' # config_text [fg, base, act, itr, disp, launch]))"
  shows "LoadBoostConfigLocked outside p =
    p\<lparr>pworld := pworld (LoadBoostConfigLocked outside p), foreground_boost := fg, base_boost := base, active_boost := act,
      interaction_ms := itr, display_ms := disp, launch_ms := launch, config_valid := True\<rparr>"
proof -
  let ?vs = "[fg, base, act, itr, disp, launch]"
  let ?text = "CHR '' '' # config_text ?vs"
  have "scan_ints outside (length ?vs) ?text = (?vs, [CHR '' ''])"
    by (rule scan_config) (use assms in \<open>simp add: fits_s32_def\<close>)
  moreover have "length ?vs = 6" by simp
  ultimately have sc: "scan_ints outside 6 ?text = (?vs, [CHR '' ''])" by (simp only:)
  have sp: "is_space (CHR '' '')" by (simp add: is_space_def)
  obtain r w1 where op: "sys_open_rd kConfigPath (pworld p) = (r, w1)" by fastforce
  note o = open_config [OF op]
  have "kConfigPath \<noteq> urandom_path" by (simp add: kConfigPath_def urandom_path_def)
  then obtain fd where r: "r = Inr fd" using op assms(12,13)
    by (auto simp: sys_open_rd_def take_outcome_no_fault alloc_fd_def Let_def)
  obtain bs w2 where rs: "read_stream fd (config_blocks w1) w1 = (bs, w2)" by fastforce
  have t: "fds w1 = (fd, new_ofile RegularFile kConfigPath) # fds (pworld p)" "fd \<notin> fst ` set (fds (pworld p))"
    "faults w1 = []" "files w1 kConfigPath = Some (map (\<lambda>c. of_nat (of_char c)) ?text)"
    using o r fresh_absent assms(12,13) by auto
  have "config_chars bs = ?text"
    using read_stream_spec [OF t(1,2) _ rs] t(3,4) config_chars_text [of ?text] by (simp add: config_blocks_def)
  then show ?thesis using op r rs sc sp assms(1-11) by (simp add: LoadBoostConfigLocked_def Let_def)
qed

section \<open>Instances\<close>

theorem cpu_floor_never_leaks_witness:
  "let p = foldl aidl_step (Power_construct (\<lambda>v. v) 1 [] idle_world) [SetBoost INTERACTION 0, WorkerWakes] in
    cpu_floor_fds p = [None, None] \<or> (\<exists>d \<in> set (boost_deadlines p). 0 < d)"
  using cpu_floor_never_leaks [of 1 "\<lambda>v. v" "[]" idle_world "[SetBoost INTERACTION 0, WorkerWakes]"]
  by (auto simp: Let_def)

text \<open>A system whose configuration file asks for values out of their ranges.\<close>

definition greedy_world :: world where
  "greedy_world = idle_world\<lparr>files := [kConfigPath \<mapsto> map (\<lambda>c. of_nat (of_char c)) ''99 0 0 0 0 0'']\<rparr>"

theorem boosts_are_bounded_witness:
  "let p = foldl aidl_step (Power_construct (\<lambda>v. v) 1 [] greedy_world) [SetBoost INTERACTION 2147483647]
   in list_all (\<lambda>d. d \<le> clock p + 2000000000) (boost_deadlines p) \<and> active_boost p \<le> 50 \<and> 40 \<le> launch_ms p"
  using boosts_are_bounded [of 1 "\<lambda>v. v" "[]" greedy_world "[SetBoost INTERACTION 2147483647]"]
  by (simp add: Let_def list_all_iff)

theorem applied_values_are_current_witness:
  "node_value (pworld (foldl aidl_step (Power_construct (\<lambda>v. v) 1 [] idle_world) [SetMode LOW_POWER True])) kHotplugProfile =
     Some kProfileEco"
proof -
  let ?p = "foldl aidl_step (Power_construct (\<lambda>v. v) 1 [] idle_world) [SetMode LOW_POWER True]"
  have nf: "faults idle_world = []" by (simp add: idle_world_def)
  have "settled ?p" using power_run [of 1 idle_world "\<lambda>v. v" "[]" "[SetMode LOW_POWER True]"] nf by (simp add: run_inv_def hal_inv_def)
  moreover have "eco ?p" using flag_run [of 1 LOW_POWER "\<lambda>v. v" "[]" idle_world "[SetMode LOW_POWER True]"] by simp
  ultimately show ?thesis
    using applied_values_are_current [of 1 idle_world "\<lambda>v. v" "[]" "[SetMode LOW_POWER True]"] nf
    by (simp add: Let_def atomic_nodes_def settled_def)
qed

theorem mode_nodes_follow_requests_witness:
  "node_value (pworld (foldl aidl_step (Power_construct (\<lambda>v. v) 1 [] idle_world)
     [SetMode EXPENSIVE_RENDERING True, SetMode LAUNCH True])) kGpuDvfsMinLock = Some ''420''"
  using mode_nodes_follow_requests
    [of 1 idle_world "\<lambda>v. v" "[]" "[SetMode EXPENSIVE_RENDERING True, SetMode LAUNCH True]"]
  by (simp add: Let_def idle_world_def)

theorem worker_sleeps_safely_witness:
  "let p = foldl aidl_step (Power_construct (\<lambda>v. v) 1 [] idle_world) [WorkerWakes, SetBoost INTERACTION 500]
   in boost_worker p = Awake \<and> (\<exists>q. Power_destroy p = Some q \<and> boost_worker q = Finished \<and> fds (pworld q) = [])"
proof -
  let ?p = "foldl aidl_step (Power_construct (\<lambda>v. v) 1 [] idle_world) [WorkerWakes, SetBoost INTERACTION 500]"
  have "boost_worker ?p \<noteq> Waiting wait" for wait
    using notified_awake by (simp add: setBoost_def RequestBoostLocked_def Let_def)
  with worker_sleeps_safely [of 1 ?p "\<lambda>v. v" "[]" idle_world "[WorkerWakes, SetBoost INTERACTION 500]"]
  show ?thesis unfolding Let_def by (cases "boost_worker ?p") (auto simp: idle_world_def simp del: foldl.simps)
qed


theorem saving_modes_stop_boosts_witness:
  "cpu_floor_fds (foldl aidl_step (Power_construct (\<lambda>v. v) 1 [] idle_world)
     ([SetBoost INTERACTION 500] @ [SetMode INTERACTIVE False])) = [None, None]"
proof -
  let ?p = "foldl aidl_step (Power_construct (\<lambda>v. v) 1 [] idle_world) ([SetBoost INTERACTION 500] @ [SetMode INTERACTIVE False])"
  have "\<not> interactive ?p"
    using flag_run [of 1 INTERACTIVE "\<lambda>v. v" "[]" idle_world "[SetBoost INTERACTION 500] @ [SetMode INTERACTIVE False]"] by simp
  with saving_modes_stop_boosts [of 1 ?p "\<lambda>v. v" "[]" idle_world "[SetBoost INTERACTION 500]" INTERACTIVE False]
  show ?thesis by simp
qed

theorem config_roundtrip_witness:
  "launch_ms (LoadBoostConfigLocked (\<lambda>v. v) (power0 1 [] (idle_world\<lparr>files :=
     [kConfigPath \<mapsto> map (\<lambda>c. of_nat (of_char c)) (CHR '' '' # config_text [10, 15, 30, 500, 120, 1000])]\<rparr>))) = 1000"
  by (subst config_roundtrip [of 10 15 30 500 120 1000]) (simp_all add: power0_def idle_world_def)

end
