(* ===== verification/Aosp.thy ===== *)
theory Aosp
  imports M86_Prelude
begin

text \<open>
  What the sensor bridge and the GPS vendor library take from the platform's headers
  (\<^verbatim>\<open>utils/Errors.h\<close>, \<^verbatim>\<open>hardware/sensors.h\<close>, \<^verbatim>\<open>android/sensor.h\<close>): named constants, which are parameters of the
  model, and the documented facts about them the code relies on.
\<close>

type_synonym blob = "byte list"

record aosp =
  OK :: int
  UNKNOWN_ERROR :: int
  PERMISSION_DENIED :: int
  NAME_NOT_FOUND :: int
  NO_MEMORY :: int
  NO_INIT :: int
  BAD_VALUE :: int
  INVALID_OPERATION :: int
  DEAD_OBJECT :: int
  SENSORS_DEVICE_API_VERSION_1_3 :: int
  SENSORS_DEVICE_API_VERSION_1_4 :: int
  SENSOR_TYPE_DYNAMIC_SENSOR_META :: int
  ASENSOR_TYPE_ACCELEROMETER :: int

definition platform_ok :: "aosp \<Rightarrow> bool" where
  "platform_ok A \<longleftrightarrow> OK A = 0 \<and>
     list_all (\<lambda>c. c < 0) [UNKNOWN_ERROR A, PERMISSION_DENIED A, NAME_NOT_FOUND A, NO_MEMORY A, NO_INIT A,
       BAD_VALUE A, INVALID_OPERATION A, DEAD_OBJECT A] \<and>
     distinct [UNKNOWN_ERROR A, PERMISSION_DENIED A, NAME_NOT_FOUND A, NO_MEMORY A, NO_INIT A,
       BAD_VALUE A, INVALID_OPERATION A, DEAD_OBJECT A] \<and>
     0 < SENSORS_DEVICE_API_VERSION_1_3 A \<and> SENSORS_DEVICE_API_VERSION_1_3 A < SENSORS_DEVICE_API_VERSION_1_4 A"

text \<open>An instance to evaluate examples with: the values of Android 10.\<close>

definition android :: aosp where
  "android = \<lparr>OK = 0, UNKNOWN_ERROR = - 2147483648, PERMISSION_DENIED = - 1, NAME_NOT_FOUND = - 2, NO_MEMORY = - 12,
     NO_INIT = - 19, BAD_VALUE = - 22, INVALID_OPERATION = - 38, DEAD_OBJECT = - 32,
     SENSORS_DEVICE_API_VERSION_1_3 = 0x01030001, SENSORS_DEVICE_API_VERSION_1_4 = 0x01040001,
     SENSOR_TYPE_DYNAMIC_SENSOR_META = 32, ASENSOR_TYPE_ACCELEROMETER = 1\<rparr>"

lemma android_ok [simp]: "platform_ok android"
  by (simp add: platform_ok_def android_def)

lemma platform_signs:
  assumes "platform_ok A"
  shows "OK A = 0" "UNKNOWN_ERROR A < 0" "PERMISSION_DENIED A < 0" "NAME_NOT_FOUND A < 0" "NO_MEMORY A < 0"
    "NO_INIT A < 0" "BAD_VALUE A < 0" "INVALID_OPERATION A < 0" "DEAD_OBJECT A < 0"
    "0 < SENSORS_DEVICE_API_VERSION_1_3 A"
  using assms by (simp_all add: platform_ok_def)

end
