(* ===== verification/Sensor_Time.thy ===== *)
theory Sensor_Time
  imports M86_Prelude "HOL-Library.Monad_Syntax"
begin

text \<open>
  The timestamp bridge of \<^verbatim>\<open>sensors/hal/TimestampNormalizer.h\<close>: sampling the two clocks and
  moving the wall-clock timestamps of the light and proximity sensors to boot time. All
  arithmetic is on \<^verbatim>\<open>int64_t\<close>, where an overflow is undefined: an outer \<open>None\<close> here. The
  clocks are read from a timeline whose script says how much time passes before each
  reading, by how much the wall clock is set then, and whether the call fails.
\<close>

section \<open>Checked arithmetic\<close>

definition s64 :: "int \<Rightarrow> int option" where
  "s64 v = (if fits_s64 v then Some v else None)"

section \<open>Clocks\<close>

datatype clockid = CLOCK_BOOTTIME | CLOCK_REALTIME

record timespec =
  tv_sec :: int
  tv_nsec :: int

record timeline =
  tl_boot :: int
  tl_offset :: int
  tl_script :: "(nat \<times> int \<times> bool) list"

record clocks =
  clk_boot :: int
  clk_real :: int
  clk_valid :: bool

definition kSecond :: int where
  "kSecond = 1000000000"

definition no_clocks :: clocks where
  "no_clocks = \<lparr>clk_boot = 0, clk_real = 0, clk_valid = False\<rparr>"

text \<open>Time passes up to the next call; the result says whether the call fails.\<close>

definition elapse :: "timeline \<Rightarrow> bool \<times> timeline" where
  "elapse t = (case tl_script t of
     [] \<Rightarrow> (False, t)
   | (n, step, fails) # rest \<Rightarrow>
       (fails, t\<lparr>tl_boot := tl_boot t + int n, tl_offset := tl_offset t + step, tl_script := rest\<rparr>))"

definition clock_gettime :: "clockid \<Rightarrow> timeline \<Rightarrow> timespec option \<times> timeline" where
  "clock_gettime c t =
     (let (fails, t1) = elapse t;
          v = (case c of CLOCK_BOOTTIME \<Rightarrow> tl_boot t1 | CLOCK_REALTIME \<Rightarrow> tl_boot t1 + tl_offset t1)
      in (if fails then None else Some \<lparr>tv_sec = v div kSecond, tv_nsec = v mod kSecond\<rparr>, t1))"

definition nanoseconds :: "timespec \<Rightarrow> int option" where
  "nanoseconds ts = do { s \<leftarrow> s64 (tv_sec ts * kSecond); s64 (s + tv_nsec ts) }"

text \<open>
  What one round of \<open>sampleClocks\<close> makes of its three readings: a sample, or \<open>Some None\<close>
  when the bracket is too wide and the round is repeated.
\<close>

definition clock_sample :: "timespec \<Rightarrow> timespec \<Rightarrow> timespec \<Rightarrow> clocks option option" where
  "clock_sample b0 r b1 = do {
     t0 \<leftarrow> nanoseconds b0;
     t1 \<leftarrow> nanoseconds b1;
     if t1 < t0 then Some None
     else do {
       d \<leftarrow> s64 (t1 - t0);
       if d \<le> 1000000 then do {
         mid \<leftarrow> s64 (t0 + cdiv d 2);
         wall \<leftarrow> nanoseconds r;
         Some (Some \<lparr>clk_boot = mid, clk_real = wall, clk_valid = True\<rparr>)
       } else Some None
     }
   }"

fun sample_rounds :: "nat \<Rightarrow> timeline \<Rightarrow> clocks option \<times> timeline" where
  "sample_rounds 0 t = (Some no_clocks, t)"
| "sample_rounds (Suc i) t =
     (case clock_gettime CLOCK_BOOTTIME t of
        (None, t1) \<Rightarrow> (Some no_clocks, t1)
      | (Some b0, t1) \<Rightarrow> (case clock_gettime CLOCK_REALTIME t1 of
          (None, t2) \<Rightarrow> (Some no_clocks, t2)
        | (Some r, t2) \<Rightarrow> (case clock_gettime CLOCK_BOOTTIME t2 of
            (None, t3) \<Rightarrow> (Some no_clocks, t3)
          | (Some b1, t3) \<Rightarrow> (case clock_sample b0 r b1 of
              None \<Rightarrow> (None, t3)
            | Some (Some c) \<Rightarrow> (Some c, t3)
            | Some None \<Rightarrow> sample_rounds i t3))))"

definition sampleClocks :: "timeline \<Rightarrow> clocks option \<times> timeline" where
  "sampleClocks t = sample_rounds 3 t"

section \<open>Normalisation\<close>

text \<open>The fixed handles of the light sensor (type 5) and the proximity sensors (type 8).\<close>

definition isLegacyInputSensor :: "int \<Rightarrow> int \<Rightarrow> bool" where
  "isLegacyInputSensor handle type \<longleftrightarrow> (type = 5 \<and> handle = 4) \<or> (type = 8 \<and> (handle = 3 \<or> handle = 27))"

definition normalizeTimestamp :: "int \<Rightarrow> clocks \<Rightarrow> clocks \<Rightarrow> int option option" where
  "normalizeTimestamp timestamp before after =
     (if \<not> clk_valid before \<or> \<not> clk_valid after \<or> timestamp \<le> 0 then Some None
      else do {
        offset \<leftarrow> s64 (clk_real after - clk_boot after);
        earlier \<leftarrow> s64 (clk_real before - clk_boot before);
        change \<leftarrow> s64 (offset - earlier);
        if change > 5000000 \<or> change < - 5000000 then Some None
        else do {
          oldest \<leftarrow> s64 (clk_real after - 10 * kSecond);
          if timestamp < oldest then Some None
          else do {
            newest \<leftarrow> s64 (clk_real after + 1000000);
            if timestamp > newest then Some None
            else do {
              converted \<leftarrow> s64 (timestamp - offset);
              if converted \<le> 0 then Some None else Some (Some converted)
            }
          }
        }
      })"

section \<open>The specification\<close>

text \<open>Which samples are kept and at which time, over the integers.\<close>

definition normal_time :: "int \<Rightarrow> clocks \<Rightarrow> clocks \<Rightarrow> int option" where
  "normal_time ts before after =
     (let offset = clk_real after - clk_boot after
      in if clk_valid before \<and> clk_valid after \<and> 0 < ts \<and>
            \<bar>offset - (clk_real before - clk_boot before)\<bar> \<le> 5000000 \<and>
            clk_real after - 10 * kSecond \<le> ts \<and> ts \<le> clk_real after + 1000000 \<and> 0 < ts - offset
         then Some (ts - offset) else None)"

text \<open>Clock values within 73 years of the epochs.\<close>

definition sane_clocks :: "clocks \<Rightarrow> bool" where
  "sane_clocks c \<longleftrightarrow> \<bar>clk_boot c\<bar> < 2 ^ 61 \<and> \<bar>clk_real c\<bar> < 2 ^ 61"

definition steady :: "timeline \<Rightarrow> bool" where
  "steady t \<longleftrightarrow> list_all (\<lambda>(n, step, fails). step = 0) (tl_script t)"

definition sane_timeline :: "timeline \<Rightarrow> bool" where
  "sane_timeline t \<longleftrightarrow> 0 \<le> tl_boot t \<and> \<bar>tl_offset t\<bar> + tl_boot t + sum_list (map (\<lambda>(n, step, fails). int n + \<bar>step\<bar>) (tl_script t)) < 2 ^ 61"

section \<open>Lemmas\<close>

lemma s64_Some: "fits_s64 v \<Longrightarrow> s64 v = Some v"
  by (simp add: s64_def)

lemma s64_eq_Some [simp]: "s64 v = Some u \<longleftrightarrow> fits_s64 v \<and> u = v"
  by (auto simp: s64_def)

lemma cdiv_nonneg: "0 \<le> a \<Longrightarrow> 0 < b \<Longrightarrow> cdiv a b = a div b"
  by (cases "a = 0") (simp_all add: cdiv_def)

lemma nanoseconds_split [simp]:
  assumes "\<bar>v\<bar> < 2 ^ 61"
  shows "nanoseconds \<lparr>tv_sec = v div kSecond, tv_nsec = v mod kSecond\<rparr> = Some v"
proof -
  have "v div kSecond * kSecond + v mod kSecond = v" by simp
  moreover have "0 \<le> v mod kSecond" "v mod kSecond < kSecond" by (simp_all add: kSecond_def)
  ultimately have "fits_s64 (v div kSecond * kSecond)" using assms by (auto simp: fits_s64_def kSecond_def)
  then show ?thesis using assms by (auto simp: nanoseconds_def s64_def fits_s64_def)
qed

text \<open>How the timeline moves on.\<close>

definition later :: "timeline \<Rightarrow> timeline \<Rightarrow> bool" where
  "later t t' \<longleftrightarrow> tl_boot t \<le> tl_boot t' \<and> (sane_timeline t \<longrightarrow> sane_timeline t') \<and>
     (steady t \<longrightarrow> steady t' \<and> tl_offset t' = tl_offset t)"

lemma later_refl [simp]: "later t t"
  by (simp add: later_def)

lemma later_trans [trans]: "later t u \<Longrightarrow> later u v \<Longrightarrow> later t v"
  by (auto simp: later_def)

lemma later_elapse: "later t (snd (elapse t))"
  by (auto simp: later_def elapse_def sane_timeline_def steady_def split: list.splits)

lemma sane_now: "sane_timeline t \<Longrightarrow> \<bar>tl_boot t\<bar> < 2 ^ 61 \<and> \<bar>tl_boot t + tl_offset t\<bar> < 2 ^ 61"
proof -
  assume a: "sane_timeline t"
  have "0 \<le> sum_list (map (\<lambda>(n, step, fails). int n + \<bar>step\<bar>) (tl_script t))"
    by (rule sum_list_nonneg) auto
  with a show ?thesis by (auto simp: sane_timeline_def)
qed

lemma clock_gettime_cases:
  assumes "clock_gettime c t = (r, t')"
  shows "later t t' \<and> (\<forall>ts. sane_timeline t \<longrightarrow> r = Some ts \<longrightarrow>
    nanoseconds ts = Some (case c of CLOCK_BOOTTIME \<Rightarrow> tl_boot t' | CLOCK_REALTIME \<Rightarrow> tl_boot t' + tl_offset t'))"
proof -
  from assms have t': "t' = snd (elapse t)" by (auto simp: clock_gettime_def Let_def split: prod.splits)
  have l: "later t t'" using later_elapse t' by simp
  have "nanoseconds ts = Some (case c of CLOCK_BOOTTIME \<Rightarrow> tl_boot t' | CLOCK_REALTIME \<Rightarrow> tl_boot t' + tl_offset t')"
    if "sane_timeline t" "r = Some ts" for ts
  proof -
    from that l have "sane_timeline t'" by (simp add: later_def)
    with sane_now assms that(2) show ?thesis
      by (auto simp: clock_gettime_def Let_def t' split: prod.splits clockid.splits if_splits)
  qed
  with l show ?thesis by blast
qed

text \<open>A round over three readings: never undefined, and exact up to half the bracket.\<close>

lemma clock_sample_spec:
  assumes "nanoseconds b0 = Some x0" "nanoseconds r = Some w" "nanoseconds b1 = Some x1"
    and "0 \<le> x0" "x1 < 2 ^ 61"
  shows "clock_sample b0 r b1 =
    Some (if x0 \<le> x1 \<and> x1 - x0 \<le> 1000000 then Some \<lparr>clk_boot = x0 + (x1 - x0) div 2, clk_real = w, clk_valid = True\<rparr> else None)"
proof -
  have "x0 \<le> x1 \<Longrightarrow> fits_s64 (x1 - x0)" "x0 \<le> x1 \<Longrightarrow> fits_s64 (x0 + (x1 - x0) div 2)"
    using assms(4,5) by (auto simp: fits_s64_def)
  then show ?thesis using assms(1-3) by (simp add: clock_sample_def s64_def cdiv_nonneg)
qed

text \<open>
  What a sample promises: it is defined, bracketed by the two moments \<open>lo\<close> and \<open>hi\<close>, and
  on a steady wall clock its offset is exact up to half a millisecond.
\<close>

definition good_sample :: "timeline \<Rightarrow> clocks \<Rightarrow> timeline \<Rightarrow> bool" where
  "good_sample t c t' \<longleftrightarrow> later t t' \<and> (clk_valid c \<longrightarrow>
     tl_boot t \<le> clk_boot c \<and> clk_boot c \<le> tl_boot t' \<and> sane_clocks c \<and>
     (steady t \<longrightarrow> \<bar>clk_real c - clk_boot c - tl_offset t\<bar> \<le> 500000 \<and>
        tl_boot t \<le> clk_real c - tl_offset t \<and> clk_real c - tl_offset t \<le> tl_boot t'))"

lemma sample_rounds_good:
  assumes "sane_timeline t" and "sample_rounds i t = (r, t')"
  shows "\<exists>c. r = Some c \<and> good_sample t c t'"
  using assms
proof (induction i arbitrary: t)
  case 0
  then show ?case by (auto simp: good_sample_def no_clocks_def)
next
  case (Suc i)
  obtain r0 t1 where c0: "clock_gettime CLOCK_BOOTTIME t = (r0, t1)" by fastforce
  obtain r1 t2 where c1: "clock_gettime CLOCK_REALTIME t1 = (r1, t2)" by fastforce
  obtain r2 t3 where c2: "clock_gettime CLOCK_BOOTTIME t2 = (r2, t3)" by fastforce
  note g0 = clock_gettime_cases [OF c0] and g1 = clock_gettime_cases [OF c1] and g2 = clock_gettime_cases [OF c2]
  have sane: "sane_timeline t1" "sane_timeline t2" "sane_timeline t3"
    using g0 g1 g2 Suc.prems(1) by (auto simp: later_def)
  have l: "later t t1" "later t t2" "later t t3" using g0 g1 g2 by (blast intro: later_trans)+
  show ?case
  proof (cases "r0 = None \<or> r1 = None \<or> r2 = None")
    case True
    with Suc.prems(2) c0 c1 c2 l show ?thesis
      by (auto simp: good_sample_def no_clocks_def split: option.splits)
  next
    case False
    then obtain b0 b r' where rs: "r0 = Some b0" "r1 = Some r'" "r2 = Some b" by auto
    have n: "nanoseconds b0 = Some (tl_boot t1)" "nanoseconds r' = Some (tl_boot t2 + tl_offset t2)"
      "nanoseconds b = Some (tl_boot t3)" using g0 g1 g2 sane Suc.prems(1) rs by auto
    have pos: "0 \<le> tl_boot t1" using sane(1) by (simp add: sane_timeline_def)
    have up: "tl_boot t3 < 2 ^ 61" using sane_now [OF sane(3)] by auto
    note cs = clock_sample_spec [OF n pos up]
    have ord: "tl_boot t \<le> tl_boot t1" "tl_boot t1 \<le> tl_boot t2" "tl_boot t2 \<le> tl_boot t3"
      using g0 g1 g2 by (auto simp: later_def)
    show ?thesis
    proof (cases "tl_boot t3 - tl_boot t1 \<le> 1000000")
      case True
      with Suc.prems(2) c0 c1 c2 rs cs ord
      have res: "r = Some \<lparr>clk_boot = tl_boot t1 + (tl_boot t3 - tl_boot t1) div 2,
          clk_real = tl_boot t2 + tl_offset t2, clk_valid = True\<rparr>" "t' = t3" by auto
      have st: "steady t \<Longrightarrow> tl_offset t2 = tl_offset t" using l by (auto simp: later_def)
      have "\<bar>tl_boot t2 - (tl_boot t1 + (tl_boot t3 - tl_boot t1) div 2)\<bar> \<le> 500000"
        using True ord by linarith
      with res st ord l up pos sane_now [OF sane(2)] show ?thesis
        by (auto simp: good_sample_def sane_clocks_def)
    next
      case False
      with Suc.prems(2) c0 c1 c2 rs cs have "sample_rounds i t3 = (r, t')" by simp
      from Suc.IH [OF sane(3) this] obtain c where c: "r = Some c" "good_sample t3 c t'" by blast
      with l(3) have "good_sample t c t'" unfolding good_sample_def
        by (auto simp: later_def)
      with c show ?thesis by blast
    qed
  qed
qed

lemma sampleClocks_good:
  "sane_timeline t \<Longrightarrow> sampleClocks t = (r, t') \<Longrightarrow> \<exists>c. r = Some c \<and> good_sample t c t'"
  unfolding sampleClocks_def by (rule sample_rounds_good)

lemma normalize_meets_spec:
  assumes "sane_clocks before" "sane_clocks after"
  shows "normalizeTimestamp ts before after = Some (normal_time ts before after)"
proof -
  have f: "fits_s64 (clk_real after - clk_boot after)" "fits_s64 (clk_real before - clk_boot before)"
    "fits_s64 ((clk_real after - clk_boot after) - (clk_real before - clk_boot before))"
    "fits_s64 (clk_real after - 10 * kSecond)" "fits_s64 (clk_real after + 1000000)"
    using assms(1,2) by (auto simp: sane_clocks_def fits_s64_def kSecond_def abs_less_iff)
  have g: "\<not> ts < clk_real after - 10 * kSecond \<Longrightarrow> \<not> ts > clk_real after + 1000000 \<Longrightarrow> fits_s64 (ts - (clk_real after - clk_boot after))"
    using assms(2) by (auto simp: sane_clocks_def fits_s64_def kSecond_def abs_less_iff)
  show ?thesis using f g by (auto simp: normalizeTimestamp_def normal_time_def s64_def Let_def abs_le_iff)
qed

lemma normalize_invalid: "\<not> clk_valid before \<or> \<not> clk_valid after \<Longrightarrow> normalizeTimestamp ts before after = Some None"
  by (auto simp: normalizeTimestamp_def)

lemma normal_time_invalid: "\<not> clk_valid before \<or> \<not> clk_valid after \<Longrightarrow> normal_time ts before after = None"
  by (auto simp: normal_time_def)

text \<open>Samples the code took never lead to an overflow, whatever the timestamp.\<close>

lemma normalize_sampled:
  assumes "good_sample t before t1" "good_sample t2 after t3"
  shows "normalizeTimestamp ts before after = Some (normal_time ts before after)"
proof (cases "clk_valid before \<and> clk_valid after")
  case True
  with assms show ?thesis by (intro normalize_meets_spec) (simp_all add: good_sample_def)
next
  case False
  then show ?thesis by (auto simp: normalize_invalid normal_time_invalid)
qed

section \<open>Properties\<close>

text \<open>
  C22: Timestamps are moved to boot time without overflow: for two clock samples taken with
  clock values within 73 years of their epochs, and for every timestamp, however corrupt,
  the conversion is defined and equals its specification over the integers: an event is
  kept exactly when both samples are valid, the offset moved by at most 5 ms, and the event
  is at most 10 s old and 1 ms in the future, and a kept event lies in the same window
  around the boot time of the second sample.
\<close>

theorem normalize_without_overflow:
  assumes "sane_timeline t" "sampleClocks t = (Some before, t1)"
    and "sane_timeline t2" "sampleClocks t2 = (Some after, t3)"
  shows "normalizeTimestamp ts before after = Some (normal_time ts before after) \<and>
    (case normal_time ts before after of
       None \<Rightarrow> True
     | Some v \<Rightarrow> 0 < v \<and> clk_boot after - 10000000000 \<le> v \<and> v \<le> clk_boot after + 1000000)"
proof -
  from sampleClocks_good [OF assms(1,2)] sampleClocks_good [OF assms(3,4)]
  have "good_sample t before t1" "good_sample t2 after t3" by auto
  from normalize_sampled [OF this] show ?thesis
    by (auto simp: normal_time_def Let_def kSecond_def split: if_splits option.splits)
qed

text \<open>
  C13: Accuracy: while nobody sets the wall clock, an event that the sensor captured at boot
  time \<open>capture\<close>, before the second sample and at most 9 s earlier, is kept, and its
  converted timestamp differs from \<open>capture\<close> by at most half a millisecond.
\<close>

theorem timestamp_accuracy:
  assumes "sane_timeline t" "steady t" "sampleClocks t = (Some before, t1)" "clk_valid before"
    and "later t1 t2" "sampleClocks t2 = (Some after, t3)" "clk_valid after"
    and "500000 < capture" "0 < capture + tl_offset t" "capture \<le> tl_boot t2" "tl_boot t3 \<le> capture + 9000000000"
  shows "\<exists>v. normalizeTimestamp (capture + tl_offset t) before after = Some (Some v) \<and> \<bar>v - capture\<bar> \<le> 500000"
proof -
  have g1: "good_sample t before t1" using sampleClocks_good [OF assms(1,3)] by simp
  then have "later t t2" using assms(5) by (auto simp: good_sample_def intro: later_trans)
  then have t2: "sane_timeline t2" "steady t2" "tl_offset t2 = tl_offset t" using assms(1,2) by (simp_all add: later_def)
  have g2: "good_sample t2 after t3" using sampleClocks_good [OF t2(1) assms(6)] by simp
  let ?o = "clk_real after - clk_boot after"
  have e: "\<bar>clk_real before - clk_boot before - tl_offset t\<bar> \<le> 500000" "\<bar>?o - tl_offset t\<bar> \<le> 500000"
    "tl_boot t2 \<le> clk_real after - tl_offset t" "clk_real after - tl_offset t \<le> tl_boot t3"
    using g1 g2 assms(2,4,7) t2 by (auto simp: good_sample_def)
  have v: "\<bar>capture + tl_offset t - ?o - capture\<bar> \<le> 500000" using e(2) by linarith
  moreover have "\<bar>?o - (clk_real before - clk_boot before)\<bar> \<le> 5000000" "?o < capture + tl_offset t"
    using e assms(8) by linarith+
  ultimately have "normal_time (capture + tl_offset t) before after = Some (capture + tl_offset t - ?o)"
    using e assms(4,7-) by (simp add: normal_time_def kSecond_def Let_def)
  with normalize_sampled [OF g1 g2] v show ?thesis by auto
qed

section \<open>Instances\<close>

definition demo_timeline :: timeline where
  "demo_timeline = \<lparr>tl_boot = 60000000000, tl_offset = 1700000000000000000, tl_script = [(5, 0, False), (400, 0, False), (400, 0, False)]\<rparr>"

definition demo_before :: clocks where
  "demo_before = \<lparr>clk_boot = 60000000405, clk_real = 1700000060000000405, clk_valid = True\<rparr>"

definition demo_timeline1 :: timeline where
  "demo_timeline1 = \<lparr>tl_boot = 60000000805, tl_offset = 1700000000000000000, tl_script = []\<rparr>"

definition demo_after :: clocks where
  "demo_after = \<lparr>clk_boot = 60000000805, clk_real = 1700000060000000805, clk_valid = True\<rparr>"

lemmas demo_time_defs = demo_timeline_def demo_timeline1_def demo_before_def demo_after_def

lemma demo_sample: "sampleClocks demo_timeline = (Some demo_before, demo_timeline1)"
  "sampleClocks demo_timeline1 = (Some demo_after, demo_timeline1)"
  by (simp_all add: demo_time_defs sampleClocks_def clock_gettime_def elapse_def Let_def clock_sample_def
      nanoseconds_def kSecond_def s64_def fits_s64_def cdiv_def numeral_3_eq_3)

lemma demo_sane: "sane_timeline demo_timeline" "sane_timeline demo_timeline1" "steady demo_timeline" "later demo_timeline1 demo_timeline1"
  by (simp_all add: demo_time_defs sane_timeline_def steady_def)

theorem normalize_without_overflow_witness:
  "normalizeTimestamp 1700000060000000000 demo_before demo_after = Some (Some 60000000000) \<and>
   normalizeTimestamp 9223372036854775807 demo_before demo_after = Some None"
  using normalize_without_overflow [OF demo_sane(1) demo_sample(1) demo_sane(2) demo_sample(2), of 1700000060000000000]
    normalize_without_overflow [OF demo_sane(1) demo_sample(1) demo_sane(2) demo_sample(2), of 9223372036854775807]
  by (simp add: normal_time_def demo_time_defs kSecond_def Let_def)

theorem timestamp_accuracy_witness:
  "\<exists>v. normalizeTimestamp 1700000059000000000 demo_before demo_after = Some (Some v) \<and> \<bar>v - 59000000000\<bar> \<le> 500000"
  using timestamp_accuracy [OF demo_sane(1,3) demo_sample(1) _ demo_sane(4) demo_sample(2), of 59000000000]
  by (simp add: demo_time_defs)

end
