(* ===== verification/Sensors.thy ===== *)
theory Sensors
  imports Aosp Sensor_Time
begin

text \<open>
  The sensor bridge of \<^verbatim>\<open>sensors/hal/Sensors.cpp\<close> over the legacy sensor library. The
  library's functions are not part of the repository: they are the function pointers of
  the module and device records here, over a state \<open>'d\<close> of their own, with the optional
  ones as \<open>option\<close>. The conversions of \<^verbatim>\<open>convert.h\<close> are parameters as well. A call of a null
  pointer, a failing \<^verbatim>\<open>CHECK\<close>, \<^verbatim>\<open>exit\<close> and an arithmetic overflow are values of \<open>run\<close>; a call
  that never returns is \<open>None\<close>.
\<close>

section \<open>Data\<close>

record sensor_t =
  handle :: int
  sensor_data :: blob

record sensors_event =
  sensor :: int
  type :: int
  timestamp :: int
  meta_connected :: bool
  meta_handle :: int
  meta_sensor :: "sensor_t option"
  event_data :: blob

record 'd sensor_module =
  get_sensors_list :: "'d \<Rightarrow> sensor_t list \<times> 'd"
  set_operation_mode :: "(u32 \<Rightarrow> 'd \<Rightarrow> int \<times> 'd) option"

record 'd sensor_device =
  version :: int
  dev_activate :: "int \<Rightarrow> bool \<Rightarrow> 'd \<Rightarrow> int \<times> 'd"
  dev_poll :: "sensors_event list \<Rightarrow> 'd \<Rightarrow> int \<times> sensors_event list \<times> 'd"
  dev_batch :: "int \<Rightarrow> int \<Rightarrow> int \<Rightarrow> int \<Rightarrow> 'd \<Rightarrow> int \<times> 'd"
  dev_flush :: "int \<Rightarrow> 'd \<Rightarrow> int \<times> 'd"
  inject_sensor_data :: "(sensors_event \<Rightarrow> 'd \<Rightarrow> int \<times> 'd) option"
  register_direct_channel :: "(blob option \<Rightarrow> int \<Rightarrow> 'd \<Rightarrow> int \<times> 'd) option"
  config_direct_report :: "(int \<Rightarrow> int \<Rightarrow> int \<Rightarrow> 'd \<Rightarrow> int \<times> 'd) option"

datatype Result = Result_OK | Result_PERMISSION_DENIED | Result_NO_MEMORY | Result_BAD_VALUE | Result_INVALID_OPERATION

datatype RateLevel = STOP | OtherRate nat

text \<open>\<^verbatim>\<open>convert.h\<close>\<close>

record conversions =
  convertFromSensor :: "sensor_t \<Rightarrow> blob"
  convertFromSensorEvent :: "sensors_event \<Rightarrow> blob"
  convertToSensorEvent :: "blob \<Rightarrow> sensors_event"
  convertFromSharedMemInfo :: "blob \<Rightarrow> blob option"
  convertFromRateLevel :: "RateLevel \<Rightarrow> int"

datatype 'a run = Returns 'a | NullCall | CheckFailed | Exits int | Overflow

record 'd sensors =
  mInitCheck :: int
  mSensorModule :: "'d sensor_module option"
  mSensorDevice :: "'d sensor_device option"
  mPollLock :: bool
  senv :: 'd
  stime :: timeline

text \<open>What the constructor meets: the multi-HAL configuration file and the libraries' entry points.\<close>

record 'd loader =
  multi_hal_config :: bool
  get_multi_hal_module_info :: "'d sensor_module option"
  hw_get_module :: "int \<times> 'd sensor_module option"
  sensors_open_1 :: "'d sensor_module \<Rightarrow> 'd \<Rightarrow> int \<times> 'd sensor_device option \<times> 'd"

section \<open>Construction\<close>

definition UseMultiHal :: "'d loader \<Rightarrow> bool" where
  "UseMultiHal L = multi_hal_config L"

definition ResultFromStatus :: "aosp \<Rightarrow> int \<Rightarrow> Result" where
  "ResultFromStatus A err =
     (if err = OK A then Result_OK
      else if err = PERMISSION_DENIED A then Result_PERMISSION_DENIED
      else if err = NO_MEMORY A then Result_NO_MEMORY
      else if err = BAD_VALUE A then Result_BAD_VALUE
      else Result_INVALID_OPERATION)"

definition getHalDeviceVersion :: "'d sensors \<Rightarrow> int" where
  "getHalDeviceVersion s = (case mSensorDevice s of None \<Rightarrow> -1 | Some d \<Rightarrow> version d)"

definition Sensors_construct :: "aosp \<Rightarrow> 'd loader \<Rightarrow> 'd \<Rightarrow> timeline \<Rightarrow> 'd sensors run" where
  "Sensors_construct A L d t =
     (let s0 = \<lparr>mInitCheck = NO_INIT A, mSensorModule = None, mSensorDevice = None, mPollLock = False, senv = d, stime = t\<rparr>;
          (err, m) = (if UseMultiHal L then (OK A, get_multi_hal_module_info L) else hw_get_module L);
          s1 = s0\<lparr>mSensorModule := m\<rparr>;
          err1 = (if m = None then UNKNOWN_ERROR A else err)
      in if err1 \<noteq> OK A then Returns (s1\<lparr>mInitCheck := err1\<rparr>)
         else let (err2, dev, d') = sensors_open_1 L (the m) d;
                  s2 = s1\<lparr>mSensorDevice := dev, senv := d'\<rparr>
              in if err2 \<noteq> OK A then Returns (s2\<lparr>mInitCheck := err2\<rparr>)
                 else if getHalDeviceVersion s2 < SENSORS_DEVICE_API_VERSION_1_3 A then CheckFailed
                 else Returns (s2\<lparr>mInitCheck := OK A\<rparr>))"

definition initCheck :: "'d sensors \<Rightarrow> int" where
  "initCheck s = mInitCheck s"

definition HIDL_FETCH_ISensors :: "aosp \<Rightarrow> 'd loader \<Rightarrow> 'd \<Rightarrow> timeline \<Rightarrow> 'd sensors option run" where
  "HIDL_FETCH_ISensors A L d t =
     (case Sensors_construct A L d t of
        Returns s \<Rightarrow> Returns (if initCheck s \<noteq> OK A then None else Some s)
      | NullCall \<Rightarrow> NullCall | CheckFailed \<Rightarrow> CheckFailed | Exits n \<Rightarrow> Exits n | Overflow \<Rightarrow> Overflow)"

section \<open>Calls that forward to the device\<close>

definition with_device :: "('d sensor_device \<Rightarrow> 'a run \<times> 'd sensors) \<Rightarrow> 'd sensors \<Rightarrow> 'a run \<times> 'd sensors" where
  "with_device f s = (case mSensorDevice s of None \<Rightarrow> (NullCall, s) | Some dev \<Rightarrow> f dev)"

definition forward :: "('d \<Rightarrow> int \<times> 'd) \<Rightarrow> (int \<Rightarrow> 'a) \<Rightarrow> 'd sensors \<Rightarrow> 'a run \<times> 'd sensors" where
  "forward f reply s = (let (err, d) = f (senv s) in (Returns (reply err), s\<lparr>senv := d\<rparr>))"

definition getSensorsList :: "conversions \<Rightarrow> 'd sensors \<Rightarrow> blob list run \<times> 'd sensors" where
  "getSensorsList C s =
     (case mSensorModule s of
        None \<Rightarrow> (NullCall, s)
      | Some m \<Rightarrow> (let (l, d) = get_sensors_list m (senv s)
                   in (Returns (map (convertFromSensor C) l), s\<lparr>senv := d\<rparr>)))"

definition setOperationMode :: "aosp \<Rightarrow> int \<Rightarrow> 'd sensors \<Rightarrow> Result run \<times> 'd sensors" where
  "setOperationMode A mode s =
     (if getHalDeviceVersion s < SENSORS_DEVICE_API_VERSION_1_4 A then (Returns Result_INVALID_OPERATION, s)
      else case mSensorModule s of
        None \<Rightarrow> (NullCall, s)
      | Some m \<Rightarrow> (case set_operation_mode m of
          None \<Rightarrow> (Returns Result_INVALID_OPERATION, s)
        | Some f \<Rightarrow> forward (f (word_of_int mode)) (ResultFromStatus A) s))"

definition activate :: "aosp \<Rightarrow> int \<Rightarrow> bool \<Rightarrow> 'd sensors \<Rightarrow> Result run \<times> 'd sensors" where
  "activate A sensor_handle enabled s =
     with_device (\<lambda>dev. forward (dev_activate dev sensor_handle enabled) (ResultFromStatus A) s) s"

definition batch :: "aosp \<Rightarrow> int \<Rightarrow> int \<Rightarrow> int \<Rightarrow> 'd sensors \<Rightarrow> Result run \<times> 'd sensors" where
  "batch A sensor_handle sampling_period_ns max_report_latency_ns s =
     with_device (\<lambda>dev. forward (dev_batch dev sensor_handle 0 sampling_period_ns max_report_latency_ns) (ResultFromStatus A) s) s"

definition flush :: "aosp \<Rightarrow> int \<Rightarrow> 'd sensors \<Rightarrow> Result run \<times> 'd sensors" where
  "flush A sensor_handle s = with_device (\<lambda>dev. forward (dev_flush dev sensor_handle) (ResultFromStatus A) s) s"

definition injectSensorData :: "aosp \<Rightarrow> conversions \<Rightarrow> blob \<Rightarrow> 'd sensors \<Rightarrow> Result run \<times> 'd sensors" where
  "injectSensorData A C event s =
     (if getHalDeviceVersion s < SENSORS_DEVICE_API_VERSION_1_4 A then (Returns Result_INVALID_OPERATION, s)
      else with_device (\<lambda>dev. case inject_sensor_data dev of
          None \<Rightarrow> (Returns Result_INVALID_OPERATION, s)
        | Some f \<Rightarrow> forward (f (convertToSensorEvent C event)) (ResultFromStatus A) s) s)"

section \<open>Direct channels\<close>

text \<open>Both pointers present, as the three entry points test.\<close>

definition direct_calls :: "'d sensor_device \<Rightarrow>
    ((blob option \<Rightarrow> int \<Rightarrow> 'd \<Rightarrow> int \<times> 'd) \<times> (int \<Rightarrow> int \<Rightarrow> int \<Rightarrow> 'd \<Rightarrow> int \<times> 'd)) option" where
  "direct_calls dev = (case (register_direct_channel dev, config_direct_report dev) of
     (Some r, Some c) \<Rightarrow> Some (r, c) | _ \<Rightarrow> None)"

definition registerDirectChannel :: "aosp \<Rightarrow> conversions \<Rightarrow> blob \<Rightarrow> 'd sensors \<Rightarrow> (Result \<times> int) run \<times> 'd sensors" where
  "registerDirectChannel A C mem s =
     with_device (\<lambda>dev. case direct_calls dev of
        None \<Rightarrow> (Returns (Result_INVALID_OPERATION, -1), s)
      | Some (reg, cfg) \<Rightarrow> (case convertFromSharedMemInfo C mem of
          None \<Rightarrow> (Returns (Result_BAD_VALUE, -1), s)
        | Some m \<Rightarrow> forward (reg (Some m) (-1)) (\<lambda>err. if err < 0 then (ResultFromStatus A err, -1) else (Result_OK, err)) s)) s"

definition unregisterDirectChannel :: "int \<Rightarrow> 'd sensors \<Rightarrow> Result run \<times> 'd sensors" where
  "unregisterDirectChannel channelHandle s =
     with_device (\<lambda>dev. case direct_calls dev of
        None \<Rightarrow> (Returns Result_INVALID_OPERATION, s)
      | Some (reg, cfg) \<Rightarrow> forward (reg None channelHandle) (\<lambda>err. Result_OK) s) s"

definition configDirectReport :: "aosp \<Rightarrow> conversions \<Rightarrow> int \<Rightarrow> int \<Rightarrow> RateLevel \<Rightarrow> 'd sensors \<Rightarrow> (Result \<times> int) run \<times> 'd sensors" where
  "configDirectReport A C sensorHandle channelHandle rate s =
     with_device (\<lambda>dev. case direct_calls dev of
        None \<Rightarrow> (Returns (Result_INVALID_OPERATION, -1), s)
      | Some (reg, cfg) \<Rightarrow>
          (let rate_level = convertFromRateLevel C rate
           in if rate_level < 0 then (Returns (Result_BAD_VALUE, -1), s)
              else forward (cfg sensorHandle channelHandle rate_level)
                (\<lambda>err. if rate = STOP then (ResultFromStatus A err, -1)
                       else (if err > 0 then Result_OK else ResultFromStatus A err, err)) s)) s"

section \<open>Polling\<close>

definition kPollMaxBufferSize :: int where
  "kPollMaxBufferSize = 128"

text \<open>
  The loop over the events of a batch, in place: \<open>todo\<close> events from index \<open>i\<close> on are left,
  the first \<open>kept\<close> entries hold what is kept so far. \<open>None\<close> is an overflow in the conversion.
\<close>

fun keep_events :: "clocks \<Rightarrow> clocks \<Rightarrow> nat \<Rightarrow> nat \<Rightarrow> nat \<Rightarrow> sensors_event list \<Rightarrow> (nat \<times> sensors_event list) option" where
  "keep_events before after 0 i kept data = Some (kept, data)"
| "keep_events before after (Suc todo) i kept data =
     (let event = data ! i
      in if isLegacyInputSensor (sensor event) (type event)
         then case normalizeTimestamp (timestamp event) before after of
             None \<Rightarrow> None
           | Some None \<Rightarrow> keep_events before after todo (Suc i) kept data
           | Some (Some normalized) \<Rightarrow>
               (let data1 = data[i := event\<lparr>timestamp := normalized\<rparr>]
                in keep_events before after todo (Suc i) (Suc kept) (data1[kept := data1 ! i]))
         else keep_events before after todo (Suc i) (Suc kept) (data[kept := event]))"

text \<open>
  One round of the loop: the bracketed call of the device. The flag says that the round
  leaves the loop by \<^verbatim>\<open>break\<close>.
\<close>

definition poll_round :: "aosp \<Rightarrow> 'd sensor_device \<Rightarrow> int \<Rightarrow> sensors_event list \<Rightarrow> 'd \<Rightarrow> timeline \<Rightarrow>
    (bool \<times> int \<times> sensors_event list) option \<times> 'd \<times> timeline" where
  "poll_round A dev bufferSize data d t =
     (let (before, t1) = sampleClocks t;
          (err, data1, d1) = dev_poll dev data d;
          (after, t3) = sampleClocks (snd (elapse t1))
      in (case (before, after) of
            (Some b, Some a) \<Rightarrow>
              if err > bufferSize then Some (True, BAD_VALUE A, data1)
              else if err > 0
              then (case keep_events b a (nat err) 0 0 data1 of
                      None \<Rightarrow> None | Some (kept, data2) \<Rightarrow> Some (False, int kept, data2))
              else Some (False, err, data1)
          | _ \<Rightarrow> None, d1, t3))"

partial_function (option) poll_loop :: "aosp \<Rightarrow> 'd sensor_device \<Rightarrow> int \<Rightarrow> sensors_event list \<Rightarrow> 'd \<Rightarrow> timeline \<Rightarrow>
    ((int \<times> sensors_event list) option \<times> 'd \<times> timeline) option" where
  "poll_loop A dev bufferSize data d t =
     (case poll_round A dev bufferSize data d t of
        (None, d1, t1) \<Rightarrow> Some (None, d1, t1)
      | (Some (leave, err, data1), d1, t1) \<Rightarrow>
          if \<not> leave \<and> err = 0 then poll_loop A dev bufferSize data1 d1 t1 else Some (Some (err, data1), d1, t1))"

text \<open>The sensors that the meta events of a batch announce, with the two \<^verbatim>\<open>CHECK\<close>s.\<close>

fun dynamic_sensors :: "aosp \<Rightarrow> conversions \<Rightarrow> sensors_event list \<Rightarrow> blob list run" where
  "dynamic_sensors A C [] = Returns []"
| "dynamic_sensors A C (e # es) =
     (if type e \<noteq> SENSOR_TYPE_DYNAMIC_SENSOR_META A \<or> \<not> meta_connected e then dynamic_sensors A C es
      else case meta_sensor e of
        None \<Rightarrow> CheckFailed
      | Some sn \<Rightarrow>
          if handle sn \<noteq> meta_handle e then CheckFailed
          else (case dynamic_sensors A C es of Returns l \<Rightarrow> Returns (convertFromSensor C sn # l) | r \<Rightarrow> r))"

definition convertFromSensorEvents :: "conversions \<Rightarrow> nat \<Rightarrow> sensors_event list \<Rightarrow> blob list" where
  "convertFromSensorEvents C count src = map (\<lambda>i. convertFromSensorEvent C (src ! i)) [0..<count]"

text \<open>What \<open>poll\<close> does behind the loop, with \<open>err\<close> and the buffer.\<close>

definition poll_reply :: "aosp \<Rightarrow> conversions \<Rightarrow> int \<Rightarrow> sensors_event list \<Rightarrow> (Result \<times> blob list \<times> blob list) run" where
  "poll_reply A C err data =
     (if err < 0 then Returns (ResultFromStatus A err, [], [])
      else let count = nat err
           in case dynamic_sensors A C (take count data) of
                Returns added \<Rightarrow> Returns (Result_OK, convertFromSensorEvents C count data, added)
              | NullCall \<Rightarrow> NullCall | CheckFailed \<Rightarrow> CheckFailed | Exits n \<Rightarrow> Exits n | Overflow \<Rightarrow> Overflow)"

text \<open>
  \<open>mPollLock\<close> says that another thread is inside the locked scope: a second \<open>poll\<close> then ends
  the process. The buffer is allocated uninitialised: \<open>junk\<close> is what it holds.
\<close>

definition poll :: "aosp \<Rightarrow> conversions \<Rightarrow> (nat \<Rightarrow> sensors_event) \<Rightarrow> int \<Rightarrow> 'd sensors \<Rightarrow>
    ((Result \<times> blob list \<times> blob list) run \<times> 'd sensors) option" where
  "poll A C junk maxCount s =
     (if mPollLock s then Some (Exits (-1), s)
      else if maxCount \<le> 0 then Some (poll_reply A C (BAD_VALUE A) [], s)
      else case mSensorDevice s of
        None \<Rightarrow> Some (NullCall, s)
      | Some dev \<Rightarrow>
          (let bufferSize = (if maxCount \<le> kPollMaxBufferSize then maxCount else kPollMaxBufferSize)
           in case poll_loop A dev bufferSize (map junk [0..<nat bufferSize]) (senv s) (stime s) of
                None \<Rightarrow> None
              | Some (None, d, t) \<Rightarrow> Some (Overflow, s\<lparr>senv := d, stime := t\<rparr>)
              | Some (Some (err, data), d, t) \<Rightarrow> Some (poll_reply A C err data, s\<lparr>senv := d, stime := t\<rparr>)))"

section \<open>The reference for a batch\<close>

text \<open>What becomes of one event, and what the loop has to deliver of a batch.\<close>

definition kept_event :: "clocks \<Rightarrow> clocks \<Rightarrow> sensors_event \<Rightarrow> sensors_event option" where
  "kept_event before after e =
     (if isLegacyInputSensor (sensor e) (type e)
      then map_option (\<lambda>v. e\<lparr>timestamp := v\<rparr>) (normal_time (timestamp e) before after)
      else Some e)"

definition kept_events :: "clocks \<Rightarrow> clocks \<Rightarrow> sensors_event list \<Rightarrow> sensors_event list" where
  "kept_events before after es = List.map_filter (kept_event before after) es"

text \<open>The documented contract of the device's \<^verbatim>\<open>poll\<close>: it fills the buffer it is given.\<close>

definition device_ok :: "'d sensor_device \<Rightarrow> bool" where
  "device_ok dev \<longleftrightarrow> (\<forall>data d. length (fst (snd (dev_poll dev data d))) = length data)"

text \<open>The moments a timeline passes through: time moves only from one clock reading or device call to the next.\<close>

inductive runs_to :: "timeline \<Rightarrow> timeline \<Rightarrow> bool" for t where
  here: "runs_to t t"
| tick: "runs_to t u \<Longrightarrow> runs_to t (snd (elapse u))"

text \<open>
  A batch as a round reads it, in a timeline that has come from \<open>t\<close>: the first clock sample, the events the
  device reported in the call that left it in \<open>d'\<close>, and the second sample, with which the round ends at \<open>t'\<close>.
\<close>

definition batch_read :: "'d sensor_device \<Rightarrow> timeline \<Rightarrow> clocks \<Rightarrow> sensors_event list \<Rightarrow> clocks \<Rightarrow> 'd \<Rightarrow> timeline \<Rightarrow> bool" where
  "batch_read dev t before raw after d' t' \<longleftrightarrow>
     (\<exists>t0 t1 data d data1. runs_to t t0 \<and> sampleClocks t0 = (Some before, t1) \<and>
        dev_poll dev data d = (int (length raw), data1, d') \<and> raw = take (length raw) data1 \<and>
        sampleClocks (snd (elapse t1)) = (Some after, t'))"

section \<open>Lemmas\<close>

lemma runs_to_trans: "runs_to u v \<Longrightarrow> runs_to t u \<Longrightarrow> runs_to t v"
  by (induction rule: runs_to.induct) (auto intro: tick)

lemma runs_to_later: "runs_to t t' \<Longrightarrow> later t t'"
  by (induction rule: runs_to.induct) (auto intro: later_trans later_elapse)

lemma runs_to_gettime: "clock_gettime c t = (r, t') \<Longrightarrow> runs_to t t'"
  using tick [OF here, of t] by (auto simp: clock_gettime_def Let_def split: prod.splits)

lemma runs_to_rounds: "sample_rounds i t = (r, t') \<Longrightarrow> runs_to t t'"
proof (induction i arbitrary: t)
  case (Suc i)
  then show ?case
    by (auto split: prod.splits option.splits dest!: runs_to_gettime intro: runs_to_trans)
qed (simp add: here)

lemma runs_to_sample: "sampleClocks t = (r, t') \<Longrightarrow> runs_to t t'"
  by (auto simp: sampleClocks_def dest: runs_to_rounds)

lemma batch_read_runs: "batch_read dev t before raw after d t' \<Longrightarrow> runs_to t t'"
  unfolding batch_read_def by (meson runs_to_sample runs_to_trans tick here)

lemma batch_read_from: "batch_read dev u before raw after d t' \<Longrightarrow> runs_to t u \<Longrightarrow> batch_read dev t before raw after d t'"
  unfolding batch_read_def using runs_to_trans by blast

text \<open>The second sample lies between the start and the end.\<close>

lemma batch_read_sampled:
  assumes "batch_read dev t before raw after d t'" "sane_timeline t" "clk_valid after"
  shows "tl_boot t \<le> clk_boot after" "clk_boot after \<le> tl_boot t'"
proof -
  from assms(1) obtain t0 t1 where s: "runs_to t t0" "sampleClocks t0 = (Some before, t1)"
    "sampleClocks (snd (elapse t1)) = (Some after, t')" unfolding batch_read_def by blast
  have l: "later t (snd (elapse t1))"
    using runs_to_later [OF runs_to_trans [OF tick [OF runs_to_sample [OF s(2)]] s(1)]] .
  then have "good_sample (snd (elapse t1)) after t'" using sampleClocks_good [OF _ s(3)] assms(2) by (simp add: later_def)
  with l assms(3) show "tl_boot t \<le> clk_boot after" "clk_boot after \<le> tl_boot t'"
    by (auto simp: good_sample_def later_def)
qed

lemma map_filter_Cons: "List.map_filter f (x # xs) = (case f x of None \<Rightarrow> [] | Some y \<Rightarrow> [y]) @ List.map_filter f xs"
  by (simp add: List.map_filter_def split: option.splits)

lemma keep_events_correct:
  assumes defd: "\<And>ts. normalizeTimestamp ts before after = Some (normal_time ts before after)"
    and "kept \<le> i" "i + todo \<le> length data"
  shows "\<exists>data'. keep_events before after todo i kept data =
      Some (kept + length (kept_events before after (take todo (drop i data))), data') \<and>
    take (kept + length (kept_events before after (take todo (drop i data)))) data' =
      take kept data @ kept_events before after (take todo (drop i data)) \<and> length data' = length data"
  using assms(2,3)
proof (induction todo arbitrary: i kept data)
  case 0
  then show ?case by (simp add: kept_events_def List.map_filter_def)
next
  case (Suc todo)
  let ?e = "data ! i"
  let ?K = "kept_events before after (take todo (drop (Suc i) data))"
  have split: "take (Suc todo) (drop i data) = ?e # take todo (drop (Suc i) data)"
    using Suc.prems by (simp add: Cons_nth_drop_Suc [symmetric])
  have step: "\<exists>data'. keep_events before after todo (Suc i) (Suc kept) (data[j := u, kept := x]) = Some (Suc kept + length ?K, data') \<and>
      take (Suc kept + length ?K) data' = take kept data @ x # ?K \<and> length data' = length data"
    if "j = i \<or> j = kept" for x u j
  proof -
    have d: "drop (Suc i) (data[j := u, kept := x]) = drop (Suc i) data" using that Suc.prems(1) by (auto simp: drop_update_cancel)
    have t: "take (Suc kept) (data[j := u, kept := x]) = take kept data @ [x]"
      using that Suc.prems by (auto simp: take_Suc_conv_app_nth take_update_cancel)
    show ?thesis using Suc.IH [of "Suc kept" "Suc i" "data[j := u, kept := x]"] Suc.prems by (simp add: d t)
  qed
  show ?case
  proof (cases "isLegacyInputSensor (sensor ?e) (type ?e)")
    case False
    with step [of kept ?e ?e] show ?thesis
      by (simp add: split kept_events_def map_filter_Cons kept_event_def Let_def)
  next
    case legacy: True
    show ?thesis
    proof (cases "normal_time (timestamp ?e) before after")
      case None
      with legacy Suc.IH [of kept "Suc i" data] Suc.prems show ?thesis
        by (simp add: split kept_events_def map_filter_Cons kept_event_def defd Let_def)
    next
      case (Some v)
      with legacy step [of i "?e\<lparr>timestamp := v\<rparr>" "?e\<lparr>timestamp := v\<rparr>"] Suc.prems show ?thesis
        by (simp add: split kept_events_def map_filter_Cons kept_event_def defd Let_def)
    qed
  qed
qed

text \<open>The whole batch: the in-place loop is the reference, and it never overruns the buffer.\<close>

lemma keep_batch:
  assumes "good_sample t before t1" "good_sample t2 after t3" "n \<le> length data"
  shows "\<exists>data'. keep_events before after n 0 0 data = Some (length (kept_events before after (take n data)), data') \<and>
    take (length (kept_events before after (take n data))) data' = kept_events before after (take n data) \<and>
    length data' = length data"
  using keep_events_correct [OF normalize_sampled [OF assms(1,2)], of 0 0 n data] assms(3) by simp

lemma kept_events_length: "length (kept_events before after es) \<le> length es"
  unfolding kept_events_def List.map_filter_def by (simp add: order_trans [OF length_filter_le])

lemma kept_eventsD:
  assumes "e \<in> set (kept_events before after es)" "isLegacyInputSensor (sensor e) (type e)"
  shows "0 < timestamp e" "clk_valid after" "clk_boot after - 10000000000 \<le> timestamp e" "timestamp e \<le> clk_boot after + 1000000"
proof -
  obtain e0 where "kept_event before after e0 = Some e" using assms(1)
    by (auto simp: kept_events_def List.map_filter_def split: option.splits)
  with assms(2) obtain v where "normal_time (timestamp e0) before after = Some v" "timestamp e = v"
    by (auto simp: kept_event_def split: if_splits)
  then show "0 < timestamp e" "clk_valid after" "clk_boot after - 10000000000 \<le> timestamp e" "timestamp e \<le> clk_boot after + 1000000"
    by (auto simp: normal_time_def Let_def kSecond_def split: if_splits)
qed

text \<open>One round, in a sane timeline: what it returns and what it leaves.\<close>

lemma poll_round_spec:
  assumes "device_ok dev" "sane_timeline t" "length data = nat n" "0 < n"
  shows "\<exists>leave err data' d' t'.
    poll_round A dev n data d t = (Some (leave, err, data'), d', t') \<and> runs_to t t' \<and> length data' = length data \<and>
    (if leave then err = BAD_VALUE A
     else err \<le> 0 \<and> err = fst (dev_poll dev data d) \<or>
       (\<exists>before raw after. batch_read dev t before raw after d' t' \<and> length raw \<le> nat n \<and> raw \<noteq> [] \<and>
          err = int (length (kept_events before after raw)) \<and> take (nat err) data' = kept_events before after raw))"
proof -
  obtain b t1 where s1: "sampleClocks t = (b, t1)" by fastforce
  from sampleClocks_good [OF assms(2) s1] obtain before where b: "b = Some before" and g1: "good_sample t before t1" by blast
  let ?t2 = "snd (elapse t1)"
  have r2: "runs_to t ?t2" by (rule tick [OF runs_to_sample [OF s1]])
  then have "sane_timeline ?t2" using runs_to_later assms(2) by (auto simp: later_def)
  moreover obtain a t3 where s2: "sampleClocks ?t2 = (a, t3)" by fastforce
  ultimately obtain after where a: "a = Some after" and g2: "good_sample ?t2 after t3" using sampleClocks_good by blast
  have r3: "runs_to t t3" by (rule runs_to_trans [OF runs_to_sample [OF s2] r2])
  obtain err data1 d1 where dp: "dev_poll dev data d = (err, data1, d1)" by (metis prod_cases3)
  have len: "length data1 = nat n" using assms(1,3) dp by (metis device_ok_def fst_conv snd_conv)
  note run = poll_round_def [of A dev n data d t] s1 b s2 a dp
  consider "err > n" | "err \<le> 0" | "0 < err" "err \<le> n" by linarith
  then show ?thesis
  proof cases
    case 1
    with run r3 len assms(3) show ?thesis by (auto simp: Let_def intro!: exI [of _ True])
  next
    case 2
    with run r3 len assms(3,4) show ?thesis by (auto simp: Let_def intro!: exI [of _ False])
  next
    case 3
    let ?raw = "take (nat err) data1"
    from 3 len have le: "nat err \<le> length data1" by simp
    have lr: "length ?raw = nat err" using le by simp
    from keep_batch [OF g1 g2 le] obtain data' where k: "keep_events before after (nat err) 0 0 data1 = Some (length (kept_events before after ?raw), data')"
      "take (length (kept_events before after ?raw)) data' = kept_events before after ?raw" "length data' = length data1" by blast
    have rep: "batch_read dev t before ?raw after d1 t3" unfolding batch_read_def lr using dp 3 s1 b s2 a here
      by (metis int_nat_eq less_imp_le)
    have "poll_round A dev n data d t = (Some (False, int (length (kept_events before after ?raw)), data'), d1, t3)"
      using run 3 k(1) by (simp add: Let_def)
    moreover have "?raw \<noteq> []" using lr 3 by auto
    then have "\<exists>b raw a. batch_read dev t b raw a d1 t3 \<and> length raw \<le> nat n \<and> raw \<noteq> [] \<and>
        int (length (kept_events before after ?raw)) = int (length (kept_events b a raw)) \<and>
        take (nat (int (length (kept_events before after ?raw)))) data' = kept_events b a raw"
      using rep k(2) lr 3 by (intro exI [of _ before] exI [of _ ?raw] exI [of _ after]) simp
    ultimately show ?thesis using r3 len assms(3) k(3)
      by (intro exI [of _ False] exI [of _ "int (length (kept_events before after ?raw))"] exI [of _ data'] exI [of _ d1]
          exI [of _ t3]) simp
  qed
qed

subsection \<open>The loop\<close>

text \<open>What the loop ends with: an error, or the kept events of the batch that its last round read.\<close>

definition loop_result :: "aosp \<Rightarrow> 'd sensor_device \<Rightarrow> int \<Rightarrow> timeline \<Rightarrow> int \<Rightarrow> sensors_event list \<Rightarrow> 'd \<Rightarrow> timeline \<Rightarrow> bool" where
  "loop_result A dev n t err data d' t' \<longleftrightarrow> err < 0 \<or>
     (\<exists>before raw after. 0 < err \<and> batch_read dev t before raw after d' t' \<and> length raw \<le> nat n \<and>
        err = int (length (kept_events before after raw)) \<and> take (nat err) data = kept_events before after raw)"

lemma loop_result_later: "loop_result A dev n u err data d t' \<Longrightarrow> runs_to t u \<Longrightarrow> loop_result A dev n t err data d t'"
  unfolding loop_result_def by (elim disjE exE conjE) (auto dest: batch_read_from)

lemma poll_round_result:
  assumes "platform_ok A" "device_ok dev" "sane_timeline t" "length data = nat n" "0 < n"
  obtains leave err data' d' t' where "poll_round A dev n data d t = (Some (leave, err, data'), d', t')"
    "runs_to t t'" "length data' = length data" "\<not> (\<not> leave \<and> err = 0) \<Longrightarrow> loop_result A dev n t err data' d' t'"
proof -
  from poll_round_spec [OF assms(2-5), of A d] obtain leave err data' d' t' where
    run: "poll_round A dev n data d t = (Some (leave, err, data'), d', t')" and l: "runs_to t t'" "length data' = length data"
    and e: "if leave then err = BAD_VALUE A else err \<le> 0 \<and> err = fst (dev_poll dev data d) \<or>
       (\<exists>before raw after. batch_read dev t before raw after d' t' \<and> length raw \<le> nat n \<and> raw \<noteq> [] \<and>
          err = int (length (kept_events before after raw)) \<and> take (nat err) data' = kept_events before after raw)" by blast
  have "loop_result A dev n t err data' d' t'" if ne: "\<not> (\<not> leave \<and> err = 0)"
  proof (cases "err < 0")
    case False
    with ne e platform_signs(7) [OF assms(1)] show ?thesis
      unfolding loop_result_def by (cases leave) auto
  qed (simp add: loop_result_def)
  with run l that show thesis by blast
qed

lemma poll_loop_result:
  "poll_loop A dev n data d t = Some r \<Longrightarrow> platform_ok A \<Longrightarrow> device_ok dev \<Longrightarrow> sane_timeline t \<Longrightarrow> length data = nat n \<Longrightarrow> 0 < n \<Longrightarrow>
   \<exists>err data' d' t'. r = (Some (err, data'), d', t') \<and> loop_result A dev n t err data' d' t'"
proof (induction A dev n data d t r rule: poll_loop.raw_induct [rotated 1, consumes 1, case_names step])
  case (step loop A dev n data d t r)
  from poll_round_result [OF step.prems, of d] obtain leave err data' d' t' where
    run: "poll_round A dev n data d t = (Some (leave, err, data'), d', t')" and l: "runs_to t t'" "length data' = length data"
    and res: "\<not> (\<not> leave \<and> err = 0) \<Longrightarrow> loop_result A dev n t err data' d' t'" by blast
  show ?case
  proof (cases "\<not> leave \<and> err = 0")
    case True
    then have "loop A dev n data' d' t' = Some r" using step.hyps run by simp
    from step.IH [OF this] step.prems l(2) runs_to_later [OF l(1)] loop_result_later [OF _ l(1)] show ?thesis
      by (fastforce simp: later_def)
  next
    case False
    then have "r = (Some (err, data'), d', t')" using step.hyps run by (auto split: if_splits)
    with res [OF False] show ?thesis by blast
  qed
qed

text \<open>The rounds one after another: the loop returns exactly when one of them is not silent.\<close>

definition poll_next :: "aosp \<Rightarrow> 'd sensor_device \<Rightarrow> int \<Rightarrow> sensors_event list \<times> 'd \<times> timeline \<Rightarrow> sensors_event list \<times> 'd \<times> timeline" where
  "poll_next A dev n = (\<lambda>(data, d, t). case poll_round A dev n data d t of
     (None, d1, t1) \<Rightarrow> (data, d1, t1) | (Some (leave, err, data1), d1, t1) \<Rightarrow> (data1, d1, t1))"

definition silent_round :: "aosp \<Rightarrow> 'd sensor_device \<Rightarrow> int \<Rightarrow> sensors_event list \<times> 'd \<times> timeline \<Rightarrow> bool" where
  "silent_round A dev n = (\<lambda>(data, d, t). case poll_round A dev n data d t of
     (None, d1, t1) \<Rightarrow> False | (Some (leave, err, data1), d1, t1) \<Rightarrow> \<not> leave \<and> err = 0)"

lemma poll_loop_step:
  "poll_loop A dev n data d t = (if silent_round A dev n (data, d, t)
     then case poll_next A dev n (data, d, t) of (data1, d1, t1) \<Rightarrow> poll_loop A dev n data1 d1 t1
     else Some (case poll_round A dev n data d t of
       (None, d1, t1) \<Rightarrow> (None, d1, t1) | (Some (leave, err, data1), d1, t1) \<Rightarrow> (Some (err, data1), d1, t1)))"
  by (subst poll_loop.simps) (auto simp: silent_round_def poll_next_def split: option.splits prod.splits)

lemma poll_loop_returns:
  assumes "\<not> silent_round A dev n ((poll_next A dev n ^^ k) (data, d, t))"
  shows "poll_loop A dev n data d t \<noteq> None"
  using assms
proof (induction k arbitrary: data d t)
  case 0
  then show ?case by (subst poll_loop_step) simp
next
  case (Suc k)
  obtain data1 d1 t1 where nx: "poll_next A dev n (data, d, t) = (data1, d1, t1)" by (metis prod_cases3)
  from Suc.prems have "\<not> silent_round A dev n ((poll_next A dev n ^^ k) (data1, d1, t1))"
    by (simp add: funpow_Suc_right nx del: funpow.simps)
  from Suc.IH [OF this] show ?case unfolding poll_loop_step [of A dev n data d t] nx
    by (cases "silent_round A dev n (data, d, t)") (simp_all del: not_None_eq)
qed

lemma poll_rounds_sane:
  assumes "device_ok dev" "sane_timeline t" "length data = nat n" "0 < n"
  shows "case (poll_next A dev n ^^ k) (data, d, t) of (data', d', t') \<Rightarrow> sane_timeline t' \<and> length data' = nat n"
proof (induction k)
  case 0
  then show ?case using assms by simp
next
  case (Suc k)
  obtain data1 d1 t1 where st: "(poll_next A dev n ^^ k) (data, d, t) = (data1, d1, t1)" by (metis prod_cases3)
  with Suc have s: "sane_timeline t1" "length data1 = nat n" by simp_all
  from poll_round_spec [OF assms(1) s assms(4), of A d1] obtain leave err data' d' t' where
    "poll_round A dev n data1 d1 t1 = (Some (leave, err, data'), d', t')" "runs_to t1 t'" "length data' = length data1" by blast
  with s st runs_to_later show ?case by (simp add: poll_next_def later_def)
qed

text \<open>The device has something to say: an error, or an event that needs no conversion.\<close>

definition productive :: "'d sensor_device \<Rightarrow> sensors_event list \<Rightarrow> 'd \<Rightarrow> bool" where
  "productive dev data d \<longleftrightarrow> (case dev_poll dev data d of (err, raw, d1) \<Rightarrow>
     err < 0 \<or> list_ex (\<lambda>e. \<not> isLegacyInputSensor (sensor e) (type e)) (take (nat err) raw))"

lemma kept_events_other:
  "list_ex (\<lambda>e. \<not> isLegacyInputSensor (sensor e) (type e)) es \<Longrightarrow> kept_events before after es \<noteq> []"
  by (induction es) (auto simp: kept_events_def map_filter_Cons kept_event_def split: option.splits if_splits)

lemma dynamic_sensors_cases: "dynamic_sensors A C es = CheckFailed \<or> (\<exists>l. dynamic_sensors A C es = Returns l)"
  by (induction es) (auto split: option.splits)

lemma productive_not_silent:
  assumes "device_ok dev" "sane_timeline t" "length data = nat n" "0 < n" "platform_ok A" "productive dev data d"
  shows "\<not> silent_round A dev n (data, d, t)"
proof -
  obtain b t1 where s1: "sampleClocks t = (b, t1)" by fastforce
  from sampleClocks_good [OF assms(2) s1] obtain before where b: "b = Some before" and g1: "good_sample t before t1" by blast
  let ?t2 = "snd (elapse t1)"
  have "later t ?t2" using g1 later_elapse [of t1] by (auto simp: good_sample_def intro: later_trans)
  then have "sane_timeline ?t2" using assms(2) by (simp add: later_def)
  moreover obtain a t3 where s2: "sampleClocks ?t2 = (a, t3)" by fastforce
  ultimately obtain after where a: "a = Some after" and g2: "good_sample ?t2 after t3" using sampleClocks_good by blast
  obtain err raw d1 where dp: "dev_poll dev data d = (err, raw, d1)" by (metis prod_cases3)
  have len: "length raw = nat n" using assms(1,3) dp by (metis device_ok_def fst_conv snd_conv)
  have some: "0 < err \<Longrightarrow> kept_events before after (take (nat err) raw) \<noteq> []"
    using assms(6) dp by (intro kept_events_other) (simp add: productive_def)
  have "err \<noteq> 0" using assms(6) dp by (auto simp: productive_def)
  moreover have "BAD_VALUE A \<noteq> 0" using platform_signs(7) [OF assms(5)] by simp
  moreover have "0 < err \<Longrightarrow> err \<le> n \<Longrightarrow> \<exists>data'. keep_events before after (nat err) 0 0 raw =
      Some (length (kept_events before after (take (nat err) raw)), data')"
    using keep_batch [OF g1 g2, of "nat err" raw] len nat_mono [of err n] by auto
  ultimately show ?thesis using some s1 b s2 a dp
    by (auto simp: silent_round_def poll_round_def Let_def split: if_splits)
qed

subsection \<open>Replies\<close>

text \<open>
  A reply made from a loop that began at \<open>t\<close> and ended at \<open>t'\<close>: the kept events of one batch that
  the device reported between two samples of the clocks, with boot times, or nothing.
\<close>

definition reply_ok :: "conversions \<Rightarrow> 'd sensor_device \<Rightarrow> int \<Rightarrow> timeline \<Rightarrow> timeline \<Rightarrow> Result \<times> blob list \<times> blob list \<Rightarrow> bool" where
  "reply_ok C dev n t t' = (\<lambda>(res, out, added).
     if res = Result_OK
     then \<exists>before raw after d t1. batch_read dev t before raw after d t1 \<and> runs_to t1 t' \<and> kept_events before after raw \<noteq> [] \<and>
       int (length raw) \<le> n \<and> out = map (convertFromSensorEvent C) (kept_events before after raw) \<and>
       list_all (\<lambda>e. isLegacyInputSensor (sensor e) (type e) \<longrightarrow> 0 < timestamp e \<and>
         tl_boot t - 10000000000 \<le> timestamp e \<and> timestamp e \<le> tl_boot t' + 1000000)
         (kept_events before after raw)
     else out = [] \<and> added = [])"

lemma poll_reply_negative:
  "platform_ok A \<Longrightarrow> err < 0 \<Longrightarrow> \<exists>res. poll_reply A C err data = Returns (res, [], []) \<and> res \<noteq> Result_OK"
  using platform_signs [of A] by (auto simp: poll_reply_def ResultFromStatus_def)

lemma kept_boot_times:
  assumes "batch_read dev t before raw after d t'" "sane_timeline t"
  shows "list_all (\<lambda>e. isLegacyInputSensor (sensor e) (type e) \<longrightarrow> 0 < timestamp e \<and>
      tl_boot t - 10000000000 \<le> timestamp e \<and> timestamp e \<le> tl_boot t' + 1000000) (kept_events before after raw)"
  unfolding list_all_iff using kept_eventsD [of _ before after raw] batch_read_sampled [OF assms] by fastforce

text \<open>Behind the loop: a failing check, an empty reply, or the kept events of the batch.\<close>

lemma poll_reply_cases:
  assumes "platform_ok A" "loop_result A dev n t err data d t'" "0 < n"
  obtains (checked) "poll_reply A C err data = CheckFailed"
  | (refused) res where "poll_reply A C err data = Returns (res, [], [])" "res \<noteq> Result_OK"
  | (kept) before raw after added where "batch_read dev t before raw after d t'" "int (length raw) \<le> n" "kept_events before after raw \<noteq> []"
      "poll_reply A C err data = Returns (Result_OK, map (convertFromSensorEvent C) (kept_events before after raw), added)"
proof (cases "err < 0")
  case True
  with poll_reply_negative [OF assms(1)] refused show thesis by blast
next
  case False
  with assms(2) obtain before raw after where k: "0 < err" "batch_read dev t before raw after d t'" "length raw \<le> nat n"
    "err = int (length (kept_events before after raw))" "take (nat err) data = kept_events before after raw"
    unfolding loop_result_def by blast
  let ?k = "kept_events before after raw"
  have "convertFromSensorEvents C (nat err) data = map (convertFromSensorEvent C) ?k"
    using k(4,5) nth_take [of _ "nat err" data]
    by (auto simp: convertFromSensorEvents_def intro!: nth_equalityI)
  moreover have "?k \<noteq> []" "int (length raw) \<le> n" using k(1,3,4) assms(3) by auto
  ultimately show thesis using False k(2,5) dynamic_sensors_cases [of A C ?k] checked kept
    by (fastforce simp: poll_reply_def Let_def)
qed

lemma poll_reply_ok:
  assumes "platform_ok A" "loop_result A dev n t err data d t'" "0 < n" "sane_timeline t"
  shows "poll_reply A C err data = CheckFailed \<or> (\<exists>v. poll_reply A C err data = Returns v \<and> reply_ok C dev n t t' v)"
  using assms(1-3)
proof (cases rule: poll_reply_cases [where C = C])
  case (kept before raw after added)
  have "\<exists>before raw after d t1. batch_read dev t before raw after d t1 \<and> runs_to t1 t' \<and> kept_events before after raw \<noteq> [] \<and>
     int (length raw) \<le> n \<and> out = map (convertFromSensorEvent C) (kept_events before after raw) \<and>
       list_all (\<lambda>e. isLegacyInputSensor (sensor e) (type e) \<longrightarrow> 0 < timestamp e \<and>
         tl_boot t - 10000000000 \<le> timestamp e \<and> timestamp e \<le> tl_boot t' + 1000000)
         (kept_events before after raw)" if "out = map (convertFromSensorEvent C) (kept_events before after raw)" for out
    by (intro exI conjI, rule kept(1), rule here, rule kept(3), rule kept(2), rule that, rule kept_boot_times [OF kept(1) assms(4)])
  with kept(4) show ?thesis by (simp add: reply_ok_def)
qed (auto simp: reply_ok_def)

subsection \<open>Objects the service gets\<close>

text \<open>
  The calls besides \<open>poll\<close>, as one dispatcher: whether the call returns (instead of going
  through a null pointer) and the object afterwards.
\<close>

datatype sensor_call =
    GetSensorsList | SetOperationMode int | Activate int bool | Batch int int int | Flush int
  | InjectSensorData blob | RegisterDirectChannel blob | UnregisterDirectChannel int | ConfigDirectReport int int RateLevel

fun returns :: "'a run \<Rightarrow> bool" where
  "returns (Returns v) = True"
| "returns r = False"

definition serve :: "aosp \<Rightarrow> conversions \<Rightarrow> 'd sensors \<Rightarrow> sensor_call \<Rightarrow> bool \<times> 'd sensors" where
  "serve A C s c = (case c of
     GetSensorsList \<Rightarrow> map_prod returns id (getSensorsList C s)
   | SetOperationMode m \<Rightarrow> map_prod returns id (setOperationMode A m s)
   | Activate h b \<Rightarrow> map_prod returns id (activate A h b s)
   | Batch h p l \<Rightarrow> map_prod returns id (batch A h p l s)
   | Flush h \<Rightarrow> map_prod returns id (flush A h s)
   | InjectSensorData e \<Rightarrow> map_prod returns id (injectSensorData A C e s)
   | RegisterDirectChannel m \<Rightarrow> map_prod returns id (registerDirectChannel A C m s)
   | UnregisterDirectChannel h \<Rightarrow> map_prod returns id (unregisterDirectChannel h s)
   | ConfigDirectReport h ch r \<Rightarrow> map_prod returns id (configDirectReport A C h ch r s))"

definition attached :: "aosp \<Rightarrow> 'd sensors \<Rightarrow> bool" where
  "attached A s \<longleftrightarrow> mSensorModule s \<noteq> None \<and> mSensorDevice s \<noteq> None \<and>
     SENSORS_DEVICE_API_VERSION_1_3 A \<le> getHalDeviceVersion s"

lemma fetched_attached:
  assumes "platform_ok A" "HIDL_FETCH_ISensors A L d t = Returns (Some s)"
  shows "attached A s"
  using assms platform_signs [OF assms(1)]
  by (auto simp: HIDL_FETCH_ISensors_def Sensors_construct_def Let_def initCheck_def attached_def getHalDeviceVersion_def
      split: run.splits if_splits prod.splits option.splits)

lemma forward_run: "returns (fst (forward f reply s)) \<and> (attached A s \<longrightarrow> attached A (snd (forward f reply s)))"
  by (simp add: forward_def attached_def getHalDeviceVersion_def split: prod.splits)

lemma serve_attached:
  assumes "attached A s"
  shows "fst (serve A C s c) \<and> attached A (snd (serve A C s c))"
proof -
  obtain m dev where "mSensorModule s = Some m" "mSensorDevice s = Some dev" using assms by (auto simp: attached_def)
  with assms forward_run show ?thesis
    by (cases c) (auto simp: serve_def getSensorsList_def setOperationMode_def activate_def batch_def flush_def injectSensorData_def
        registerDirectChannel_def unregisterDirectChannel_def configDirectReport_def with_device_def Let_def
        attached_def getHalDeviceVersion_def forward_def split: option.splits prod.splits)
qed

interpretation bridge: machine "\<lambda>s c. snd (serve A C s c)"
  "\<lambda>s. platform_ok A \<and> (\<exists>L d t. HIDL_FETCH_ISensors A L d t = Returns (Some s))" "attached A" for A C
  by unfold_locales (auto dest: fetched_attached simp: serve_attached)

section \<open>Properties\<close>

text \<open>
  C6: What \<open>poll\<close> delivers: in a sane timeline and for a device that fills the buffer it
  is given, a call that returns neither overflows nor goes through a null pointer. A
  successful reply holds, converted and in order, exactly the kept events of the batch that its
  last round read: the device reported that batch in the call that left it in its present state,
  between two samples of the clocks of which the second ends the call, and an event is kept or
  dropped, and its time moved, by what these two samples say. The batch has at most \<open>maxCount\<close> and 128
  events, at least one is kept, and the light and proximity events among them carry boot times
  between ten seconds before the call and one millisecond after its end. Every other reply is empty.
\<close>

theorem poll_delivers:
  assumes "platform_ok A" "device_ok dev" "mSensorDevice s = Some dev" "\<not> mPollLock s" "sane_timeline (stime s)"
    and "poll A C junk maxCount s = Some (r, s')"
  shows "case r of
      Returns (res, out, added) \<Rightarrow>
        if res = Result_OK
        then \<exists>t0 before t1 data d data1 raw after. runs_to (stime s) t0 \<and> sampleClocks t0 = (Some before, t1) \<and>
          dev_poll dev data d = (int (length raw), data1, senv s') \<and> raw = take (length raw) data1 \<and>
          sampleClocks (snd (elapse t1)) = (Some after, stime s') \<and>
          kept_events before after raw \<noteq> [] \<and> int (length raw) \<le> min maxCount 128 \<and>
          out = map (convertFromSensorEvent C) (kept_events before after raw) \<and>
          list_all (\<lambda>e. isLegacyInputSensor (sensor e) (type e) \<longrightarrow> 0 < timestamp e \<and>
            tl_boot (stime s) - 10000000000 \<le> timestamp e \<and> timestamp e \<le> tl_boot (stime s') + 1000000)
            (kept_events before after raw)
        else out = [] \<and> added = []
    | CheckFailed \<Rightarrow> True
    | _ \<Rightarrow> False"
proof (cases "maxCount \<le> 0")
  case True
  with assms platform_signs [OF assms(1)] show ?thesis by (auto simp: poll_def poll_reply_def ResultFromStatus_def)
next
  case False
  define n where "n = (if maxCount \<le> kPollMaxBufferSize then maxCount else kPollMaxBufferSize)"
  have n: "0 < n" "n = min maxCount 128" using False by (auto simp: n_def kPollMaxBufferSize_def)
  from assms(3-6) False obtain y where lp: "poll_loop A dev n (map junk [0..<nat n]) (senv s) (stime s) = Some y"
    by (auto simp: poll_def n_def Let_def split: option.splits)
  from poll_loop_result [OF lp assms(1,2,5)] n obtain err data d t where y: "y = (Some (err, data), d, t)"
    and res: "loop_result A dev n (stime s) err data d t" by auto
  have r: "r = poll_reply A C err data" "stime s' = t" "senv s' = d"
    using assms(3-6) False lp y by (auto simp: poll_def n_def Let_def split: option.splits)
  from assms(1) res n(1) show ?thesis
  proof (cases rule: poll_reply_cases [where C = C])
    case (kept before raw after added)
    note kept_boot_times [OF kept(1) assms(5)]
    with kept(1) [unfolded batch_read_def] kept(2-4) n(2) r show ?thesis by auto blast
  qed (simp_all add: r)
qed

text \<open>
  C21: \<open>poll\<close> comes back: if in some round the device reports an error or an event that is
  not of the light or proximity sensors, the call returns, whatever the rounds before
  reported and dropped.
\<close>

theorem poll_returns:
  assumes "platform_ok A" "device_ok dev" "mSensorDevice s = Some dev" "sane_timeline (stime s)" "0 < maxCount"
    and "n = min maxCount 128"
    and "(poll_next A dev n ^^ k) (map junk [0..<nat n], senv s, stime s) = (data, d, t)" "productive dev data d"
  shows "poll A C junk maxCount s \<noteq> None"
proof -
  have n: "0 < n" "n = (if maxCount \<le> kPollMaxBufferSize then maxCount else kPollMaxBufferSize)"
    using assms(5,6) by (auto simp: kPollMaxBufferSize_def)
  have "sane_timeline t" "length data = nat n"
    using poll_rounds_sane [OF assms(2,4), where data = "map junk [0..<nat n]" and n = n and A = A and k = k and d = "senv s"] assms(7) n(1) by simp_all
  from productive_not_silent [OF assms(2) this n(1) assms(1,8)]
  have "poll_loop A dev n (map junk [0..<nat n]) (senv s) (stime s) \<noteq> None"
    by (intro poll_loop_returns [of _ _ _ k]) (simp add: assms(7))
  then show ?thesis using assms(3,5) by (auto simp: poll_def Let_def n(2) [symmetric] split: option.splits)
qed

text \<open>
  C37: No call of an object that \<open>HIDL_FETCH_ISensors\<close> handed out, in any sequence of calls,
  goes through a null pointer: neither the module's and device's optional functions nor a
  device of an older version is called for what it does not have.
\<close>

theorem fetched_calls_return:
  assumes "platform_ok A" "HIDL_FETCH_ISensors A L d t = Returns (Some s)"
  shows "fst (serve A C (foldl (\<lambda>s c. snd (serve A C s c)) s cs) c)"
proof -
  have "attached A (foldl (\<lambda>s c. snd (serve A C s c)) s cs)"
    by (rule bridge.reach_inv) (use assms in blast)
  then show ?thesis using serve_attached by blast
qed

section \<open>Instances\<close>

text \<open>A device that first reports nothing and then one event of its motion sensor.\<close>

definition demo_event :: sensors_event where
  "demo_event = \<lparr>sensor = 1, type = 1, timestamp = 42, meta_connected = False, meta_handle = 0, meta_sensor = None, event_data = [7]\<rparr>"

definition demo_device :: "nat sensor_device" where
  "demo_device = \<lparr>version = 0x01030001, dev_activate = (\<lambda>h b d. (0, d)),
     dev_poll = (\<lambda>data d. if d = 0 then (0, data, 1) else (1, data[0 := demo_event], d)),
     dev_batch = (\<lambda>h f p l d. (0, d)), dev_flush = (\<lambda>h d. (0, d)), inject_sensor_data = None,
     register_direct_channel = None, config_direct_report = None\<rparr>"

definition demo_module :: "nat sensor_module" where
  "demo_module = \<lparr>get_sensors_list = (\<lambda>d. ([], d)), set_operation_mode = None\<rparr>"

definition demo_loader :: "nat loader" where
  "demo_loader = \<lparr>multi_hal_config = False, get_multi_hal_module_info = None, hw_get_module = (0, Some demo_module),
     sensors_open_1 = (\<lambda>m d. (0, Some demo_device, d))\<rparr>"

definition demo_conversions :: conversions where
  "demo_conversions = \<lparr>convertFromSensor = sensor_data, convertFromSensorEvent = event_data,
     convertToSensorEvent = (\<lambda>b. demo_event), convertFromSharedMemInfo = (\<lambda>b. None), convertFromRateLevel = (\<lambda>r. 0)\<rparr>"

definition demo_sensors :: "nat sensors" where
  "demo_sensors = \<lparr>mInitCheck = 0, mSensorModule = Some demo_module, mSensorDevice = Some demo_device, mPollLock = False,
     senv = 0, stime = demo_timeline1\<rparr>"

lemma demo_device_ok: "device_ok demo_device"
  by (simp add: device_ok_def demo_device_def)

lemma demo_sensors_fields [simp]: "mSensorDevice demo_sensors = Some demo_device" "\<not> mPollLock demo_sensors"
  "stime demo_sensors = demo_timeline1" "senv demo_sensors = 0"
  by (simp_all add: demo_sensors_def)

lemma demo_elapse: "snd (elapse demo_timeline1) = demo_timeline1"
  by (simp add: elapse_def demo_timeline1_def)

lemma demo_round:
  "poll_round android demo_device 128 data 0 demo_timeline1 = (Some (False, 0, data), 1, demo_timeline1)"
  "poll_round android demo_device 128 data 1 demo_timeline1 =
     (Some (False, 1, data[0 := data[0 := demo_event] ! 0, 0 := data[0 := demo_event] ! 0]), 1, demo_timeline1)" if "data \<noteq> []"
  using that by (simp_all add: poll_round_def Let_def demo_elapse demo_sample demo_device_def demo_event_def isLegacyInputSensor_def)

lemma demo_poll:
  "poll android demo_conversions (\<lambda>i. demo_event) 200 demo_sensors =
     Some (Returns (Result_OK, [[7]], []), demo_sensors\<lparr>senv := 1\<rparr>)"
proof -
  let ?buf = "map (\<lambda>i. demo_event) [0..<128]"
  have ne: "?buf \<noteq> []" by simp
  have lp: "poll_loop android demo_device 128 ?buf 1 demo_timeline1 =
      Some (Some (1, ?buf[0 := ?buf[0 := demo_event] ! 0, 0 := ?buf[0 := demo_event] ! 0]), 1, demo_timeline1)"
    by (subst poll_loop.simps) (simp only: demo_round [OF ne] prod.case option.case one_neq_zero simp_thms if_False)
  have "poll_loop android demo_device 128 ?buf 0 demo_timeline1 =
      Some (Some (1, ?buf[0 := ?buf[0 := demo_event] ! 0, 0 := ?buf[0 := demo_event] ! 0]), 1, demo_timeline1)"
    by (subst poll_loop.simps) (simp only: demo_round [OF ne] prod.case option.case simp_thms if_True lp)
  moreover have "?buf[0 := ?buf[0 := demo_event] ! 0, 0 := ?buf[0 := demo_event] ! 0] = demo_event # tl ?buf"
    by (simp add: upt_conv_Cons)
  ultimately show ?thesis
    by (simp add: poll_def kPollMaxBufferSize_def Let_def poll_reply_def convertFromSensorEvents_def demo_sensors_def
        demo_conversions_def demo_event_def android_def)
qed

theorem poll_delivers_witness:
  "\<exists>t0 before t1 raw after. runs_to demo_timeline1 t0 \<and> sampleClocks t0 = (Some before, t1) \<and>
    sampleClocks (snd (elapse t1)) = (Some after, demo_timeline1) \<and> [[7]] = map event_data (kept_events before after raw) \<and> length raw \<le> 128"
  using poll_delivers [OF android_ok demo_device_ok _ _ _ demo_poll] demo_sane(2)
  by (simp add: demo_conversions_def) metis

theorem poll_returns_witness: "poll android demo_conversions (\<lambda>i. demo_event) 200 demo_sensors \<noteq> None"
proof -
  have "(poll_next android demo_device 128 ^^ 1) (map (\<lambda>i. demo_event) [0..<nat 128], senv demo_sensors, stime demo_sensors) =
      (map (\<lambda>i. demo_event) [0..<128], 1, demo_timeline1)"
    by (simp add: poll_next_def demo_round)
  moreover have "productive demo_device (map (\<lambda>i. demo_event) [0..<128]) 1"
    by (simp add: productive_def demo_device_def demo_event_def isLegacyInputSensor_def upt_conv_Cons)
  ultimately show ?thesis
    by (intro poll_returns [OF android_ok demo_device_ok, where k = 1 and n = 128]) (simp_all add: demo_sane(2))
qed

lemma demo_fetched: "HIDL_FETCH_ISensors android demo_loader 0 demo_timeline1 = Returns (Some demo_sensors)"
  by (simp add: HIDL_FETCH_ISensors_def Sensors_construct_def Let_def demo_loader_def UseMultiHal_def android_def
      getHalDeviceVersion_def demo_device_def initCheck_def demo_sensors_def)

theorem fetched_calls_return_witness:
  "fst (serve android demo_conversions (snd (serve android demo_conversions demo_sensors (Activate 4 True))) (SetOperationMode 1))"
  using fetched_calls_return [OF android_ok demo_fetched, of demo_conversions "[Activate 4 True]" "SetOperationMode 1"] by simp

end
