(* ===== verification/Sensor_Threads.thy ===== *)
theory Sensor_Threads
  imports Sensors
begin

text \<open>
  The sensor bridge of \<^verbatim>\<open>sensors/hal/Sensors.cpp\<close> as the threads of its service run it. A thread in \<open>poll\<close> takes
  \<open>mPollLock\<close>, goes round the loop, leaves the locked scope and only then converts and replies; calls of the other
  methods, which take no lock, and further calls of \<open>poll\<close> fall anywhere between these points. One round of the loop is
  one step. The steps use the definitions of the sequential model.
\<close>

section \<open>Threads\<close>

text \<open>The locals of \<open>poll\<close>: the size of the buffer and the buffer, then \<open>err\<close> and the buffer.\<close>

datatype poll_thread = Outside | Polling int "sensors_event list" | Replying int "sensors_event list"

text \<open>How the process may end: by \<^verbatim>\<open>exit\<close>, by a failed \<^verbatim>\<open>CHECK\<close>, through a null pointer or by an overflow.\<close>

record 'd service_process =
  bridge :: "'d sensors"
  threads :: "poll_thread list"
  replies :: "(Result \<times> blob list \<times> blob list) list"
  ended :: "unit run option"

datatype binder_event = PollEnter nat int "nat \<Rightarrow> sensors_event" | PollRound nat | PollReply nat | OtherCall sensor_call

definition service_start :: "nat \<Rightarrow> 'd sensors \<Rightarrow> 'd service_process" where
  "service_start k s = \<lparr>bridge = s, threads = replicate k Outside, replies = [], ended = None\<rparr>"

definition poll_enter :: "aosp \<Rightarrow> nat \<Rightarrow> int \<Rightarrow> (nat \<Rightarrow> sensors_event) \<Rightarrow> 'd service_process \<Rightarrow> 'd service_process" where
  "poll_enter A i maxCount junk p =
     (if mPollLock (bridge p) then p\<lparr>ended := Some (Exits (-1))\<rparr>
      else if maxCount \<le> 0 then p\<lparr>threads := (threads p)[i := Replying (BAD_VALUE A) []]\<rparr>
      else let bufferSize = (if maxCount \<le> kPollMaxBufferSize then maxCount else kPollMaxBufferSize)
           in p\<lparr>bridge := (bridge p)\<lparr>mPollLock := True\<rparr>, threads := (threads p)[i := Polling bufferSize (map junk [0..<nat bufferSize])]\<rparr>)"

definition poll_go_round :: "aosp \<Rightarrow> nat \<Rightarrow> int \<Rightarrow> sensors_event list \<Rightarrow> 'd service_process \<Rightarrow> 'd service_process" where
  "poll_go_round A i n data p =
     (case mSensorDevice (bridge p) of
        None \<Rightarrow> p\<lparr>ended := Some NullCall\<rparr>
      | Some dev \<Rightarrow>
          (case poll_round A dev n data (senv (bridge p)) (stime (bridge p)) of
             (None, d, t) \<Rightarrow> p\<lparr>ended := Some Overflow\<rparr>
           | (Some (leave, err, data1), d, t) \<Rightarrow>
               (let b = (bridge p)\<lparr>senv := d, stime := t\<rparr>
                in if \<not> leave \<and> err = 0 then p\<lparr>bridge := b, threads := (threads p)[i := Polling n data1]\<rparr>
                   else p\<lparr>bridge := b\<lparr>mPollLock := False\<rparr>, threads := (threads p)[i := Replying err data1]\<rparr>)))"

definition poll_answer :: "aosp \<Rightarrow> conversions \<Rightarrow> nat \<Rightarrow> int \<Rightarrow> sensors_event list \<Rightarrow> 'd service_process \<Rightarrow> 'd service_process" where
  "poll_answer A C i err data p =
     (case poll_reply A C err data of
        Returns reply \<Rightarrow> p\<lparr>threads := (threads p)[i := Outside], replies := replies p @ [reply]\<rparr>
      | CheckFailed \<Rightarrow> p\<lparr>ended := Some CheckFailed\<rparr>
      | NullCall \<Rightarrow> p\<lparr>ended := Some NullCall\<rparr>
      | Exits n \<Rightarrow> p\<lparr>ended := Some (Exits n)\<rparr>
      | Overflow \<Rightarrow> p\<lparr>ended := Some Overflow\<rparr>)"

text \<open>An event of a thread that cannot move, or of a process that has ended, changes nothing.\<close>

definition thread_at :: "'d service_process \<Rightarrow> nat \<Rightarrow> poll_thread option" where
  "thread_at p i = (if i < length (threads p) then Some (threads p ! i) else None)"

definition binder_step :: "aosp \<Rightarrow> conversions \<Rightarrow> 'd service_process \<Rightarrow> binder_event \<Rightarrow> 'd service_process" where
  "binder_step A C p e =
     (if ended p \<noteq> None then p
      else case e of
        PollEnter i maxCount junk \<Rightarrow> (if thread_at p i = Some Outside then poll_enter A i maxCount junk p else p)
      | PollRound i \<Rightarrow> (case thread_at p i of Some (Polling n data) \<Rightarrow> poll_go_round A i n data p | _ \<Rightarrow> p)
      | PollReply i \<Rightarrow> (case thread_at p i of Some (Replying err data) \<Rightarrow> poll_answer A C i err data p | _ \<Rightarrow> p)
      | OtherCall c \<Rightarrow>
          (case serve A C (bridge p) c of (ok, b) \<Rightarrow> if ok then p\<lparr>bridge := b\<rparr> else p\<lparr>ended := Some NullCall\<rparr>))"


section \<open>The invariant\<close>

fun is_polling :: "poll_thread \<Rightarrow> bool" where
  "is_polling (Polling n data) \<longleftrightarrow> True"
| "is_polling _ \<longleftrightarrow> False"

text \<open>What a thread holds between its steps, on a process that started at \<open>t0\<close> and is at \<open>t\<close>.\<close>

definition thread_ok :: "aosp \<Rightarrow> 'd sensor_device \<Rightarrow> timeline \<Rightarrow> timeline \<Rightarrow> poll_thread \<Rightarrow> bool" where
  "thread_ok A dev t0 t th = (case th of
     Outside \<Rightarrow> True
   | Polling n data \<Rightarrow> 0 < n \<and> n \<le> 128 \<and> length data = nat n
   | Replying err data \<Rightarrow> \<exists>n d t'. 0 < n \<and> n \<le> 128 \<and> loop_result A dev n t0 err data d t' \<and> runs_to t' t)"

text \<open>The lock has at most one holder, and the threads in the loop are its holders.\<close>

definition one_poller :: "bool \<Rightarrow> poll_thread list \<Rightarrow> bool" where
  "one_poller lock ths \<longleftrightarrow>
     (if lock then \<exists>h < length ths. \<forall>i < length ths. is_polling (ths ! i) \<longleftrightarrow> i = h else \<forall>i < length ths. \<not> is_polling (ths ! i))"

definition process_ok :: "aosp \<Rightarrow> conversions \<Rightarrow> 'd sensor_device \<Rightarrow> timeline \<Rightarrow> 'd service_process \<Rightarrow> bool" where
  "process_ok A C dev t0 p \<longleftrightarrow>
     ended p \<in> {None, Some CheckFailed, Some (Exits (-1))} \<and> attached A (bridge p) \<and> mSensorDevice (bridge p) = Some dev \<and>
     sane_timeline t0 \<and> runs_to t0 (stime (bridge p)) \<and> one_poller (mPollLock (bridge p)) (threads p) \<and>
     list_all (thread_ok A dev t0 (stime (bridge p))) (threads p) \<and>
     (\<forall>r \<in> set (replies p). reply_ok C dev 128 t0 (stime (bridge p)) r)"

section \<open>Lemmas\<close>

lemma thread_ok_later: "thread_ok A dev t0 t th \<Longrightarrow> runs_to t u \<Longrightarrow> thread_ok A dev t0 u th"
  by (auto simp: thread_ok_def split: poll_thread.splits intro: runs_to_trans)

lemma reply_ok_mono:
  assumes "reply_ok C dev n t0 t r" "runs_to t u" "n \<le> m"
  shows "reply_ok C dev m t0 u r"
proof -
  have "tl_boot t \<le> tl_boot u" using runs_to_later [OF assms(2)] by (simp add: later_def)
  then have "x \<le> tl_boot t + 1000000 \<Longrightarrow> x \<le> tl_boot u + 1000000" for x by simp
  with assms(1,3) runs_to_trans [OF assms(2)] show ?thesis
    by (fastforce simp: reply_ok_def list_all_iff split: prod.splits if_splits)
qed

lemma serve_frame:
  "serve A C s c = (ok, s') \<Longrightarrow> mPollLock s' = mPollLock s \<and> stime s' = stime s \<and> mSensorDevice s' = mSensorDevice s"
  by (cases c) (auto simp: serve_def getSensorsList_def setOperationMode_def activate_def batch_def flush_def injectSensorData_def
      registerDirectChannel_def unregisterDirectChannel_def configDirectReport_def with_device_def forward_def Let_def
      split: option.splits prod.splits if_splits)

lemma attached_fields:
  "attached A (s\<lparr>mPollLock := b\<rparr>) = attached A s" "attached A (s\<lparr>senv := d\<rparr>) = attached A s" "attached A (s\<lparr>stime := t\<rparr>) = attached A s"
  by (simp_all add: attached_def getHalDeviceVersion_def)

lemma list_all_update: "list_all P xs \<Longrightarrow> P x \<Longrightarrow> list_all P (xs[j := x])"
  using set_update_subset_insert [of xs j x] by (auto simp: list_all_iff)

lemma one_poller_keep:
  "one_poller lock ths \<Longrightarrow> i < length ths \<Longrightarrow> is_polling th = is_polling (ths ! i) \<Longrightarrow> one_poller lock (ths[i := th])"
proof -
  assume *: "one_poller lock ths" "i < length ths" "is_polling th = is_polling (ths ! i)"
  then have "is_polling (ths[i := th] ! j) = is_polling (ths ! j)" if "j < length ths" for j
    using that by (simp add: nth_list_update)
  with *(1) show "one_poller lock (ths[i := th])" by (simp add: one_poller_def split: if_splits)
qed

lemma one_poller_take: "one_poller False ths \<Longrightarrow> i < length ths \<Longrightarrow> is_polling th \<Longrightarrow> one_poller True (ths[i := th])"
  by (auto simp: one_poller_def nth_list_update)

lemma one_poller_release:
  "one_poller lock ths \<Longrightarrow> i < length ths \<Longrightarrow> is_polling (ths ! i) \<Longrightarrow> \<not> is_polling th \<Longrightarrow> lock \<and> one_poller False (ths[i := th])"
  by (auto simp: one_poller_def nth_list_update split: if_splits)

lemma process_okD:
  assumes "process_ok A C dev t0 p" "thread_at p i = Some th"
  shows "i < length (threads p)" "threads p ! i = th" "thread_ok A dev t0 (stime (bridge p)) th"
  using assms by (auto simp: process_ok_def thread_at_def list_all_length split: if_splits)

lemma enter_ok:
  assumes ok: "process_ok A C dev t0 p" and A: "platform_ok A" and th: "thread_at p i = Some Outside"
  shows "process_ok A C dev t0 (poll_enter A i maxCount junk p)"
proof -
  note t = process_okD [OF ok th]
  consider "mPollLock (bridge p)" | "\<not> mPollLock (bridge p)" "maxCount \<le> 0" | "\<not> mPollLock (bridge p)" "0 < maxCount" by linarith
  then show ?thesis
  proof cases
    case 1
    with ok show ?thesis by (simp add: poll_enter_def process_ok_def)
  next
    case 2
    have "loop_result A dev 1 t0 (BAD_VALUE A) [] (senv (bridge p)) t0" using platform_signs(7) [OF A] by (simp add: loop_result_def)
    then have "thread_ok A dev t0 (stime (bridge p)) (Replying (BAD_VALUE A) [])"
      using ok unfolding thread_ok_def process_ok_def by (auto intro!: exI [of _ 1])
    with 2 ok t(1,2) show ?thesis by (simp add: poll_enter_def process_ok_def list_all_update one_poller_keep)
  next
    case 3
    define n where "n = (if maxCount \<le> kPollMaxBufferSize then maxCount else kPollMaxBufferSize)"
    have "thread_ok A dev t0 (stime (bridge p)) (Polling n (map junk [0..<nat n]))"
      using 3 by (auto simp: thread_ok_def n_def kPollMaxBufferSize_def)
    with 3 ok t(1) show ?thesis
      by (simp add: poll_enter_def process_ok_def attached_fields list_all_update one_poller_take n_def [symmetric])
  qed
qed

lemma round_ok:
  assumes ok: "process_ok A C dev t0 p" and A: "platform_ok A" and D: "device_ok dev" and th: "thread_at p i = Some (Polling n data)"
  shows "process_ok A C dev t0 (poll_go_round A i n data p)"
proof -
  note t = process_okD [OF ok th]
  have pl: "0 < n" "n \<le> 128" "length data = nat n" using t(3) by (simp_all add: thread_ok_def)
  have dev: "mSensorDevice (bridge p) = Some dev" and sane: "sane_timeline (stime (bridge p))" and l0: "runs_to t0 (stime (bridge p))"
    using ok runs_to_later by (auto simp: process_ok_def later_def)
  from poll_round_result [OF A D sane pl(3,1), of "senv (bridge p)"] obtain leave err data' d t1 where
    run: "poll_round A dev n data (senv (bridge p)) (stime (bridge p)) = (Some (leave, err, data'), d, t1)"
    and l: "runs_to (stime (bridge p)) t1" "length data' = length data"
    and res: "\<not> (\<not> leave \<and> err = 0) \<Longrightarrow> loop_result A dev n (stime (bridge p)) err data' d t1" by blast
  have ths: "list_all (thread_ok A dev t0 t1) (threads p)"
    using ok by (auto simp: process_ok_def elim!: list.pred_mono_strong intro: thread_ok_later [OF _ l(1)])
  have reps: "\<forall>r \<in> set (replies p). reply_ok C dev 128 t0 t1 r"
    using ok reply_ok_mono [OF _ l(1), of C dev 128 t0 _ 128] by (simp add: process_ok_def)
  show ?thesis
  proof (cases "\<not> leave \<and> err = 0")
    case True
    have "thread_ok A dev t0 t1 (Polling n data')" using pl l(2) by (simp add: thread_ok_def)
    with True ok dev run runs_to_trans [OF l(1) l0] reps ths t(1,2) show ?thesis
      by (simp add: poll_go_round_def process_ok_def attached_fields list_all_update one_poller_keep)
  next
    case False
    have "thread_ok A dev t0 t1 (Replying err data')"
      unfolding thread_ok_def using pl loop_result_later [OF res [OF False] l0] here by (auto intro!: exI [of _ n])
    moreover have "one_poller False ((threads p)[i := Replying err data'])"
      using one_poller_release [of "mPollLock (bridge p)" "threads p" i "Replying err data'"] ok t(1,2) by (simp add: process_ok_def)
    ultimately show ?thesis using False ok dev run runs_to_trans [OF l(1) l0] reps ths
      by (auto simp: poll_go_round_def process_ok_def attached_fields list_all_update)
  qed
qed

lemma answer_ok:
  assumes ok: "process_ok A C dev t0 p" and A: "platform_ok A" and th: "thread_at p i = Some (Replying err data)"
  shows "process_ok A C dev t0 (poll_answer A C i err data p)"
proof -
  note t = process_okD [OF ok th]
  from t(3) obtain n d t' where n: "0 < n" "n \<le> 128" "loop_result A dev n t0 err data d t'" "runs_to t' (stime (bridge p))"
    by (auto simp: thread_ok_def)
  have sane: "sane_timeline t0" using ok by (simp add: process_ok_def)
  consider "poll_reply A C err data = CheckFailed" | v where "poll_reply A C err data = Returns v" "reply_ok C dev n t0 t' v"
    using poll_reply_ok [OF A n(3,1) sane] by blast
  then show ?thesis
  proof cases
    case 1
    with ok show ?thesis by (simp add: poll_answer_def process_ok_def)
  next
    case (2 v)
    have v: "reply_ok C dev 128 t0 (stime (bridge p)) v" by (rule reply_ok_mono [OF 2(2) n(4,2)])
    have "thread_ok A dev t0 (stime (bridge p)) Outside" by (simp add: thread_ok_def)
    with ok v 2(1) t(1,2) show ?thesis by (simp add: poll_answer_def process_ok_def list_all_update one_poller_keep)
  qed
qed

lemma binder_step_ok:
  assumes ok: "process_ok A C dev t0 p" and A: "platform_ok A" and D: "device_ok dev"
  shows "process_ok A C dev t0 (binder_step A C p e)"
proof (cases "ended p")
  case None
  show ?thesis
  proof (cases e)
    case (OtherCall c)
    obtain ret b where sv: "serve A C (bridge p) c = (ret, b)" by fastforce
    have "ret \<and> attached A b" using serve_attached [of A "bridge p" C c] ok sv by (simp add: process_ok_def)
    with ok sv serve_frame [OF sv] None OtherCall show ?thesis
      by (simp add: binder_step_def process_ok_def)
  qed (use ok None enter_ok [OF ok A] round_ok [OF ok A D] answer_ok [OF ok A] in
      \<open>auto simp: binder_step_def split: option.splits poll_thread.splits\<close>)
qed (use ok in \<open>simp add: binder_step_def\<close>)

lemma fetched_unlocked: "HIDL_FETCH_ISensors A L d t = Returns (Some s) \<Longrightarrow> \<not> mPollLock s"
  by (auto simp: HIDL_FETCH_ISensors_def Sensors_construct_def Let_def split: run.splits if_splits prod.splits)

lemma service_start_ok:
  assumes "attached A s" "mSensorDevice s = Some dev" "\<not> mPollLock s" "sane_timeline (stime s)"
  shows "process_ok A C dev (stime s) (service_start k s)"
  using assms by (simp add: process_ok_def service_start_def one_poller_def thread_ok_def list_all_iff here)

interpretation calls: machine "binder_step A C"
  "\<lambda>p. platform_ok A \<and> device_ok dev \<and> (\<exists>k s. p = service_start k s \<and> attached A s \<and> mSensorDevice s = Some dev \<and> \<not> mPollLock s \<and>
     stime s = t0 \<and> sane_timeline t0)"
  "\<lambda>p. platform_ok A \<and> device_ok dev \<and> process_ok A C dev t0 p" for A C dev t0
  by unfold_locales (auto intro: service_start_ok binder_step_ok)

lemma binder_threads: "length (threads (foldl (binder_step A C) p es)) = length (threads p)"
  by (induction es arbitrary: p) (simp_all add: binder_step_def poll_enter_def poll_go_round_def poll_answer_def Let_def
      split: binder_event.split option.split poll_thread.split prod.split run.split)

section \<open>Properties\<close>

text \<open>
  C11: The bridge under concurrent calls: whatever calls arrive on however many threads, and however their steps
  interleave, at most one thread is inside the locked scope of \<open>poll\<close> and the lock is held exactly then; the process ends
  only by the exit on a second \<open>poll\<close> or a failed check, never through a null pointer or an overflow; and every
  reply that was sent is one \<open>poll\<close> may send alone: exactly the kept events of one batch the device
  reported between two samples of the clocks, in order, judged and moved by these two samples, with boot times, or nothing.
\<close>

theorem concurrent_polls_safe:
  assumes "platform_ok A" "device_ok dev" "HIDL_FETCH_ISensors A L d t = Returns (Some s)" "mSensorDevice s = Some dev"
    "sane_timeline (stime s)" "p = foldl (binder_step A C) (service_start k s) events"
  shows "(\<forall>i < k. \<forall>j < k. is_polling (threads p ! i) \<and> is_polling (threads p ! j) \<longrightarrow> i = j) \<and>
    (mPollLock (bridge p) \<longleftrightarrow> (\<exists>i < k. is_polling (threads p ! i))) \<and>
    ended p \<in> {None, Some CheckFailed, Some (Exits (-1))} \<and>
    (\<forall>r \<in> set (replies p). reply_ok C dev 128 (stime s) (stime (bridge p)) r)"
proof -
  have "platform_ok A \<and> device_ok dev \<and> process_ok A C dev (stime s) p" unfolding assms(6)
    by (rule calls.reach_inv) (use assms fetched_attached [OF assms(1,3)] fetched_unlocked [OF assms(3)] in blast)
  moreover have "length (threads p) = k" unfolding assms(6)
    using binder_threads [of A C "service_start k s" events] by (simp add: service_start_def)
  ultimately show ?thesis by (auto simp: process_ok_def one_poller_def split: if_splits)
qed

section \<open>Instances\<close>

text \<open>A poll with another call in its middle that is answered, then two polls at once.\<close>

definition demo_schedule :: "binder_event list" where
  "demo_schedule = [PollEnter 0 1 (\<lambda>i. demo_event), PollRound 0, OtherCall (Activate 4 True), PollRound 0, PollReply 0,
     PollEnter 1 1 (\<lambda>i. demo_event), PollEnter 0 1 (\<lambda>i. demo_event)]"

definition demo_process :: "nat service_process" where
  "demo_process = foldl (binder_step android demo_conversions) (service_start 2 demo_sensors) demo_schedule"

lemma demo_process_state:
  "threads demo_process = [Outside, Polling 1 [demo_event]]" "replies demo_process = [(Result_OK, [[7]], [])]"
  "ended demo_process = Some (Exits (-1))"
proof -
  have k: "replicate 2 Outside = [Outside, Outside]" by (simp add: numeral_2_eq_2)
  have r: "poll_round android demo_device 1 [e] 0 demo_timeline1 = (Some (False, 0, [e]), 1, demo_timeline1)"
    "poll_round android demo_device 1 [e] 1 demo_timeline1 = (Some (False, 1, [demo_event]), 1, demo_timeline1)" for e
    by (simp_all add: poll_round_def Let_def demo_elapse demo_sample demo_device_def demo_event_def isLegacyInputSensor_def)
  have a: "serve android demo_conversions s (Activate 4 True) = (True, s)" if "mSensorDevice s = Some demo_device" for s
    using that by (simp add: serve_def activate_def with_device_def forward_def demo_device_def)
  have v: "poll_reply android demo_conversions 1 [demo_event] = Returns (Result_OK, [[7]], [])"
    by (simp add: poll_reply_def convertFromSensorEvents_def demo_conversions_def demo_event_def android_def)
  let ?step = "binder_step android demo_conversions"
  note step = binder_step_def thread_at_def poll_enter_def poll_go_round_def poll_answer_def kPollMaxBufferSize_def
  have steps:
    "?step \<lparr>bridge = demo_sensors, threads = [Outside, Outside], replies = [], ended = None\<rparr> (PollEnter 0 1 (\<lambda>i. demo_event)) =
      \<lparr>bridge = demo_sensors\<lparr>mPollLock := True\<rparr>, threads = [Polling 1 [demo_event], Outside], replies = [], ended = None\<rparr>"
    "?step \<lparr>bridge = demo_sensors\<lparr>mPollLock := True\<rparr>, threads = [Polling 1 [demo_event], Outside], replies = [], ended = None\<rparr> (PollRound 0) =
      \<lparr>bridge = demo_sensors\<lparr>mPollLock := True, senv := 1\<rparr>, threads = [Polling 1 [demo_event], Outside], replies = [], ended = None\<rparr>"
    "?step \<lparr>bridge = demo_sensors\<lparr>mPollLock := True, senv := 1\<rparr>, threads = [Polling 1 [demo_event], Outside], replies = [], ended = None\<rparr> (OtherCall (Activate 4 True)) =
      \<lparr>bridge = demo_sensors\<lparr>mPollLock := True, senv := 1\<rparr>, threads = [Polling 1 [demo_event], Outside], replies = [], ended = None\<rparr>"
    "?step \<lparr>bridge = demo_sensors\<lparr>mPollLock := True, senv := 1\<rparr>, threads = [Polling 1 [demo_event], Outside], replies = [], ended = None\<rparr> (PollRound 0) =
      \<lparr>bridge = demo_sensors\<lparr>mPollLock := False, senv := 1\<rparr>, threads = [Replying 1 [demo_event], Outside], replies = [], ended = None\<rparr>"
    "?step \<lparr>bridge = demo_sensors\<lparr>mPollLock := False, senv := 1\<rparr>, threads = [Replying 1 [demo_event], Outside], replies = [], ended = None\<rparr> (PollReply 0) =
      \<lparr>bridge = demo_sensors\<lparr>mPollLock := False, senv := 1\<rparr>, threads = [Outside, Outside], replies = [(Result_OK, [[7]], [])], ended = None\<rparr>"
    "?step \<lparr>bridge = demo_sensors\<lparr>mPollLock := False, senv := 1\<rparr>, threads = [Outside, Outside], replies = [(Result_OK, [[7]], [])], ended = None\<rparr> (PollEnter 1 1 (\<lambda>i. demo_event)) =
      \<lparr>bridge = demo_sensors\<lparr>mPollLock := True, senv := 1\<rparr>, threads = [Outside, Polling 1 [demo_event]], replies = [(Result_OK, [[7]], [])], ended = None\<rparr>"
    "?step \<lparr>bridge = demo_sensors\<lparr>mPollLock := True, senv := 1\<rparr>, threads = [Outside, Polling 1 [demo_event]], replies = [(Result_OK, [[7]], [])], ended = None\<rparr> (PollEnter 0 1 (\<lambda>i. demo_event)) =
      \<lparr>bridge = demo_sensors\<lparr>mPollLock := True, senv := 1\<rparr>, threads = [Outside, Polling 1 [demo_event]], replies = [(Result_OK, [[7]], [])], ended = Some (Exits (-1))\<rparr>"
    by (simp_all add: step r r [unfolded One_nat_def] a v demo_sensors_def)
  have eq: "demo_process = \<lparr>bridge = demo_sensors\<lparr>mPollLock := True, senv := 1\<rparr>, threads = [Outside, Polling 1 [demo_event]], replies = [(Result_OK, [[7]], [])], ended = Some (Exits (-1))\<rparr>"
    unfolding demo_process_def demo_schedule_def service_start_def k foldl.simps steps by (rule refl)
  show "threads demo_process = [Outside, Polling 1 [demo_event]]" "replies demo_process = [(Result_OK, [[7]], [])]"
    "ended demo_process = Some (Exits (-1))" unfolding eq by (rule service_process.select_convs)+
qed

theorem concurrent_polls_safe_witness:
  "mPollLock (bridge demo_process) \<and> ended demo_process = Some (Exits (-1)) \<and>
   reply_ok demo_conversions demo_device 128 demo_timeline1 (stime (bridge demo_process)) (Result_OK, [[7]], [])"
proof -
  have "sane_timeline (stime demo_sensors)" using demo_sane(2) by simp
  note safe = concurrent_polls_safe [OF android_ok demo_device_ok demo_fetched demo_sensors_fields(1) this demo_process_def]
  have "1 < (2 :: nat) \<and> is_polling (threads demo_process ! 1)" by (simp add: demo_process_state(1))
  then have "mPollLock (bridge demo_process)" using safe by blast
  moreover have "reply_ok demo_conversions demo_device 128 demo_timeline1 (stime (bridge demo_process)) (Result_OK, [[7]], [])"
    using safe [THEN conjunct2, THEN conjunct2, THEN conjunct2] by (simp only: demo_process_state(2) demo_sensors_fields(3) list.set ball_simps simp_thms)
  ultimately show ?thesis using demo_process_state(3) by simp
qed

end
