(* ===== verification/Usb_Serial.thy ===== *)
theory Usb_Serial
  imports Nodes
begin

text \<open>
  The USB serial helper of \<^verbatim>\<open>usb/m86_usb_serial.cpp\<close>: it reads the serial number from the
  first slot of the private partition, publishes it to the gadget's \<^verbatim>\<open>iSerial\<close> node while
  the gadget is disabled, and then sets a property that lets the gadget services start.
  \<^verbatim>\<open>property_set\<close> of libcutils is a parameter; \<^verbatim>\<open>usleep\<close> and the log have no effect here.
\<close>

section \<open>Constants\<close>

definition kPrivateSlotSize :: nat where "kPrivateSlotSize = 1024"
definition kPrivateSignatureSize :: nat where "kPrivateSignatureSize = 256"
definition kPrivateLengthSize :: nat where "kPrivateLengthSize = 2"
definition kPrivateDataOffset :: nat where "kPrivateDataOffset = kPrivateSignatureSize + kPrivateLengthSize"
definition kMinSerialLength :: nat where "kMinSerialLength = 4"
definition kMaxSerialLength :: nat where "kMaxSerialLength = 64"
definition kRetryCount :: nat where "kRetryCount = 100"

definition kPrivatePaths :: "path list" where
  "kPrivatePaths = [''/dev/block/platform/15570000.ufs/by-name/private'', ''/dev/block/by-name/private'', ''/dev/block/sda1'']"

definition kUsbEnablePath :: path where "kUsbEnablePath = ''/sys/class/android_usb/android0/enable''"
definition kUsbSerialPath :: path where "kUsbSerialPath = ''/sys/class/android_usb/android0/iSerial''"

section \<open>Reading the slot\<close>

text \<open>The loop of \<open>PreadFully\<close>: \<open>acc\<close> is the part of the buffer that is filled.\<close>

function pread_from :: "nat \<Rightarrow> nat \<Rightarrow> byte list \<Rightarrow> world \<Rightarrow> byte list option \<times> world" where
  "pread_from fd count acc w =
     (if length acc < count
      then case sys_pread fd (count - length acc) (length acc) w of
          (Inl e, w1) \<Rightarrow> if e = EINTR then pread_from fd count acc w1 else (None, w1)
        | (Inr bs, w1) \<Rightarrow> if bs = [] then (None, w1) else pread_from fd count (acc @ bs) w1
      else (Some acc, w))"
  by pat_completeness auto
termination
proof (relation "measure (\<lambda>(fd, count, acc, w). count - length acc + length (faults w))", goal_cases)
  case 1
  show ?case by simp
next
  case (2 fd count acc w x w1 e)
  then have "sys_pread fd (count - length acc) (length acc) w = (Inl EINTR, w1)" by simp
  from sys_pread_Inl [OF this] show ?case by auto
next
  case (3 fd count acc w x w1 bs)
  then have "sys_pread fd (count - length acc) (length acc) w = (Inr bs, w1)" by simp
  from sys_pread_Inr [OF this] 3 show ?case by (cases bs) auto
qed

declare pread_from.simps [simp del]

definition PreadFully :: "nat \<Rightarrow> nat \<Rightarrow> world \<Rightarrow> byte list option \<times> world" where
  "PreadFully fd count w = pread_from fd count [] w"

definition IsUsbSerialCharacter :: "byte \<Rightarrow> bool" where
  "IsUsbSerialCharacter value \<longleftrightarrow>
     (48 \<le> value \<and> value \<le> 57) \<or> (65 \<le> value \<and> value \<le> 90) \<or> (97 \<le> value \<and> value \<le> 122) \<or>
     value = 45 \<or> value = 95 \<or> value = 46"

definition ParsePrivateSerial :: "byte list \<Rightarrow> byte list option" where
  "ParsePrivateSerial slot =
     (let len = unat (slot ! kPrivateSignatureSize) OR push_bit 8 (unat (slot ! (kPrivateSignatureSize + 1)))
      in if len < kMinSerialLength \<or> len > kMaxSerialLength \<or> len > length slot - kPrivateDataOffset then None
         else let data = take len (drop kPrivateDataOffset slot)
              in if list_all IsUsbSerialCharacter data then Some data else None)"

fun read_private_paths :: "path list \<Rightarrow> world \<Rightarrow> (byte list \<times> path) option \<times> world" where
  "read_private_paths [] w = (None, w)"
| "read_private_paths (p # ps) w =
     (case sys_open_rd p w of
        (Inl e, w1) \<Rightarrow> read_private_paths ps w1
      | (Inr fd, w1) \<Rightarrow>
          (let (slot, w2) = PreadFully fd kPrivateSlotSize w1; w3 = snd (sys_close fd w2)
           in case Option.bind slot ParsePrivateSerial of
                Some serial \<Rightarrow> (Some (serial, p), w3)
              | None \<Rightarrow> read_private_paths ps w3))"

definition ReadPrivateSerial :: "world \<Rightarrow> (byte list \<times> path) option \<times> world" where
  "ReadPrivateSerial w = read_private_paths kPrivatePaths w"

section \<open>Nodes\<close>

definition is_blank :: "byte \<Rightarrow> bool" where
  "is_blank b \<longleftrightarrow> b = 10 \<or> b = 13 \<or> b = 32 \<or> b = 9"

definition ReadText :: "path \<Rightarrow> world \<Rightarrow> byte list option \<times> world" where
  "ReadText p w =
     (case sys_open_rd p w of
        (Inl e, w1) \<Rightarrow> (None, w1)
      | (Inr fd, w1) \<Rightarrow>
          (let (result, w2) = retry_eintr (sys_read fd 31) w1; w3 = snd (sys_close fd w2)
           in case result of
                Inl e \<Rightarrow> (None, w3)
              | Inr bs \<Rightarrow> if bs = [] then (None, w3) else (Some (rev (dropWhile is_blank (rev bs))), w3)))"

function write_from :: "nat \<Rightarrow> string \<Rightarrow> world \<Rightarrow> bool \<times> world" where
  "write_from fd value w =
     (if value \<noteq> []
      then case sys_write_node fd value w of
          (Inl e, w1) \<Rightarrow> if e = EINTR then write_from fd value w1 else (False, w1)
        | (Inr n, w1) \<Rightarrow> if n = 0 then (False, w1) else write_from fd (drop n value) w1
      else (True, w))"
  by pat_completeness auto
termination
proof (relation "measure (\<lambda>(fd, value, w). length value + length (faults w))", goal_cases)
  case 1
  show ?case by simp
next
  case (2 fd v w x w1 e)
  then have "sys_write_node fd v w = (Inl EINTR, w1)" by simp
  from sys_write_node_Inl [OF this] show ?case by auto
next
  case (3 fd v w x w1 n)
  then have run: "sys_write_node fd v w = (Inr n, w1)" by simp
  then obtain f where "map_of (fds w) fd = Some f"
    by (cases w rule: take_outcome_cases) (auto simp: sys_write_node_def split: outcome.splits option.splits)
  from sys_write_node_Inr [OF run this] 3 show ?case by (cases v) auto
qed

declare write_from.simps [simp del]

definition WriteText :: "path \<Rightarrow> string \<Rightarrow> world \<Rightarrow> bool \<times> world" where
  "WriteText p value w =
     (case sys_open_node p w of
        (Inl e, w1) \<Rightarrow> (False, w1)
      | (Inr fd, w1) \<Rightarrow> (let (ok, w2) = write_from fd value w1 in (ok, snd (sys_close fd w2))))"

fun wait_attempts :: "nat \<Rightarrow> world \<Rightarrow> bool \<times> world" where
  "wait_attempts 0 w = (False, w)"
| "wait_attempts (Suc n) w =
     (case sys_access kUsbSerialPath w of
        (Inr _, w1) \<Rightarrow> (case sys_access kUsbEnablePath w1 of
            (Inr _, w2) \<Rightarrow> (True, w2)
          | (Inl e, w2) \<Rightarrow> wait_attempts n w2)
      | (Inl e, w1) \<Rightarrow> wait_attempts n w1)"

definition WaitForUsbGadget :: "world \<Rightarrow> bool \<times> world" where
  "WaitForUsbGadget w = wait_attempts kRetryCount w"

section \<open>The program\<close>

fun read_attempts :: "nat \<Rightarrow> world \<Rightarrow> (byte list \<times> path) option \<times> world" where
  "read_attempts 0 w = (None, w)"
| "read_attempts (Suc n) w =
     (case ReadPrivateSerial w of (Some s, w1) \<Rightarrow> (Some s, w1) | (None, w1) \<Rightarrow> read_attempts n w1)"

definition text_of :: "byte list \<Rightarrow> string" where
  "text_of bs = map (\<lambda>b. char_of (unat b)) bs"

text \<open>Disable the gadget if it was enabled, publish the serial, enable it again.\<close>

definition publish_serial :: "string \<Rightarrow> world \<Rightarrow> bool \<times> world" where
  "publish_serial serial w =
     (let (enabled, w1) = ReadText kUsbEnablePath w;
          was_enabled = (enabled = Some [49]);
          (off, w2) = (if was_enabled then WriteText kUsbEnablePath ''0'' w1 else (True, w1))
      in if \<not> off then (False, w2)
         else case WriteText kUsbSerialPath serial w2 of
             (False, w3) \<Rightarrow> (False, if was_enabled then snd (WriteText kUsbEnablePath ''1'' w3) else w3)
           | (True, w3) \<Rightarrow> if was_enabled then WriteText kUsbEnablePath ''1'' w3 else (True, w3))"

definition usb_serial_main :: "(string \<Rightarrow> string \<Rightarrow> int) \<Rightarrow> world \<Rightarrow> int \<times> (string \<times> string) list \<times> world" where
  "usb_serial_main property_set w =
     (case read_attempts kRetryCount w of
        (None, w1) \<Rightarrow> (1, [], w1)
      | (Some (serial, source_path), w1) \<Rightarrow>
          (case WaitForUsbGadget w1 of
             (False, w2) \<Rightarrow> (1, [], w2)
           | (True, w2) \<Rightarrow>
               (case publish_serial (text_of serial) w2 of
                  (False, w3) \<Rightarrow> (1, [], w3)
                | (True, w3) \<Rightarrow>
                    (if property_set ''vendor.m86.identity.ready'' ''1'' \<noteq> 0 then 1 else 0,
                     [(''vendor.m86.identity.ready'', ''1'')], w3))))"

section \<open>Lemmas: the slot\<close>

lemma length_field:
  "unat (lo :: byte) OR push_bit 8 (unat (hi :: byte)) = unat lo + 256 * unat hi"
proof -
  have "unat lo < 2 ^ 8" "unat hi < 2 ^ 8" using unsigned_less [of lo] unsigned_less [of hi] by simp_all
  then have "unat lo = take_bit 8 (unat lo)" by (simp only: take_bit_nat_eq_self)
  then have "unat lo AND push_bit 8 (unat hi) = 0"
    by (metis bit_eqI bit_and_iff bit_push_bit_iff bit_take_bit_iff bit_0_eq bot_apply not_le bot_bool_def)
  then show ?thesis using disjunctive_add_eq_or [of "unat lo" "push_bit 8 (unat hi)"] by (simp add: push_bit_eq_mult)
qed

definition valid_serial :: "byte list \<Rightarrow> bool" where
  "valid_serial s \<longleftrightarrow> 4 \<le> length s \<and> length s \<le> 64 \<and> list_all IsUsbSerialCharacter s"

definition slot_serial :: "byte list \<Rightarrow> nat" where
  "slot_serial slot = unat (slot ! 256) + 256 * unat (slot ! 257)"

lemmas slot_defs = kPrivateSlotSize_def kPrivateDataOffset_def kPrivateSignatureSize_def kPrivateLengthSize_def
  kMinSerialLength_def kMaxSerialLength_def

lemma parse_eq:
  assumes "length slot = 1024"
  shows "ParsePrivateSerial slot =
    (let s = take (slot_serial slot) (drop 258 slot) in if slot_serial slot \<le> 64 \<and> valid_serial s then Some s else None)"
  using assms by (auto simp: ParsePrivateSerial_def length_field slot_defs slot_serial_def valid_serial_def Let_def)

text \<open>How a slot with a serial is laid out.\<close>

lemma slot_layout:
  assumes "length slot = 1024" "4 \<le> n" "n \<le> 64" "slot_serial slot = n"
  shows "slot = take 256 slot @ le_bytes 2 n @ take n (drop 258 slot) @ drop (258 + n) slot"
proof -
  have b: "slot ! 256 = of_nat (n mod 256)" "slot ! 257 = of_nat (n div 256 mod 256)"
    using assms(3,4) by (auto simp: slot_serial_def word_unat_eq_iff unat_of_nat)
  have "drop 256 slot = slot ! 256 # slot ! 257 # drop 258 slot"
    using assms(1) Cons_nth_drop_Suc [of 256 slot] Cons_nth_drop_Suc [of 257 slot] by simp
  then have "drop 256 slot = le_bytes 2 n @ take n (drop 258 slot) @ drop n (drop 258 slot)"
    using b by (simp add: numeral_2_eq_2 del: drop_drop)
  then show ?thesis using append_take_drop_id [of 256 slot] by (metis drop_drop add.commute)
qed

section \<open>Lemmas: reading\<close>

lemma pread_from_spec:
  assumes "map_of (fds w) fd = Some f" "files w (ofile_path f) = Some c"
    and "acc = take (length acc) c" "length acc \<le> n" "pread_from fd n acc w = (r, w')"
  shows "(\<exists>fs. w' = w\<lparr>faults := fs\<rparr> \<and> length fs \<le> length (faults w)) \<and>
    (r \<noteq> None \<longrightarrow> n \<le> length c \<and> r = Some (take n c)) \<and> (faults w = [] \<longrightarrow> n \<le> length c \<longrightarrow> r \<noteq> None)"
  using assms
proof (induction fd n acc w rule: pread_from.induct)
  case (1 fd n acc w)
  show ?case
  proof (cases "length acc < n")
    case False
    with "1.prems" have "r = Some acc" "w' = w" "length acc = n" by (simp_all add: pread_from.simps [of fd n acc w])
    with "1.prems"(3) show ?thesis by (metis (no_types) length_take min.absorb_iff2 option.distinct(1) order_refl world.surjective world.update_convs(5))
  next
    case True
    obtain x w1 where c: "sys_pread fd (n - length acc) (length acc) w = (x, w1)" by fastforce
    show ?thesis
    proof (cases x)
      case (Inl e)
      from sys_pread_Inl [OF c [unfolded Inl]] obtain fs where w1: "w1 = w\<lparr>faults := fs\<rparr>" "length fs \<le> length (faults w)"
        and ne: "e = EBADF \<or> length fs < length (faults w)" by blast
      have nf: "e = EBADF \<Longrightarrow> faults w \<noteq> []" using c "1.prems"(1,2) Inl
        by (cases w rule: take_outcome_cases) (auto simp: sys_pread_def split: outcome.splits option.splits)
      show ?thesis
      proof (cases "e = EINTR")
        case True
        with \<open>length acc < n\<close> c Inl "1.prems"(5) have "pread_from fd n acc w1 = (r, w')" by (simp add: pread_from.simps [of fd n acc w])
        from "1.IH"(1) [OF \<open>length acc < n\<close> c [symmetric] Inl True _ _ "1.prems"(3,4) this] "1.prems"(1,2) w1 ne True
        show ?thesis by fastforce
      next
        case False
        with \<open>length acc < n\<close> c Inl "1.prems"(5) have "r = None" "w' = w1" by (simp_all add: pread_from.simps [of fd n acc w])
        with w1 ne nf show ?thesis by auto
      qed
    next
      case (Inr bs)
      from sys_pread_Inr [OF c [unfolded Inr]] "1.prems"(1,2) obtain fs where bl: "length bs \<le> n - length acc"
        and w1: "w1 = w\<lparr>faults := fs\<rparr>" "length fs \<le> length (faults w)" and bs: "bs = take (length bs) (drop (length acc) c)" by auto
      show ?thesis
      proof (cases "bs = []")
        case bs0: True
        with True c Inr "1.prems"(5) have r: "r = None" "w' = w1" by (simp_all add: pread_from.simps [of fd n acc w])
        have "faults w = [] \<Longrightarrow> \<not> n \<le> length c" using c True bs0 "1.prems"(1,2) Inr
          by (auto simp: sys_pread_def take_outcome_no_fault)
        with r w1 show ?thesis by auto
      next
        case ne: False
        with True c Inr "1.prems"(5) have run: "pread_from fd n (acc @ bs) w1 = (r, w')" by (simp add: pread_from.simps [of fd n acc w])
        have "acc @ bs = take (length (acc @ bs)) c" using "1.prems"(3) bs by (metis length_append take_add)
        moreover have "length (acc @ bs) \<le> n" using bl True by simp
        ultimately show ?thesis using "1.IH"(2) [OF True c [symmetric] Inr ne _ _ _ _ run] "1.prems"(1,2) w1 by fastforce
      qed
    qed
  qed
qed

text \<open>The serial that the partition behind a path holds, and the first path that has one.\<close>

definition stored_serial :: "(path \<rightharpoonup> byte list) \<Rightarrow> path \<Rightarrow> byte list option" where
  "stored_serial fl p = (case fl p of
     None \<Rightarrow> None | Some c \<Rightarrow> if 1024 \<le> length c then ParsePrivateSerial (take 1024 c) else None)"

fun first_serial :: "(path \<rightharpoonup> byte list) \<Rightarrow> path list \<Rightarrow> (byte list \<times> path) option" where
  "first_serial fl [] = None"
| "first_serial fl (p # ps) = (case stored_serial fl p of Some s \<Rightarrow> Some (s, p) | None \<Rightarrow> first_serial fl ps)"

text \<open>What a call that only reads does to the world: some outcomes of the script are used up.\<close>

definition used_faults :: "world \<Rightarrow> world \<Rightarrow> bool" where
  "used_faults w w' \<longleftrightarrow> (\<exists>fs. w' = w\<lparr>faults := fs\<rparr> \<and> length fs \<le> length (faults w))"

lemma used_faults_refl [simp]: "used_faults w w"
  by (auto simp: used_faults_def intro: exI [of _ "faults w"])

lemma used_faults_trans: "used_faults w w1 \<Longrightarrow> used_faults w1 w2 \<Longrightarrow> used_faults w w2"
  by (fastforce simp: used_faults_def)

lemma used_faultsD:
  assumes "used_faults w w'"
  shows "files w' = files w" "fds w' = fds w" "stores w' = stores w" "faults w = [] \<Longrightarrow> faults w' = []"
  using assms by (auto simp: used_faults_def)

text \<open>A descriptor opened and closed again with only reading in between.\<close>

lemma read_and_close:
  assumes "sys_open_rd p w = (Inr fd, w1)" "used_faults w1 w2"
  shows "used_faults w (snd (sys_close fd w2))"
  using sys_open_rd_Inr [OF assms(1)] assms(2) sys_close_world [of fd w2]
  by (fastforce simp: used_faults_def)

lemma sys_open_rd_faultless:
  "faults w = [] \<Longrightarrow> p \<noteq> urandom_path \<Longrightarrow> files w p \<noteq> None \<Longrightarrow> \<exists>fd w1. sys_open_rd p w = (Inr fd, w1)"
  by (auto simp: sys_open_rd_def take_outcome_no_fault alloc_fd_def Let_def)

lemma open_rd_refused: "sys_open_rd p w = (Inl e, w1) \<Longrightarrow> used_faults w w1"
  using sys_open_rd_Inl by (fastforce simp: used_faults_def)

lemma read_private_paths_spec:
  assumes "urandom_path \<notin> set ps" "read_private_paths ps w = (r, w')"
  shows "used_faults w w' \<and> (\<forall>s p. r = Some (s, p) \<longrightarrow> p \<in> set ps \<and> stored_serial (files w) p = Some s) \<and>
    (faults w = [] \<longrightarrow> r = first_serial (files w) ps)"
  using assms
proof (induction ps arbitrary: w)
  case Nil
  then show ?case by simp
next
  case (Cons p ps)
  obtain x w1 where op: "sys_open_rd p w = (x, w1)" by fastforce
  have next_path: ?case if "used_faults w w2" "read_private_paths ps w2 = (r, w')" "faults w = [] \<Longrightarrow> stored_serial (files w) p = None" for w2
  proof -
    from Cons.IH [OF _ that(2)] Cons.prems(1) that(1,3) used_faultsD [OF that(1)] show ?thesis
      by (auto intro: used_faults_trans)
  qed
  show ?case
  proof (cases x)
    case (Inl e)
    have "stored_serial (files w) p = None" if "faults w = []"
      using sys_open_rd_faultless [OF that, of p] Cons.prems(1) op Inl by (auto simp: stored_serial_def split: option.splits)
    with Inl op Cons.prems(2) open_rd_refused show ?thesis by (intro next_path [of w1]) simp_all
  next
    case (Inr fd)
    from sys_open_rd_Inr [OF op [unfolded Inr]] Cons.prems(1) obtain c fs where
      e: "w1 = w\<lparr>faults := fs, fds := (fd, new_ofile RegularFile p) # fds w\<rparr>" "length fs \<le> length (faults w)" "files w p = Some c"
      by auto
    then have w1: "map_of (fds w1) fd = Some (new_ofile RegularFile p)" "files w1 p = Some c" "files w p = Some c"
      and nf: "faults w = [] \<Longrightarrow> faults w1 = []" by auto
    obtain slot w2 where pr: "pread_from fd 1024 [] w1 = (slot, w2)" by fastforce
    from pread_from_spec [OF w1(1) _ _ _ pr] w1(2) have u: "used_faults w1 w2"
      and sl: "slot \<noteq> None \<Longrightarrow> 1024 \<le> length c \<and> slot = Some (take 1024 c)"
      and tot: "faults w1 = [] \<Longrightarrow> 1024 \<le> length c \<Longrightarrow> slot \<noteq> None" by (auto simp: used_faults_def)
    let ?w3 = "snd (sys_close fd w2)"
    have u3: "used_faults w ?w3" by (rule read_and_close [OF op [unfolded Inr] u])
    have run: "read_private_paths (p # ps) w = (case Option.bind slot ParsePrivateSerial of
        Some serial \<Rightarrow> (Some (serial, p), ?w3) | None \<Rightarrow> read_private_paths ps ?w3)"
      using op Inr pr by (simp add: PreadFully_def kPrivateSlotSize_def Let_def)
    show ?thesis
    proof (cases "Option.bind slot ParsePrivateSerial")
      case None
      have "stored_serial (files w) p = None" if "faults w = []"
        using None sl tot nf [OF that] w1(3) by (cases slot) (auto simp: stored_serial_def split: option.splits)
      with None run Cons.prems(2) u3 show ?thesis by (intro next_path [of ?w3]) simp_all
    next
      case (Some s)
      then have "stored_serial (files w) p = Some s" using sl w1(3) by (cases slot) (auto simp: stored_serial_def)
      with Some run Cons.prems(2) u3 show ?thesis by auto
    qed
  qed
qed

lemma private_paths_ok [simp]: "urandom_path \<notin> set kPrivatePaths" "kUsbEnablePath \<noteq> urandom_path"
  by (simp_all add: kPrivatePaths_def urandom_path_def kUsbEnablePath_def)

lemma read_attempts_spec:
  assumes "read_attempts n w = (r, w')"
  shows "used_faults w w' \<and> (\<forall>s p. r = Some (s, p) \<longrightarrow> p \<in> set kPrivatePaths \<and> stored_serial (files w) p = Some s) \<and>
    (faults w = [] \<longrightarrow> 0 < n \<longrightarrow> r = first_serial (files w) kPrivatePaths)"
  using assms
proof (induction n arbitrary: w)
  case 0
  then show ?case by simp
next
  case (Suc n)
  obtain q w1 where rp: "read_private_paths kPrivatePaths w = (q, w1)" by fastforce
  note s = read_private_paths_spec [OF _ rp]
  show ?case
  proof (cases q)
    case (Some x)
    with Suc.prems rp s show ?thesis by (auto simp: ReadPrivateSerial_def)
  next
    case None
    then have rest: "read_attempts n w1 = (r, w')" using Suc.prems rp by (simp add: ReadPrivateSerial_def)
    have u: "used_faults w w1" and fl: "faults w = [] \<Longrightarrow> first_serial (files w) kPrivatePaths = None" using s None by auto
    from Suc.IH [OF rest] u used_faultsD [OF u] fl rest show ?thesis
      by (cases n) (auto intro: used_faults_trans)
  qed
qed

lemma sys_read_regular:
  assumes "map_of (fds w) fd = Some f" "ofile_kind f = RegularFile" "sys_read fd n w = (r, w')"
  shows "\<exists>fs g. w' = w\<lparr>faults := fs, fds := g\<rparr> \<and> length fs \<le> length (faults w) \<and>
    filter (\<lambda>p. fst p \<noteq> fd) g = filter (\<lambda>p. fst p \<noteq> fd) (fds w)"
proof -
  have adv: "filter (\<lambda>p. fst p \<noteq> fd) (map (\<lambda>(d, f). if d = fd then (d, f\<lparr>ofile_pos := ofile_pos f + k\<rparr>) else (d, f)) l) =
      filter (\<lambda>p. fst p \<noteq> fd) l" for k l by (induction l) (auto split: if_splits)
  obtain fs where l: "length fs \<le> length (faults w)" "w' = w\<lparr>faults := fs\<rparr> \<or> (\<exists>k. w' = advance fd k (w\<lparr>faults := fs\<rparr>))"
  proof (cases w rule: take_outcome_cases)
    case 1
    then have eq: "w\<lparr>faults := []\<rparr> = w" by (cases w) simp
    with 1 show ?thesis using assms that [of "[]"] by (auto simp: sys_read_def Let_def eq)
  next
    case (2 c fs)
    then show ?thesis using assms that [of fs] by (cases c) (auto simp: sys_read_def Let_def)
  qed
  then consider "w' = w\<lparr>faults := fs, fds := fds w\<rparr>" | k where "w' = w\<lparr>faults := fs, fds := fds (advance fd k w)\<rparr>"
    by (auto simp: advance_def)
  then show ?thesis
  proof cases
    case 1
    with l(1) show ?thesis by blast
  next
    case (2 k)
    moreover have "filter (\<lambda>p. fst p \<noteq> fd) (fds (advance fd k w)) = filter (\<lambda>p. fst p \<noteq> fd) (fds w)"
      using adv [of k "fds w"] by (simp add: advance_def)
    ultimately show ?thesis using l(1) by blast
  qed
qed

lemma ReadText_spec:
  assumes "p \<noteq> urandom_path" and run: "ReadText p w = (r, w')"
  shows "used_faults w w'"
proof -
  obtain x w1 where op: "sys_open_rd p w = (x, w1)" by fastforce
  show ?thesis
  proof (cases x)
    case (Inl e)
    with run op open_rd_refused show ?thesis by (auto simp: ReadText_def)
  next
    case (Inr fd)
    obtain y w2 where rd: "retry_eintr (sys_read fd 31) w1 = (y, w2)" by fastforce
    from run op Inr rd have w': "w' = snd (sys_close fd w2)"
      by (auto simp: ReadText_def Let_def split: sum.splits if_splits)
    from sys_open_rd_Inr [OF op [unfolded Inr]] assms(1) obtain fs where
      w1: "w1 = w\<lparr>faults := fs, fds := (fd, new_ofile RegularFile p) # fds w\<rparr>" "length fs \<le> length (faults w)"
      and fd: "fd = fresh_fd (fds w)" by auto
    from rd obtain fs1 where rd1: "sys_read fd 31 (w1\<lparr>faults := fs1\<rparr>) = (y, w2)" "length fs1 \<le> length (faults w1)"
      by (rule read_call.retryE)
    have "map_of (fds (w1\<lparr>faults := fs1\<rparr>)) fd = Some (new_ofile RegularFile p)" by (simp add: w1)
    from sys_read_regular [OF this _ rd1(1)] rd1(2) w1 obtain fs2 g where
      "w2 = w\<lparr>faults := fs2, fds := g\<rparr>" "length fs2 \<le> length (faults w)" "filter (\<lambda>p. fst p \<noteq> fd) g = fds w"
      by (auto simp: fd)
    with sys_close_world [of fd w2] show ?thesis unfolding w' used_faults_def by fastforce
  qed
qed

section \<open>Lemmas: writing\<close>

text \<open>
  What \<open>WriteText\<close> does: the value goes out in non-empty pieces, all of it exactly when the
  call succeeds; nothing else changes, and only a fault makes it fail.
\<close>

definition wrote_text :: "path \<Rightarrow> string \<Rightarrow> bool \<Rightarrow> world \<Rightarrow> world \<Rightarrow> bool" where
  "wrote_text p v ok w w' \<longleftrightarrow>
     (\<exists>chunks rest fs. w' = w\<lparr>faults := fs, stores := stores w @ map (Pair p) chunks\<rparr> \<and> length fs \<le> length (faults w) \<and>
        [] \<notin> set chunks \<and> v = concat chunks @ rest \<and> (ok \<longleftrightarrow> rest = []) \<and> (faults w = [] \<longrightarrow> ok))"

lemma write_from_spec:
  assumes "map_of (fds w) fd = Some f" "write_from fd v w = (ok, w')"
  shows "wrote_text (ofile_path f) v ok w w'"
  using assms
proof (induction fd v w rule: write_from.induct)
  case (1 fd v w)
  show ?case
  proof (cases "v = []")
    case True
    with "1.prems"(2) have "ok" "w' = w" by (simp_all add: write_from.simps [of fd "[]" w])
    with True show ?thesis unfolding wrote_text_def
      by (intro exI [of _ "[]"] exI [of _ "faults w"]) simp
  next
    case False
    obtain x w1 where c: "sys_write_node fd v w = (x, w1)" by fastforce
    show ?thesis
    proof (cases x)
      case (Inl e)
      from sys_write_node_Inl [OF c [unfolded Inl]] obtain fs where w1: "w1 = w\<lparr>faults := fs\<rparr>" "length fs \<le> length (faults w)"
        and ne: "e = EBADF \<or> length fs < length (faults w)" by blast
      have nf: "faults w \<noteq> []" using c "1.prems"(1) Inl ne
        by (cases w rule: take_outcome_cases) (auto simp: sys_write_node_def Let_def split: outcome.splits option.splits)
      show ?thesis
      proof (cases "e = EINTR")
        case True
        with False c Inl "1.prems"(2) have "write_from fd v w1 = (ok, w')" by (simp add: write_from.simps [of fd v w])
        from "1.IH"(1) [OF False c [symmetric] Inl True _ this] "1.prems"(1) w1 nf show ?thesis
          unfolding wrote_text_def by fastforce
      next
        case other: False
        with False c Inl "1.prems"(2) have "\<not> ok" "w' = w1" by (simp_all add: write_from.simps [of fd v w])
        with w1 nf False show ?thesis unfolding wrote_text_def
          by (intro exI [of _ "[]"] exI [of _ v] exI [of _ fs]) simp
      qed
    next
      case (Inr n)
      from sys_write_node_Inr [OF c [unfolded Inr] "1.prems"(1)] obtain fs where n: "n \<le> length v"
        and w1: "w1 = w\<lparr>faults := fs, stores := stores w @ (if n = 0 then [] else [(ofile_path f, take n v)])\<rparr>"
          "length fs \<le> length (faults w)" by blast
      show ?thesis
      proof (cases "n = 0")
        case True
        with False c Inr "1.prems"(2) have "\<not> ok" "w' = w1" by (simp_all add: write_from.simps [of fd v w])
        moreover have "faults w \<noteq> []" using c "1.prems"(1) Inr True False
          by (auto simp: sys_write_node_def take_outcome_no_fault Let_def)
        ultimately show ?thesis using w1 True False unfolding wrote_text_def
          by (intro exI [of _ "[]"] exI [of _ v] exI [of _ fs]) simp
      next
        case pos: False
        with False c Inr "1.prems"(2) have run: "write_from fd (drop n v) w1 = (ok, w')" by (simp add: write_from.simps [of fd v w])
        from "1.IH"(2) [OF False c [symmetric] Inr pos _ run] "1.prems"(1) w1(1)
        have "wrote_text (ofile_path f) (drop n v) ok w1 w'" by simp
        then obtain chunks rest fs' where "w' = w1\<lparr>faults := fs', stores := stores w1 @ map (Pair (ofile_path f)) chunks\<rparr>"
          "length fs' \<le> length (faults w1)" "[] \<notin> set chunks" "drop n v = concat chunks @ rest" "ok \<longleftrightarrow> rest = []" "faults w1 = [] \<longrightarrow> ok"
          unfolding wrote_text_def by blast
        moreover from this have "v = concat (take n v # chunks) @ rest"
          by (metis append_take_drop_id append.assoc concat.simps(2))
        ultimately show ?thesis using w1 pos n False unfolding wrote_text_def
          by (intro exI [of _ "take n v # chunks"] exI [of _ rest] exI [of _ fs']) auto
      qed
    qed
  qed
qed

lemma WriteText_spec:
  assumes "WriteText p v w = (ok, w')" "v \<noteq> []"
  shows "wrote_text p v ok w w'"
proof -
  obtain x w1 where op: "sys_open_node p w = (x, w1)" by fastforce
  show ?thesis
  proof (cases x)
    case (Inl e)
    with assms op have "\<not> ok" "w' = w1" by (simp_all add: WriteText_def)
    moreover obtain fs where "w1 = w\<lparr>faults := fs\<rparr>" "length fs < length (faults w)"
      using sys_open_node_Inl [OF op [unfolded Inl]] by blast
    ultimately show ?thesis using assms(2) unfolding wrote_text_def
      by (intro exI [of _ "[]"] exI [of _ v] exI [of _ fs]) auto
  next
    case (Inr fd)
    from sys_open_node_Inr [OF op [unfolded Inr]] obtain fs where fd: "fd = fresh_fd (fds w)"
      and w1: "w1 = w\<lparr>faults := fs, fds := (fd, new_ofile NodeFile p) # fds w\<rparr>" "length fs \<le> length (faults w)" by blast
    obtain ok' w2 where wf: "write_from fd v w1 = (ok', w2)" by fastforce
    have r: "ok' = ok" "w' = snd (sys_close fd w2)" using assms(1) op Inr wf by (simp_all add: WriteText_def)
    have "map_of (fds w1) fd = Some (new_ofile NodeFile p)" by (simp add: w1)
    from write_from_spec [OF this wf] have "wrote_text p v ok w1 w2" using r by simp
    then obtain chunks rest fs1 where e: "w2 = w1\<lparr>faults := fs1, stores := stores w1 @ map (Pair p) chunks\<rparr>"
      "length fs1 \<le> length (faults w1)" "[] \<notin> set chunks" "v = concat chunks @ rest" "ok \<longleftrightarrow> rest = []" "faults w1 = [] \<longrightarrow> ok"
      unfolding wrote_text_def by blast
    obtain fs2 where cl: "w' = w2\<lparr>faults := fs2, fds := filter (\<lambda>p. fst p \<noteq> fd) (fds w2)\<rparr>" "length fs2 \<le> length (faults w2)"
      using sys_close_world [of fd w2] r(2) by auto
    have "w' = w\<lparr>faults := fs2, stores := stores w @ map (Pair p) chunks\<rparr>" using cl e(1) w1(1) fd by simp
    moreover have "length fs2 \<le> length (faults w)" "faults w = [] \<longrightarrow> ok" using cl(2) e w1 by auto
    ultimately show ?thesis unfolding wrote_text_def using e(3-5) by blast
  qed
qed

text \<open>A single character goes out whole or not at all.\<close>

lemma wrote_char:
  assumes "wrote_text p [c] ok w w'"
  shows "stores w' = stores w @ (if ok then [(p, [c])] else [])"
proof -
  from assms obtain chunks rest where e: "stores w' = stores w @ map (Pair p) chunks" "[] \<notin> set chunks"
    "[c] = concat chunks @ rest" "ok \<longleftrightarrow> rest = []" by (auto simp: wrote_text_def)
  show ?thesis
  proof (cases chunks)
    case Nil
    with e show ?thesis by auto
  next
    case (Cons x xs)
    with e have "x = [c]" "concat xs = []" "rest = []" by (cases x; auto)+
    moreover from this Cons e(2) have "xs = []" by (cases xs) auto
    ultimately show ?thesis using Cons e(1,4) by simp
  qed
qed

lemma wrote_textD:
  assumes "wrote_text p v ok w w'"
  shows "fds w' = fds w" "files w' = files w" "faults w = [] \<Longrightarrow> ok \<and> faults w' = []"
    "\<exists>chunks. stores w' = stores w @ map (Pair p) chunks \<and> (ok \<longrightarrow> concat chunks = v)"
  using assms by (auto simp: wrote_text_def)

lemma wait_attempts_spec:
  "wait_attempts n w = (r, w') \<Longrightarrow> used_faults w w' \<and> (faults w = [] \<longrightarrow> 0 < n \<longrightarrow> r)"
proof (induction n arbitrary: w)
  case 0
  then show ?case by simp
next
  case (Suc n)
  obtain x w1 where a1: "sys_access kUsbSerialPath w = (x, w1)" by fastforce
  obtain y w2 where a2: "sys_access kUsbEnablePath w1 = (y, w2)" by fastforce
  have u: "used_faults w w1" "used_faults w1 w2" using sys_access_Pair [OF a1] sys_access_Pair [OF a2] by (auto simp: used_faults_def)
  have ok: "faults w = [] \<Longrightarrow> (\<exists>v. x = Inr v) \<and> (\<exists>v. y = Inr v)"
    using a1 a2 used_faultsD(4) [OF u(1)] by (auto simp: sys_access_def take_outcome_no_fault)
  have next_try: ?case if "used_faults w w3" "wait_attempts n w3 = (r, w')" "faults w \<noteq> []" for w3
    using Suc.IH [OF that(2)] that(1,3) by (auto intro: used_faults_trans)
  show ?case
  proof (cases "\<exists>u v. x = Inr u \<and> y = Inr v")
    case True
    with Suc.prems a1 a2 u show ?thesis by (auto intro: used_faults_trans)
  next
    case False
    with ok have nf: "faults w \<noteq> []" by blast
    show ?thesis
    proof (cases x)
      case (Inl e)
      with Suc.prems a1 u nf show ?thesis by (intro next_try [of w1]) auto
    next
      case (Inr v)
      with False obtain e where "y = Inl e" by (cases y) auto
      with Inr Suc.prems a1 a2 u nf show ?thesis by (intro next_try [of w2]) (auto intro: used_faults_trans)
    qed
  qed
qed

text \<open>The order of the writes: the serial goes out between disabling and enabling.\<close>

definition published :: "string \<Rightarrow> (path \<times> string) list \<Rightarrow> bool" where
  "published serial l \<longleftrightarrow> (\<exists>chunks. concat chunks = serial \<and>
     (l = map (Pair kUsbSerialPath) chunks \<or>
      l = (kUsbEnablePath, ''0'') # map (Pair kUsbSerialPath) chunks @ [(kUsbEnablePath, ''1'')]))"

text \<open>
  The world of a program that found the gadget enabled, right behind the attempt to write the
  serial: the state in which it has to enable the gadget again.
\<close>

definition serial_attempted :: "string \<Rightarrow> world \<Rightarrow> world" where
  "serial_attempted serial w =
     (let off = snd (WriteText kUsbEnablePath ''0'' (snd (ReadText kUsbEnablePath w)))
      in snd (WriteText kUsbSerialPath serial off))"

definition gadget_restored :: "string \<Rightarrow> world \<Rightarrow> world \<Rightarrow> bool" where
  "gadget_restored serial w w' \<longleftrightarrow>
     (\<exists>l. stores w' = stores w @ l \<and> ((kUsbEnablePath, ''0'') \<in> set l \<longrightarrow>
        w' = snd (WriteText kUsbEnablePath ''1'' (serial_attempted serial w)) \<and>
        node_value w' kUsbEnablePath = Some (if fst (WriteText kUsbEnablePath ''1'' (serial_attempted serial w)) then ''1'' else ''0'')))"

lemma usb_paths_differ [simp]: "kUsbEnablePath \<noteq> kUsbSerialPath"
  by (simp add: kUsbEnablePath_def kUsbSerialPath_def)

lemma map_of_other_path: "q \<noteq> p \<Longrightarrow> map_of (map (Pair p) chunks) q = None"
  by (induction chunks) auto

lemma publish_spec:
  assumes "publish_serial serial w = (ok, w')" "serial \<noteq> []"
  shows "fds w' = fds w \<and> files w' = files w \<and> (ok \<longrightarrow> (\<exists>l. stores w' = stores w @ l \<and> published serial l)) \<and>
    gadget_restored serial w w' \<and> (faults w = [] \<longrightarrow> ok)"
proof -
  obtain enabled w1 where rt: "ReadText kUsbEnablePath w = (enabled, w1)" by fastforce
  note u = used_faultsD [OF ReadText_spec [OF private_paths_ok(2) rt]]
  show ?thesis
  proof (cases "enabled = Some [49]")
    case False
    obtain o2 w2 where ws: "WriteText kUsbSerialPath serial w1 = (o2, w2)" by fastforce
    note s = wrote_textD [OF WriteText_spec [OF ws assms(2)]]
    from assms(1) rt False ws have r: "ok = o2" "w' = w2" by (auto simp: publish_serial_def split: bool.splits)
    from s(4) obtain chunks where c: "stores w2 = stores w @ map (Pair kUsbSerialPath) chunks" "ok \<longrightarrow> concat chunks = serial"
      using u(3) r by auto
    then have "gadget_restored serial w w'" unfolding gadget_restored_def r by auto
    with c r s u show ?thesis by (auto simp: published_def)
  next
    case True
    obtain o1 w2 where w0: "WriteText kUsbEnablePath ''0'' w1 = (o1, w2)" by fastforce
    note t0 = WriteText_spec [OF w0, simplified]
    note s0 = wrote_textD [OF t0] and c0 = wrote_char [OF t0]
    show ?thesis
    proof (cases o1)
      case False
      with assms(1) rt True w0 have "\<not> ok" "w' = w2" by (simp_all add: publish_serial_def)
      with False s0 c0 u show ?thesis by (auto simp: gadget_restored_def)
    next
      case o1: True
      obtain o2 w3 where ws: "WriteText kUsbSerialPath serial w2 = (o2, w3)" by fastforce
      obtain o3 w4 where w9: "WriteText kUsbEnablePath ''1'' w3 = (o3, w4)" by fastforce
      note s2 = wrote_textD [OF WriteText_spec [OF ws assms(2)]]
      note t3 = WriteText_spec [OF w9, simplified]
      note s3 = wrote_textD [OF t3] and c3 = wrote_char [OF t3]
      from assms(1) rt True w0 o1 ws w9 have r: "ok = (o2 \<and> o3)" "w' = w4"
        by (auto simp: publish_serial_def split: bool.splits)
      from s2(4) obtain chunks where c: "stores w3 = stores w @ (kUsbEnablePath, ''0'') # map (Pair kUsbSerialPath) chunks"
        "o2 \<longrightarrow> concat chunks = serial" using c0 o1 u(3) by auto
      have st: "stores w' = stores w @ ((kUsbEnablePath, ''0'') # map (Pair kUsbSerialPath) chunks @ (if o3 then [(kUsbEnablePath, ''1'')] else []))"
        using c3 c(1) r by simp
      have w5: "serial_attempted serial w = w3" using rt w0 ws by (simp add: serial_attempted_def)
      have "node_value w' kUsbEnablePath = Some (if o3 then ''1'' else ''0'')"
        unfolding node_value_def st using map_of_other_path [OF usb_paths_differ, of "rev chunks"]
        by (auto simp: map_add_def rev_map)
      then have "gadget_restored serial w w'" unfolding gadget_restored_def w5 using st r(2) w9
        by (intro exI [of _ "(kUsbEnablePath, ''0'') # map (Pair kUsbSerialPath) chunks @ (if o3 then [(kUsbEnablePath, ''1'')] else [])"]) simp
      moreover have "ok \<longrightarrow> (\<exists>l. stores w' = stores w @ l \<and> published serial l)" using st c(2) r by (auto simp: published_def)
      ultimately show ?thesis using r s0 s2 s3 u by auto
    qed
  qed
qed

lemma text_of_valid:
  assumes "stored_serial fl p = Some s"
  shows "valid_serial s \<and> text_of s \<noteq> []"
proof -
  from assms obtain c where "1024 \<le> length c" "ParsePrivateSerial (take 1024 c) = Some s"
    by (auto simp: stored_serial_def split: option.splits if_splits)
  then have "valid_serial s" using parse_eq [of "take 1024 c"] by (auto simp: Let_def split: if_splits)
  then show ?thesis by (auto simp: valid_serial_def text_of_def)
qed

text \<open>A run of the program, cut into its three phases.\<close>

lemma main_cases:
  assumes "usb_serial_main ps w = (code, props, w')"
  obtains (stopped) w1 where "used_faults w w1" "w' = w1" "code = 1" "props = []"
      "faults w = [] \<Longrightarrow> first_serial (files w) kPrivatePaths = None"
  | (ran) s p w1 ok where "used_faults w w1" "p \<in> set kPrivatePaths" "stored_serial (files w) p = Some s"
      "publish_serial (text_of s) w1 = (ok, w')"
      "fst (read_attempts kRetryCount w) = Some (s, p)" "w1 = snd (WaitForUsbGadget (snd (read_attempts kRetryCount w)))"
      "faults w = [] \<Longrightarrow> first_serial (files w) kPrivatePaths = Some (s, p)"
      "code = (if ok \<and> ps ''vendor.m86.identity.ready'' ''1'' = 0 then 0 else 1)"
      "props = (if ok then [(''vendor.m86.identity.ready'', ''1'')] else [])"
proof -
  obtain r w1 where ra: "read_attempts kRetryCount w = (r, w1)" by fastforce
  note s = read_attempts_spec [OF ra]
  have pos: "0 < kRetryCount" by (simp add: kRetryCount_def)
  show ?thesis
  proof (cases r)
    case None
    with assms ra s pos show ?thesis by (intro stopped [of w1]) (auto simp: usb_serial_main_def)
  next
    case (Some x)
    obtain sr p where x: "x = (sr, p)" by fastforce
    obtain g w2 where wt: "WaitForUsbGadget w1 = (g, w2)" by fastforce
    have u: "used_faults w w2" "faults w = [] \<Longrightarrow> g"
      using wait_attempts_spec [OF wt [unfolded WaitForUsbGadget_def]] s pos used_faultsD(4) [of w w1]
      by (auto intro: used_faults_trans)
    show ?thesis
    proof (cases g)
      case False
      with assms ra Some x wt u show ?thesis by (intro stopped [of w2]) (auto simp: usb_serial_main_def)
    next
      case True
      obtain ok w3 where pb: "publish_serial (text_of sr) w2 = (ok, w3)" by fastforce
      from assms ra Some x wt True pb have "w' = w3"
        "code = (if ok \<and> ps ''vendor.m86.identity.ready'' ''1'' = 0 then 0 else 1)"
        "props = (if ok then [(''vendor.m86.identity.ready'', ''1'')] else [])"
        by (auto simp: usb_serial_main_def split: bool.splits)
      with pb u s Some x pos ra wt show ?thesis by (intro ran [of w2 p sr ok]) auto
    qed
  qed
qed

section \<open>Properties\<close>

text \<open>
  C26: The slot layout round-trips: a slot of 1024 bytes yields a serial exactly when the
  serial has 4 to 64 characters a USB serial may have and stands in the slot behind the
  signature of 256 bytes and its length in two bytes, low byte first.
\<close>

theorem private_serial_roundtrip:
  assumes "length slot = 1024"
  shows "ParsePrivateSerial slot = Some s \<longleftrightarrow>
    valid_serial s \<and> (\<exists>signature padding. slot = signature @ le_bytes 2 (length s) @ s @ padding \<and> length signature = 256)"
proof
  assume "ParsePrivateSerial slot = Some s"
  with assms have s: "s = take (slot_serial slot) (drop 258 slot)" "valid_serial s" "slot_serial slot \<le> 64"
    by (auto simp: parse_eq Let_def split: if_splits)
  then have len: "length s = slot_serial slot" using assms by simp
  have "slot = take 256 slot @ le_bytes 2 (length s) @ s @ drop (258 + slot_serial slot) slot"
    using slot_layout [OF assms _ s(3) refl] s len by (simp add: valid_serial_def)
  moreover have "length (take 256 slot) = 256" using assms by simp
  ultimately show "valid_serial s \<and> (\<exists>signature padding. slot = signature @ le_bytes 2 (length s) @ s @ padding \<and> length signature = 256)"
    using s(2) by blast
next
  assume r: "valid_serial s \<and> (\<exists>signature padding. slot = signature @ le_bytes 2 (length s) @ s @ padding \<and> length signature = 256)"
  then obtain sg pd where slot: "slot = sg @ le_bytes 2 (length s) @ s @ pd" "length sg = 256" and v: "valid_serial s" by blast
  have "slot ! 256 = of_nat (length s mod 256)" "slot ! 257 = of_nat (length s div 256 mod 256)"
    using slot by (simp_all add: nth_append numeral_2_eq_2)
  then have n: "slot_serial slot = length s" using v by (simp add: slot_serial_def valid_serial_def unat_of_nat)
  have "drop 258 slot = s @ pd" using slot by simp
  then show "ParsePrivateSerial slot = Some s" using v assms by (simp add: parse_eq n Let_def valid_serial_def)
qed

text \<open>
  C7: The program publishes safely, whatever calls fail: no descriptor is left open; the
  readiness property is set only after the whole serial of one of the private partitions
  went to the serial node, with the gadget disabled before and enabled again after it when
  it was enabled; and the program reports success exactly when it set the property.
\<close>

theorem usb_serial_published:
  assumes "usb_serial_main ps w = (code, props, w')"
  shows "fds w' = fds w \<and> files w' = files w \<and>
    (code = 0 \<longleftrightarrow> props \<noteq> [] \<and> ps ''vendor.m86.identity.ready'' ''1'' = 0) \<and>
    (props \<noteq> [] \<longrightarrow> props = [(''vendor.m86.identity.ready'', ''1'')] \<and>
       (\<exists>p s l. p \<in> set kPrivatePaths \<and> stored_serial (files w) p = Some s \<and> valid_serial s \<and>
          stores w' = stores w @ l \<and> published (text_of s) l))"
  using assms
proof (cases rule: main_cases)
  case stopped
  then show ?thesis using used_faultsD [of w w'] by auto
next
  case (ran s p w1 ok)
  note t = text_of_valid [OF ran(3)]
  from publish_spec [OF ran(4)] t ran used_faultsD [OF ran(1)] show ?thesis by auto
qed

text \<open>
  C36: It succeeds: when no call fails and some private partition holds a valid slot, the
  serial of the first such path is published and the property set.
\<close>

theorem usb_serial_succeeds:
  assumes "faults w = []" "first_serial (files w) kPrivatePaths = Some (s, p)" "ps ''vendor.m86.identity.ready'' ''1'' = 0"
  shows "\<exists>w' l. usb_serial_main ps w = (0, [(''vendor.m86.identity.ready'', ''1'')], w') \<and>
    stores w' = stores w @ l \<and> published (text_of s) l"
proof -
  obtain code props w' where run: "usb_serial_main ps w = (code, props, w')" by (metis prod_cases3)
  then show ?thesis
  proof (cases rule: main_cases)
    case stopped
    with assms show ?thesis by simp
  next
    case (ran s' p' w1 ok)
    then have "s' = s" using assms by simp
    moreover have "faults w1 = []" "stores w1 = stores w" using used_faultsD [OF ran(1)] assms(1) by simp_all
    ultimately show ?thesis using publish_spec [OF ran(4)] text_of_valid [OF ran(3)] ran(8,9) assms(3) run by auto
  qed
qed

text \<open>
  C27: The gadget is not left disabled: whenever a run wrote 0 to the gadget's enable node, it
  ends with the attempt to write 1 there, made in the very state that the attempt to write the
  serial left, whether that succeeded or not. The gadget is therefore enabled at the end unless this
  last write itself fails.
\<close>

theorem usb_gadget_reenabled:
  assumes "usb_serial_main ps w = (code, props, w')"
  shows "\<exists>l. stores w' = stores w @ l \<and> ((kUsbEnablePath, ''0'') \<in> set l \<longrightarrow>
    (\<exists>serial source. fst (read_attempts kRetryCount w) = Some (serial, source) \<and>
       (let w1 = snd (WaitForUsbGadget (snd (read_attempts kRetryCount w)));
            w2 = snd (WriteText kUsbEnablePath ''0'' (snd (ReadText kUsbEnablePath w1)));
            w3 = snd (WriteText kUsbSerialPath (text_of serial) w2);
            (enabled, w4) = WriteText kUsbEnablePath ''1'' w3
        in w' = w4 \<and> node_value w' kUsbEnablePath = Some (if enabled then ''1'' else ''0''))))"
  using assms
proof (cases rule: main_cases)
  case (stopped w1)
  then show ?thesis using used_faultsD(3) [of w w1] by (intro exI [of _ "[]"]) simp
next
  case (ran s p w1 ok)
  then show ?thesis using publish_spec [OF ran(4)] text_of_valid [OF ran(3)] used_faultsD(3) [OF ran(1)]
    by (simp add: gadget_restored_def serial_attempted_def Let_def case_prod_beta)
qed

section \<open>Instances\<close>

text \<open>A phone whose first private path is missing and whose second holds the serial \<^verbatim>\<open>M8601\<close>.\<close>

definition demo_serial :: "byte list" where "demo_serial = [77, 56, 54, 48, 49]"

definition demo_slot :: "byte list" where
  "demo_slot = replicate 256 0 @ le_bytes 2 5 @ demo_serial @ replicate 761 0"

definition demo_usb_world :: world where
  "demo_usb_world = idle_world\<lparr>files := [''/dev/block/by-name/private'' \<mapsto> demo_slot, kUsbEnablePath \<mapsto> [49, 10]]\<rparr>"

lemma demo_serial_length: "length demo_serial = 5"
  by (simp add: demo_serial_def)

lemma le_bytes_2: "le_bytes 2 n = [of_nat (n mod 256), of_nat (n div 256 mod 256)]"
  by (simp add: numeral_2_eq_2)

lemma demo_slot_len: "length demo_slot = 1024"
  by (simp add: demo_slot_def demo_serial_def)

lemma demo_valid: "valid_serial demo_serial"
  by (simp add: valid_serial_def demo_serial_def IsUsbSerialCharacter_def word_le_nat_alt)

lemma demo_parse: "ParsePrivateSerial demo_slot = Some demo_serial"
proof -
  have "slot_serial demo_slot = 5" by (simp add: slot_serial_def demo_slot_def nth_append le_bytes_2)
  moreover have "take 5 (drop 258 demo_slot) = demo_serial" by (simp add: demo_slot_def demo_serial_def)
  ultimately show ?thesis using demo_valid by (simp add: parse_eq [OF demo_slot_len] Let_def)
qed

lemma demo_first: "first_serial (files demo_usb_world) kPrivatePaths = Some (demo_serial, ''/dev/block/by-name/private'')"
  by (simp add: demo_usb_world_def idle_world_def kPrivatePaths_def stored_serial_def demo_slot_len demo_parse kUsbEnablePath_def)

theorem private_serial_roundtrip_witness:
  "\<exists>signature padding. demo_slot = signature @ le_bytes 2 5 @ demo_serial @ padding \<and> length signature = 256"
  using private_serial_roundtrip [OF demo_slot_len, of demo_serial] demo_parse demo_serial_length by simp

theorem usb_serial_succeeds_witness:
  "fst (usb_serial_main (\<lambda>k v. 0) demo_usb_world) = 0"
  using usb_serial_succeeds [OF _ demo_first, of "\<lambda>k v. 0"] by (auto simp: demo_usb_world_def idle_world_def)

theorem usb_serial_published_witness:
  "let (code, props, w') = usb_serial_main (\<lambda>k v. 1) demo_usb_world in fds w' = [] \<and> code \<noteq> 0"
  using usb_serial_published [of "\<lambda>k v. 1" demo_usb_world "fst (usb_serial_main (\<lambda>k v. 1) demo_usb_world)"
      "fst (snd (usb_serial_main (\<lambda>k v. 1) demo_usb_world))" "snd (snd (usb_serial_main (\<lambda>k v. 1) demo_usb_world))"]
  by (simp add: case_prod_beta demo_usb_world_def idle_world_def Let_def)

lemma demo_text: "text_of demo_serial = ''M8601''"
  by code_simp

lemma demo_publish:
  "\<exists>w'. publish_serial (text_of demo_serial) demo_usb_world = (True, w') \<and>
     stores w' = [(kUsbEnablePath, ''0''), (kUsbSerialPath, ''M8601''), (kUsbEnablePath, ''1'')]"
  by (simp add: publish_serial_def ReadText_def WriteText_def retry_eintr.simps write_from.simps sys_eval demo_usb_world_def
      idle_world_def urandom_path_def kUsbEnablePath_def kUsbSerialPath_def is_blank_def demo_text)

theorem usb_gadget_reenabled_witness:
  "\<exists>enabled. node_value (snd (snd (usb_serial_main (\<lambda>k v. 0) demo_usb_world))) kUsbEnablePath = Some (if enabled then ''1'' else ''0'')"
proof -
  obtain code props w' where run: "usb_serial_main (\<lambda>k v. 0) demo_usb_world = (code, props, w')" by (metis prod_cases3)
  have nf: "faults demo_usb_world = []" "stores demo_usb_world = []" "demo_usb_world\<lparr>faults := []\<rparr> = demo_usb_world"
    by (simp_all add: demo_usb_world_def idle_world_def)
  from run have "(kUsbEnablePath, ''0'') \<in> set (stores w')"
  proof (cases rule: main_cases)
    case stopped
    with demo_first nf show ?thesis by simp
  next
    case (ran s p w1 ok)
    have "w1 = demo_usb_world" using ran(1) nf by (auto simp: used_faults_def)
    moreover have "s = demo_serial" using ran(7) demo_first nf by simp
    ultimately show ?thesis using demo_publish ran(4) by auto
  qed
  moreover from usb_gadget_reenabled [OF run] obtain l where "stores w' = stores demo_usb_world @ l" and
    l: "(kUsbEnablePath, ''0'') \<in> set l \<longrightarrow> (\<exists>enabled. node_value w' kUsbEnablePath = Some (if enabled then ''1'' else ''0''))"
    unfolding Let_def case_prod_beta by blast
  ultimately have "\<exists>enabled. node_value w' kUsbEnablePath = Some (if enabled then ''1'' else ''0'')" using nf(2) by simp
  then show ?thesis by (simp only: run snd_conv)
qed

end
