(* ===== verification/Gps_Queue.thy ===== *)
theory Gps_Queue
  imports Aosp "HOL-Library.Sublist"
begin

text \<open>
  The sensor event queue of \<^verbatim>\<open>gps/vendor/GpsVendor.cpp\<close>: a bounded FIFO between the callback
  of the sensor service and gpsd, with an eventfd that tells gpsd when there is something to
  read. The bounded queue is an interface of its own, a locale; the event queue of the code
  is an instance. Every operation runs under the lock of the queue, so operations are
  atomic steps. The kernel's eventfd is a counter; a script says which of the calls on it
  are interrupted or fail.
\<close>

section \<open>Bounded queues\<close>

text \<open>The last \<open>n\<close> elements of a list.\<close>

definition last_n :: "nat \<Rightarrow> 'a list \<Rightarrow> 'a list" where
  "last_n n xs = drop (length xs - n) xs"

lemma last_n_all: "length xs \<le> n \<Longrightarrow> last_n n xs = xs"
  by (simp add: last_n_def)

lemma length_last_n [simp]: "length (last_n n xs) = min n (length xs)"
  by (auto simp: last_n_def)

lemma suffix_last_n: "suffix (last_n n xs) xs"
  by (simp add: last_n_def suffix_drop)

lemma last_n_append: "last_n c (last_n c a @ xs) = last_n c (a @ xs)"
proof (cases "length a \<le> c")
  case True
  then show ?thesis by (simp add: last_n_all)
next
  case False
  then have "last_n c a @ xs = drop (length a - c) (a @ xs)" by (simp add: last_n_def)
  moreover have "length (last_n c a @ xs) - c = length xs" using False by simp
  ultimately have "last_n c (last_n c a @ xs) = drop (length xs + (length a - c)) (a @ xs)"
    by (simp only: last_n_def [of c "drop (length a - c) (a @ xs)"] drop_drop)
  also have "length xs + (length a - c) = length (a @ xs) - c" using False by simp
  finally show ?thesis by (simp only: last_n_def [of c "a @ xs"])
qed

text \<open>
  The contract: \<open>put\<close> appends an element and gives up the oldest one when the queue is full,
  \<open>get\<close> takes elements from the front. A queue is driven by a list of operations; what was
  put and what came out are recorded.
\<close>

datatype 'a queue_op = Put 'a | Get nat

fun puts :: "'a queue_op list \<Rightarrow> 'a list" where
  "puts [] = []"
| "puts (Put x # ops) = x # puts ops"
| "puts (Get n # ops) = puts ops"

fun run_queue :: "('a \<Rightarrow> 'q \<Rightarrow> 'q) \<Rightarrow> (nat \<Rightarrow> 'q \<Rightarrow> 'a list \<times> 'q) \<Rightarrow> 'a queue_op list \<Rightarrow> 'q \<Rightarrow> 'a list \<times> 'q" where
  "run_queue put get [] q = ([], q)"
| "run_queue put get (Put x # ops) q = run_queue put get ops (put x q)"
| "run_queue put get (Get n # ops) q =
     (case run_queue put get ops (snd (get n q)) of (out, q') \<Rightarrow> (fst (get n q) @ out, q'))"

locale bounded_queue =
  fixes put :: "'a \<Rightarrow> 'q \<Rightarrow> 'q"
    and get :: "nat \<Rightarrow> 'q \<Rightarrow> 'a list \<times> 'q"
    and items :: "'q \<Rightarrow> 'a list"
    and cap :: nat
  assumes put_items: "length (items q) \<le> cap \<Longrightarrow> items (put x q) = last_n cap (items q @ [x])"
    and get_items: "length (items q) \<le> cap \<Longrightarrow> fst (get n q) = take n (items q) \<and> items (snd (get n q)) = drop n (items q)"
begin

text \<open>No element comes out twice, out of order or out of nothing, and the queue stays bounded.\<close>

lemma run_fifo:
  "length (items q) \<le> cap \<Longrightarrow> run_queue put get ops q = (out, q') \<Longrightarrow>
   subseq (out @ items q') (items q @ puts ops) \<and> length (items q') \<le> cap"
proof (induction ops arbitrary: q out rule: puts.induct)
  case 1
  then show ?case by simp
next
  case (2 x ops)
  have it: "items (put x q) = last_n cap (items q @ [x])" using "2.prems"(1) by (rule put_items)
  then have "subseq (out @ items q') (last_n cap (items q @ [x]) @ puts ops) \<and> length (items q') \<le> cap"
    using "2.IH" [of "put x q"] "2.prems"(2) by simp
  moreover have "subseq (last_n cap (items q @ [x]) @ puts ops) ((items q @ [x]) @ puts ops)"
    by (intro list_emb_append_mono suffix_imp_subseq suffix_last_n subseq_order.refl)
  ultimately show ?case by (auto intro: subseq_order.trans)
next
  case (3 n ops)
  note g = get_items [OF "3.prems"(1), of n]
  obtain out1 where r: "run_queue put get ops (snd (get n q)) = (out1, q')" "out = take n (items q) @ out1"
    using "3.prems"(2) g by (auto split: prod.splits)
  have "subseq (out1 @ items q') (drop n (items q) @ puts ops) \<and> length (items q') \<le> cap"
    using "3.IH" [OF _ r(1)] g "3.prems"(1) by simp
  then have "subseq (take n (items q) @ out1 @ items q') (take n (items q) @ drop n (items q) @ puts ops) \<and> length (items q') \<le> cap"
    by (auto intro: list_emb_append_mono)
  then show ?case using r(2) by (metis append.assoc append_take_drop_id puts.simps(3))
qed

text \<open>Nothing is lost while the reader keeps up.\<close>

lemma run_lossless:
  "length (items q) + length (puts ops) \<le> cap \<Longrightarrow> run_queue put get ops q = (out, q') \<Longrightarrow> out @ items q' = items q @ puts ops"
proof (induction ops arbitrary: q out rule: puts.induct)
  case 1
  then show ?case by simp
next
  case (2 x ops)
  have "items (put x q) = items q @ [x]" using put_items [of q x] "2.prems"(1) by (simp add: last_n_all)
  with "2.IH" [of "put x q"] "2.prems" show ?case by simp
next
  case (3 n ops)
  have le: "length (items q) \<le> cap" using "3.prems"(1) by simp
  note g = get_items [OF le, of n]
  obtain out1 where r: "run_queue put get ops (snd (get n q)) = (out1, q')" "out = take n (items q) @ out1"
    using "3.prems"(2) g by (auto split: prod.splits)
  from "3.IH" [OF _ r(1)] g "3.prems"(1) have "out1 @ items q' = drop n (items q) @ puts ops" by simp
  then show ?case using r(2) by (metis append.assoc append_take_drop_id puts.simps(3))
qed

text \<open>Without a reader the queue holds the most recent elements.\<close>

lemma put_all:
  "length (items q) \<le> cap \<Longrightarrow> items (fold put xs q) = last_n cap (items q @ xs)"
proof (induction xs arbitrary: q)
  case Nil
  then show ?case by (simp add: last_n_all)
next
  case (Cons x xs)
  have it: "items (put x q) = last_n cap (items q @ [x])" using Cons.prems by (rule put_items)
  then have "items (fold put xs (put x q)) = last_n cap (last_n cap (items q @ [x]) @ xs)" using Cons.IH [of "put x q"] by simp
  also have "\<dots> = last_n cap ((items q @ [x]) @ xs)" by (rule last_n_append)
  finally show ?case by simp
qed

end

section \<open>The queue of the code\<close>

record 'e event_queue =
  mFd :: int
  mRemote :: "nat option"
  mEvents :: "'e list"
  efd_count :: nat
  efd_script :: "errno option list"

text \<open>
  \<^verbatim>\<open>write\<close> of 1 on the non-blocking eventfd, repeated while interrupted; it fails with
  \<^verbatim>\<open>EAGAIN\<close> when the counter is at its maximum. Every failure is only logged.
\<close>

definition efd_max :: nat where
  "efd_max = 0xfffffffffffffffe"

fun efd_signal :: "errno option list \<Rightarrow> nat \<Rightarrow> errno option list \<times> nat" where
  "efd_signal [] c = ([], if c < efd_max then c + 1 else c)"
| "efd_signal (None # fs) c = (fs, if c < efd_max then c + 1 else c)"
| "efd_signal (Some e # fs) c = (if e = EINTR then efd_signal fs c else (fs, c))"

text \<open>\<^verbatim>\<open>read\<close> takes the whole counter; on a zero counter it fails with \<^verbatim>\<open>EAGAIN\<close>.\<close>

fun efd_drain :: "errno option list \<Rightarrow> nat \<Rightarrow> errno option list \<times> nat" where
  "efd_drain [] c = ([], 0)"
| "efd_drain (None # fs) c = (fs, 0)"
| "efd_drain (Some e # fs) c = (if e = EINTR then efd_drain fs c else (fs, c))"

definition kMaxEvents :: nat where
  "kMaxEvents = 1024"

definition SensorEventQueue_construct :: "int \<Rightarrow> errno option list \<Rightarrow> 'e event_queue" where
  "SensorEventQueue_construct fd fs = \<lparr>mFd = fd, mRemote = None, mEvents = [], efd_count = 0, efd_script = fs\<rparr>"

text \<open>The destructor closes the eventfd if there is one: the descriptors it closes.\<close>

definition SensorEventQueue_destroy :: "'e event_queue \<Rightarrow> int list" where
  "SensorEventQueue_destroy q = (if mFd q \<ge> 0 then [mFd q] else [])"

text \<open>\<open>convert\<close> is \<^verbatim>\<open>convertToSensorEvent\<close> with the copy into the NDK's event structure.\<close>

definition enqueue :: "('h \<Rightarrow> 'e) \<Rightarrow> 'h \<Rightarrow> 'e event_queue \<Rightarrow> 'e event_queue" where
  "enqueue convert event q =
     (let output = convert event;
          ev = (if length (mEvents q) = kMaxEvents then tl (mEvents q) else mEvents q);
          wasEmpty = (ev = []);
          q1 = q\<lparr>mEvents := ev @ [output]\<rparr>
      in if wasEmpty then let (fs, c) = efd_signal (efd_script q1) (efd_count q1) in q1\<lparr>efd_script := fs, efd_count := c\<rparr>
         else q1)"

text \<open>The copying loop of \<open>read\<close>: \<open>n\<close> events from the front.\<close>

fun take_events :: "nat \<Rightarrow> 'e list \<Rightarrow> 'e list \<times> 'e list" where
  "take_events 0 es = ([], es)"
| "take_events (Suc n) es = (let (out, rest) = take_events n (tl es) in (hd es # out, rest))"

definition queue_read :: "aosp \<Rightarrow> bool \<Rightarrow> nat \<Rightarrow> 'e event_queue \<Rightarrow> int \<times> 'e list \<times> 'e event_queue" where
  "queue_read A has_buffer count q =
     (if \<not> has_buffer \<or> count = 0 then (BAD_VALUE A, [], q)
      else let n = min count (length (mEvents q));
               (out, rest) = take_events n (mEvents q);
               q1 = q\<lparr>mEvents := rest\<rparr>;
               q2 = (if rest = [] then let (fs, c) = efd_drain (efd_script q1) (efd_count q1) in q1\<lparr>efd_script := fs, efd_count := c\<rparr>
                     else q1)
           in (if n \<noteq> 0 then int n else neg EAGAIN, out, q2))"

definition getFd :: "'e event_queue \<Rightarrow> int" where
  "getFd q = mFd q"

text \<open>\<open>Callback::onEvent\<close>: the weak reference may have died.\<close>

definition onEvent :: "('h \<Rightarrow> 'e) \<Rightarrow> 'h \<Rightarrow> 'e event_queue option \<Rightarrow> 'e event_queue option" where
  "onEvent convert event queue = (case queue of None \<Rightarrow> None | Some q \<Rightarrow> Some (enqueue convert event q))"

section \<open>Lemmas\<close>

lemma take_events_eq: "n \<le> length es \<Longrightarrow> take_events n es = (take n es, drop n es)"
  by (induction n arbitrary: es) (auto simp: take_Suc drop_Suc neq_Nil_conv Suc_le_length_iff)

lemma queue_read_items:
  assumes "0 < count"
  shows "fst (snd (queue_read A True count q)) = take count (mEvents q)"
    "mEvents (snd (snd (queue_read A True count q))) = drop count (mEvents q)"
  using assms by (auto simp: queue_read_def Let_def take_events_eq min_def split: prod.splits)

text \<open>
  A read through a buffer for \<open>n\<close> events; a request of 0 events takes none.
\<close>

definition read_events :: "aosp \<Rightarrow> nat \<Rightarrow> 'e event_queue \<Rightarrow> 'e list \<times> 'e event_queue" where
  "read_events A n q = snd (queue_read A True n q)"

lemma enqueue_items:
  assumes "length (mEvents q) \<le> kMaxEvents"
  shows "mEvents (enqueue convert e q) = last_n kMaxEvents (mEvents q @ [convert e])"
proof (cases "length (mEvents q) = kMaxEvents")
  case True
  then have "last_n kMaxEvents (mEvents q @ [convert e]) = tl (mEvents q) @ [convert e]"
    by (cases "mEvents q") (simp_all add: last_n_def kMaxEvents_def)
  with True show ?thesis by (simp add: enqueue_def Let_def split: prod.splits)
next
  case False
  with assms show ?thesis by (simp add: enqueue_def Let_def last_n_all split: prod.splits)
qed

interpretation gps: bounded_queue "enqueue (\<lambda>e. e)" "read_events A" mEvents kMaxEvents for A
proof
  fix q :: "'a event_queue" and n x
  show "fst (read_events A n q) = take n (mEvents q) \<and> mEvents (snd (read_events A n q)) = drop n (mEvents q)"
    using queue_read_items [of n A q] by (cases "n = 0") (auto simp: read_events_def queue_read_def)
qed (simp add: enqueue_items)

text \<open>The eventfd is readable exactly while there are events, as long as no call on it fails for good.\<close>

definition only_signals :: "errno option list \<Rightarrow> bool" where
  "only_signals fs \<longleftrightarrow> list_all (\<lambda>x. x = None \<or> x = Some EINTR) fs"

definition wakeup_ok :: "'e event_queue \<Rightarrow> bool" where
  "wakeup_ok q \<longleftrightarrow> only_signals (efd_script q) \<and> efd_count q = (if mEvents q = [] then 0 else 1) \<and>
     length (mEvents q) \<le> kMaxEvents"

lemma efd_signal_ok: "only_signals fs \<Longrightarrow> only_signals (fst (efd_signal fs c)) \<and> (c < efd_max \<longrightarrow> snd (efd_signal fs c) = c + 1)"
  by (induction fs c rule: efd_signal.induct) (auto simp: only_signals_def)

lemma efd_drain_ok: "only_signals fs \<Longrightarrow> only_signals (fst (efd_drain fs c)) \<and> snd (efd_drain fs c) = 0"
  by (induction fs c rule: efd_drain.induct) (auto simp: only_signals_def)

lemma enqueue_wakeup:
  assumes "wakeup_ok q"
  shows "wakeup_ok (enqueue convert e q)"
proof -
  have len: "length (mEvents (enqueue convert e q)) \<le> kMaxEvents"
    using enqueue_items [of q convert e] assms by (simp add: wakeup_ok_def)
  let ?ev = "if length (mEvents q) = kMaxEvents then tl (mEvents q) else mEvents q"
  have e: "?ev = [] \<Longrightarrow> mEvents q = []" by (cases "mEvents q") (auto simp: kMaxEvents_def split: if_splits)
  have ne: "mEvents (enqueue convert e q) \<noteq> []" by (simp add: enqueue_def Let_def split: prod.splits)
  show ?thesis
  proof (cases "?ev = []")
    case True
    with e assms have "efd_count q = 0" "only_signals (efd_script q)" by (auto simp: wakeup_ok_def)
    with True efd_signal_ok [of "efd_script q" 0] have "efd_count (enqueue convert e q) = 1" "only_signals (efd_script (enqueue convert e q))"
      by (auto simp: enqueue_def Let_def efd_max_def split: prod.splits)
    with ne len show ?thesis by (simp add: wakeup_ok_def)
  next
    case False
    then have "efd_count (enqueue convert e q) = efd_count q" "efd_script (enqueue convert e q) = efd_script q" "mEvents q \<noteq> []"
      by (auto simp: enqueue_def Let_def split: if_splits)
    with ne len assms show ?thesis by (simp add: wakeup_ok_def)
  qed
qed

lemma read_wakeup:
  assumes "wakeup_ok q"
  shows "wakeup_ok (snd (snd (queue_read A b n q)))"
  using assms efd_drain_ok [of "efd_script q" "efd_count q"]
  by (auto simp: queue_read_def Let_def take_events_eq wakeup_ok_def split: prod.splits if_splits)

text \<open>The queue as a machine of arriving events and reads.\<close>

datatype 'h queue_event = Arrives 'h | Reads bool nat

definition queue_step :: "aosp \<Rightarrow> ('h \<Rightarrow> 'e) \<Rightarrow> 'e event_queue \<Rightarrow> 'h queue_event \<Rightarrow> 'e event_queue" where
  "queue_step A convert q ev = (case ev of
     Arrives h \<Rightarrow> enqueue convert h q | Reads b n \<Rightarrow> snd (snd (queue_read A b n q)))"

interpretation wake: machine "queue_step A convert" "\<lambda>q. \<exists>fd fs. q = SensorEventQueue_construct fd fs \<and> only_signals fs" wakeup_ok for A convert
proof
  show "wakeup_ok s" if "\<exists>fd fs. s = SensorEventQueue_construct fd fs \<and> only_signals fs" for s :: "'b event_queue"
    using that by (auto simp: wakeup_ok_def SensorEventQueue_construct_def)
  show "wakeup_ok (queue_step A convert s e)" if "wakeup_ok s" for s e
    using that by (cases e) (simp_all add: queue_step_def enqueue_wakeup read_wakeup)
qed

section \<open>Properties\<close>

text \<open>
  C8: The event queue is a bounded FIFO: over any sequence of arrivals and reads, what the
  reads return followed by what is still queued is an order-preserving selection of the
  arrived events, the queue never holds more than 1024, and it is all of them when no more
  than 1024 arrived.
\<close>

theorem gps_queue_fifo:
  assumes "run_queue (enqueue (\<lambda>e. e)) (read_events A) ops (SensorEventQueue_construct fd fs) = (out, q)"
  shows "subseq (out @ mEvents q) (puts ops) \<and> length (mEvents q) \<le> 1024 \<and>
    (length (puts ops) \<le> 1024 \<longrightarrow> out @ mEvents q = puts ops)"
proof -
  have e: "mEvents (SensorEventQueue_construct fd fs) = []" by (simp add: SensorEventQueue_construct_def)
  show ?thesis using gps.run_fifo [OF _ assms] gps.run_lossless [OF _ assms] by (simp add: e kMaxEvents_def)
qed

text \<open>
  A reader that fell behind sees the most recent samples: after any number of arrivals
  without a read, the queue holds exactly the last 1024 of the events, converted.
\<close>

theorem gps_queue_keeps_recent:
  "mEvents (fold (enqueue convert) xs (SensorEventQueue_construct fd fs)) = last_n 1024 (map convert xs)"
proof -
  have "fold (enqueue convert) xs q = fold (enqueue (\<lambda>e. e)) (map convert xs) q" for q
    by (induction xs arbitrary: q) (simp_all add: enqueue_def)
  then show ?thesis using gps.put_all [of "SensorEventQueue_construct fd fs" "map convert xs"]
    by (simp add: SensorEventQueue_construct_def kMaxEvents_def)
qed

text \<open>
  C23: No wakeup is lost or spurious: as long as the calls on the eventfd are at most
  interrupted, the eventfd is readable exactly while the queue holds events, after any
  sequence of arrivals and reads, malformed reads included.
\<close>

theorem gps_queue_wakeup:
  assumes "only_signals fs"
    and "q = foldl (queue_step A convert) (SensorEventQueue_construct fd fs) evs"
  shows "efd_count q \<noteq> 0 \<longleftrightarrow> mEvents q \<noteq> []"
proof -
  have "wakeup_ok q" unfolding assms(2) by (rule wake.reach_inv) (use assms(1) in blast)
  then show ?thesis by (simp add: wakeup_ok_def)
qed

section \<open>Instances\<close>

theorem gps_queue_fifo_witness:
  "run_queue (enqueue (\<lambda>e. e)) (read_events android) [Put 1, Put 2, Get 1, Put (3::nat)] (SensorEventQueue_construct 5 []) =
     ([1], \<lparr>mFd = 5, mRemote = None, mEvents = [2, 3], efd_count = 1, efd_script = []\<rparr>) \<and>
   subseq [1, 2, 3] [1, 2, 3 :: nat]"
proof -
  have run: "run_queue (enqueue (\<lambda>e. e)) (read_events android) [Put 1, Put 2, Get 1, Put (3::nat)] (SensorEventQueue_construct 5 []) =
     ([1], \<lparr>mFd = 5, mRemote = None, mEvents = [2, 3], efd_count = 1, efd_script = []\<rparr>)"
    by (simp add: enqueue_def read_events_def queue_read_def SensorEventQueue_construct_def kMaxEvents_def efd_max_def Let_def)
  from gps_queue_fifo [OF run] run show ?thesis by simp
qed

theorem gps_queue_wakeup_witness:
  "efd_count (foldl (queue_step android (\<lambda>h. h)) (SensorEventQueue_construct 5 [Some EINTR, None]) [Arrives (7::nat)]) \<noteq> 0"
  using gps_queue_wakeup [of "[Some EINTR, None]" _ android "\<lambda>h. h" 5 "[Arrives (7::nat)]", OF _ refl]
  by (simp add: only_signals_def queue_step_def enqueue_def SensorEventQueue_construct_def kMaxEvents_def Let_def split: prod.splits)

end
