(* ===== verification/Gps_Manager.thy ===== *)
theory Gps_Manager
  imports Gps_Queue
begin

text \<open>
  The sensor manager of \<^verbatim>\<open>gps/vendor/GpsVendor.cpp\<close> that gpsd is linked against, over the
  sensor service. The service is another process: its calls are parameters over a state
  \<open>'r\<close> of their own. A synchronous call has a transport status (\<^verbatim>\<open>isOk()\<close>) and, where the
  interface returns values, a callback that is run or not. A sensor is handed out as a
  pointer into \<open>mSensors\<close>: an index here.
\<close>

section \<open>Data\<close>

datatype fs_result =
    FS_OK | FS_NOT_EXIST | FS_NO_MEMORY | FS_NO_INIT | FS_PERMISSION_DENIED | FS_BAD_VALUE | FS_INVALID_OPERATION | FS_OTHER nat

text \<open>The members of \<^verbatim>\<open>SensorInfo\<close> the getters read; floats as their 32 bits.\<close>

record sensor_info =
  sensorHandle :: int
  sensorType :: int
  name :: string
  vendor :: string
  maxRange :: u32
  resolution :: u32
  powerUsage :: u32
  minDelay :: int

record 'r service =
  getService :: "'r \<Rightarrow> bool \<times> 'r"
  svc_getSensorList :: "'r \<Rightarrow> (sensor_info list \<times> fs_result) option \<times> bool \<times> 'r"
  svc_getDefaultSensor :: "int \<Rightarrow> 'r \<Rightarrow> (sensor_info \<times> fs_result) option \<times> bool \<times> 'r"
  svc_createEventQueue :: "'r \<Rightarrow> (nat option \<times> fs_result) option \<times> bool \<times> 'r"
  svc_enableSensor :: "nat \<Rightarrow> int \<Rightarrow> int \<Rightarrow> int \<Rightarrow> 'r \<Rightarrow> fs_result option \<times> 'r"
  svc_disableSensor :: "nat \<Rightarrow> int \<Rightarrow> 'r \<Rightarrow> fs_result option \<times> 'r"

record 'r sensor_manager =
  mManager :: bool
  mSensors :: "sensor_info list"
  remote_state :: 'r
  rpc_threads :: "(nat \<times> bool) list"

section \<open>Sensors\<close>

definition status :: "aosp \<Rightarrow> fs_result option \<Rightarrow> int" where
  "status A result = (case result of
     None \<Rightarrow> DEAD_OBJECT A
   | Some FS_OK \<Rightarrow> OK A
   | Some FS_NOT_EXIST \<Rightarrow> NAME_NOT_FOUND A
   | Some FS_NO_MEMORY \<Rightarrow> NO_MEMORY A
   | Some FS_NO_INIT \<Rightarrow> NO_INIT A
   | Some FS_PERMISSION_DENIED \<Rightarrow> PERMISSION_DENIED A
   | Some FS_BAD_VALUE \<Rightarrow> BAD_VALUE A
   | Some FS_INVALID_OPERATION \<Rightarrow> INVALID_OPERATION A
   | Some (FS_OTHER n) \<Rightarrow> UNKNOWN_ERROR A)"

definition getName :: "sensor_info \<Rightarrow> string" where "getName s = name s"
definition getVendor :: "sensor_info \<Rightarrow> string" where "getVendor s = vendor s"
definition getHandle :: "sensor_info \<Rightarrow> int" where "getHandle s = sensorHandle s"
definition getType :: "sensor_info \<Rightarrow> int" where "getType s = sensorType s"
definition getMaxValue :: "sensor_info \<Rightarrow> u32" where "getMaxValue s = maxRange s"
definition getResolution :: "sensor_info \<Rightarrow> u32" where "getResolution s = resolution s"
definition getPowerUsage :: "sensor_info \<Rightarrow> u32" where "getPowerUsage s = powerUsage s"
definition getMinDelay :: "sensor_info \<Rightarrow> int" where "getMinDelay s = minDelay s"

text \<open>The old selector gpsd asks for is the current TLS method of BoringSSL.\<close>

definition vendor_SSLv3_client_method :: "'m \<Rightarrow> 'm" where
  "vendor_SSLv3_client_method tls_client_method = tls_client_method"

section \<open>Queue control\<close>

definition initialize :: "'r service \<Rightarrow> bool \<Rightarrow> 'e event_queue \<Rightarrow> 'r \<Rightarrow> bool \<times> 'e event_queue \<times> 'r" where
  "initialize S manager q r =
     (if mFd q < 0 \<or> \<not> manager then (False, q, r)
      else let (cb, isOk, r1) = svc_createEventQueue S r;
               q1 = (case cb of Some (queue, FS_OK) \<Rightarrow> q\<lparr>mRemote := queue\<rparr> | _ \<Rightarrow> q)
           in (isOk \<and> mRemote q1 \<noteq> None, q1, r1))"

definition enableSensor :: "aosp \<Rightarrow> 'r service \<Rightarrow> sensor_info option \<Rightarrow> 'e event_queue \<Rightarrow> 'r \<Rightarrow> int \<times> 'r" where
  "enableSensor A S sensor q r = (case (sensor, mRemote q) of
     (Some s, Some remote) \<Rightarrow> (let (res, r1) = svc_enableSensor S remote (getHandle s) 200000 0 r in (status A res, r1))
   | _ \<Rightarrow> (BAD_VALUE A, r))"

definition disableSensor :: "aosp \<Rightarrow> 'r service \<Rightarrow> sensor_info option \<Rightarrow> 'e event_queue \<Rightarrow> 'r \<Rightarrow> int \<times> 'r" where
  "disableSensor A S sensor q r = (case (sensor, mRemote q) of
     (Some s, Some remote) \<Rightarrow> (let (res, r1) = svc_disableSensor S remote (getHandle s) r in (status A res, r1))
   | _ \<Rightarrow> (BAD_VALUE A, r))"

text \<open>The conversion of the period to \<^verbatim>\<open>int32_t\<close> as C++ does it, modulo the word size.\<close>

definition to_s32 :: "int \<Rightarrow> int" where
  "to_s32 v = sint (word_of_int v :: 32 word)"

definition setEventRate :: "aosp \<Rightarrow> 'r service \<Rightarrow> sensor_info option \<Rightarrow> int \<Rightarrow> 'e event_queue \<Rightarrow> 'r \<Rightarrow> int \<times> 'r" where
  "setEventRate A S sensor ns q r = (case (sensor, mRemote q) of
     (Some s, Some remote) \<Rightarrow>
       if ns < 0 \<or> cdiv ns 1000 > 2147483647 then (BAD_VALUE A, r)
       else let (res, r1) = svc_enableSensor S remote (getHandle s) (to_s32 (cdiv ns 1000)) 0 r in (status A res, r1)
   | _ \<Rightarrow> (BAD_VALUE A, r))"

section \<open>The manager\<close>

text \<open>The static instance, with the thread pool configured once.\<close>

definition getInstanceForPackage :: "'r sensor_manager \<Rightarrow> 'r sensor_manager" where
  "getInstanceForPackage m = (if rpc_threads m = [] then m\<lparr>rpc_threads := [(2, False)]\<rparr> else m)"

definition connect :: "'r service \<Rightarrow> 'r sensor_manager \<Rightarrow> bool \<times> 'r sensor_manager" where
  "connect S m =
     (if mManager m then (True, m)
      else let (found, r1) = getService S (remote_state m); m1 = m\<lparr>remote_state := r1\<rparr>
           in if \<not> found then (False, m1)
              else let (cb, isOk, r2) = svc_getSensorList S r1;
                       m2 = m1\<lparr>remote_state := r2\<rparr>;
                       (ok, m3) = (case cb of Some (l, FS_OK) \<Rightarrow> (True, m2\<lparr>mSensors := mSensors m2 @ l\<rparr>) | _ \<Rightarrow> (False, m2))
                   in if \<not> isOk \<or> \<not> ok then (False, m3) else (True, m3\<lparr>mManager := True\<rparr>))"

text \<open>The result and, unless the argument is null, what \<open>*list\<close> is set to.\<close>

definition getSensorList :: "aosp \<Rightarrow> 'r service \<Rightarrow> bool \<Rightarrow> 'r sensor_manager \<Rightarrow> int \<times> sensor_info list option \<times> 'r sensor_manager" where
  "getSensorList A S has_list m =
     (if \<not> has_list then (BAD_VALUE A, None, m)
      else case connect S m of
        (False, m1) \<Rightarrow> (NO_INIT A, None, m1)
      | (True, m1) \<Rightarrow> (int (length (mSensors m1)), Some (mSensors m1), m1))"

fun find_handle :: "int \<Rightarrow> nat \<Rightarrow> sensor_info list \<Rightarrow> nat option" where
  "find_handle h i [] = None"
| "find_handle h i (s # ss) = (if getHandle s = h then Some i else find_handle h (Suc i) ss)"

definition getDefaultSensor :: "'r service \<Rightarrow> int \<Rightarrow> 'r sensor_manager \<Rightarrow> nat option \<times> 'r sensor_manager" where
  "getDefaultSensor S type m =
     (case connect S m of
        (False, m1) \<Rightarrow> (None, m1)
      | (True, m1) \<Rightarrow>
          (let (cb, isOk, r1) = svc_getDefaultSensor S type (remote_state m1);
               handle = (case cb of Some (info, FS_OK) \<Rightarrow> sensorHandle info | _ \<Rightarrow> -1);
               m2 = m1\<lparr>remote_state := r1\<rparr>
           in if \<not> isOk then (None, m2) else (find_handle handle 0 (mSensors m2), m2)))"

text \<open>
  \<open>eventfd\<close> is the new descriptor. A queue whose initialisation failed is dropped again, and
  with its last reference its destructor runs: the second component lists what that closed.
\<close>

definition createEventQueue :: "'r service \<Rightarrow> int \<Rightarrow> int \<Rightarrow> errno option list \<Rightarrow> 'r sensor_manager \<Rightarrow>
    'e event_queue option \<times> int list \<times> 'r sensor_manager" where
  "createEventQueue S mode eventfd fs m =
     (if mode \<noteq> 0 then (None, [], m)
      else case connect S m of
        (False, m1) \<Rightarrow> (None, [], m1)
      | (True, m1) \<Rightarrow>
          (let (ok, q, r1) = initialize S (mManager m1) (SensorEventQueue_construct eventfd fs) (remote_state m1);
               m2 = m1\<lparr>remote_state := r1\<rparr>
           in if \<not> ok then (None, SensorEventQueue_destroy q, m2) else (Some q, [], m2)))"

definition manager0 :: "'r \<Rightarrow> 'r sensor_manager" where
  "manager0 r = \<lparr>mManager = False, mSensors = [], remote_state = r, rpc_threads = []\<rparr>"

section \<open>Lemmas\<close>

text \<open>
  The documented behaviour of synchronous HIDL calls: the callback has run exactly when the
  transport succeeded.
\<close>

definition hidl_ok :: "'r service \<Rightarrow> bool" where
  "hidl_ok S \<longleftrightarrow> (\<forall>r. case svc_getSensorList S r of (cb, isOk, r1) \<Rightarrow> isOk \<longleftrightarrow> cb \<noteq> None)"

text \<open>What the manager has learned: nothing, or the list the service reported.\<close>

definition service_reported :: "'r service \<Rightarrow> sensor_info list \<Rightarrow> bool" where
  "service_reported S l \<longleftrightarrow> (\<exists>r r1. svc_getSensorList S r = (Some (l, FS_OK), True, r1))"

definition manager_ok :: "'r service \<Rightarrow> 'r sensor_manager \<Rightarrow> bool" where
  "manager_ok S m \<longleftrightarrow> (if mManager m then service_reported S (mSensors m) else mSensors m = [])"

lemma connect_spec:
  assumes "hidl_ok S" "manager_ok S m" "connect S m = (ok, m')"
  shows "manager_ok S m' \<and> (ok \<longleftrightarrow> mManager m') \<and> (mManager m \<longrightarrow> m' = m)"
proof (cases "mManager m")
  case True
  with assms show ?thesis by (auto simp: connect_def)
next
  case False
  obtain found r1 where gs: "getService S (remote_state m) = (found, r1)" by fastforce
  obtain cb isOk r2 where sl: "svc_getSensorList S r1 = (cb, isOk, r2)" by (metis prod_cases3)
  have hk: "isOk \<longleftrightarrow> cb \<noteq> None" using assms(1) sl by (auto simp: hidl_ok_def dest!: spec [of _ r1])
  have e: "mSensors m = []" using assms(2) False by (simp add: manager_ok_def)
  show ?thesis using assms(3) False gs sl hk e
    by (auto simp: connect_def manager_ok_def service_reported_def Let_def split: if_splits option.splits fs_result.splits) blast
qed

lemma find_handle_Some: "find_handle h i l = Some j \<Longrightarrow> i \<le> j \<and> j < i + length l \<and> getHandle (l ! (j - i)) = h"
proof (induction l arbitrary: i)
  case Nil
  then show ?case by simp
next
  case (Cons s l)
  show ?case
  proof (cases "getHandle s = h")
    case True
    with Cons.prems show ?thesis by simp
  next
    case False
    with Cons.prems Cons.IH [of "Suc i"] show ?thesis by (auto simp: nth_Cons' Suc_diff_le not_less)
  qed
qed

text \<open>The calls gpsd makes on the manager.\<close>

datatype manager_call = GetInstance | GetSensorList bool | GetDefaultSensor int | CreateEventQueue int int "errno option list"

definition manager_step :: "aosp \<Rightarrow> 'r service \<Rightarrow> 'r sensor_manager \<Rightarrow> manager_call \<Rightarrow> 'r sensor_manager" where
  "manager_step A S m c = (case c of
     GetInstance \<Rightarrow> getInstanceForPackage m
   | GetSensorList b \<Rightarrow> snd (snd (getSensorList A S b m))
   | GetDefaultSensor type \<Rightarrow> snd (getDefaultSensor S type m)
   | CreateEventQueue mode fd fs \<Rightarrow> snd (snd (createEventQueue S mode fd fs m :: unit event_queue option \<times> int list \<times> 'r sensor_manager)))"

lemma manager_step_spec:
  assumes "hidl_ok S" "manager_ok S m"
  shows "manager_ok S (manager_step A S m c) \<and> (mManager m \<longrightarrow> mManager (manager_step A S m c) \<and> mSensors (manager_step A S m c) = mSensors m)"
proof -
  obtain ok m1 where cn: "connect S m = (ok, m1)" by fastforce
  have keep: "manager_ok S (m1\<lparr>remote_state := r\<rparr>) \<longleftrightarrow> manager_ok S m1" for r by (simp add: manager_ok_def)
  show ?thesis
    by (cases c; cases ok) (use connect_spec [OF assms cn] cn keep assms(2) in
      \<open>auto simp: manager_step_def getInstanceForPackage_def getSensorList_def getDefaultSensor_def createEventQueue_def Let_def manager_ok_def
        split: prod.splits\<close>)
qed

interpretation mgr: machine "manager_step A S" "\<lambda>m. hidl_ok S \<and> (\<exists>r. m = manager0 r)" "\<lambda>m. hidl_ok S \<and> manager_ok S m" for A S
proof
  show "hidl_ok S \<and> manager_ok S m" if "hidl_ok S \<and> (\<exists>r. m = manager0 r)" for m
    using that by (auto simp: manager_ok_def manager0_def)
  show "hidl_ok S \<and> manager_ok S (manager_step A S m c)" if "hidl_ok S \<and> manager_ok S m" for m c
    using that manager_step_spec by blast
qed

section \<open>Properties\<close>

text \<open>
  C28: The sensor list gpsd holds pointers into is stable: whatever sequence of calls is
  made, the manager knows no sensors until it is connected, then exactly one list the
  service reported, and from then on no call changes it; a default sensor is always an
  element of that list.
\<close>

theorem gps_sensor_list_stable:
  assumes "hidl_ok S" "m = foldl (manager_step A S) (manager0 r) cs" "m' = foldl (manager_step A S) m ds"
  shows "(if mManager m then service_reported S (mSensors m) \<and> mSensors m' = mSensors m else mSensors m = []) \<and>
    (case fst (getDefaultSensor S type m) of
       None \<Rightarrow> True
     | Some i \<Rightarrow> i < length (mSensors (snd (getDefaultSensor S type m))))"
proof -
  have inv: "hidl_ok S \<and> manager_ok S m" unfolding assms(2) by (rule mgr.reach_inv) (use assms(1) in blast)
  have "mManager m' \<and> mSensors m' = mSensors m" if "mManager m"
    unfolding assms(3) using inv that
  proof (induction ds arbitrary: m)
    case (Cons d ds)
    then show ?case using manager_step_spec [of S m A d] by simp
  qed simp
  moreover have "i < length (mSensors (snd (getDefaultSensor S type m)))" if "fst (getDefaultSensor S type m) = Some i" for i
    using that by (auto simp: getDefaultSensor_def Let_def split: bool.splits prod.splits if_splits dest: find_handle_Some)
  ultimately show ?thesis using inv by (auto simp: manager_ok_def split: option.splits)
qed

text \<open>
  Sampling periods are never truncated: \<open>setEventRate\<close> either refuses the request without
  calling the service, or passes a period in whole microseconds that is not negative, fits
  32 bits and is the requested one rounded down.
\<close>

theorem gps_event_rate_exact:
  assumes "fits_s64 ns"
  shows "setEventRate A S sensor ns q r =
    (case (sensor, mRemote q) of
       (Some s, Some remote) \<Rightarrow>
         if 0 \<le> ns \<and> ns < 2147483648000
         then map_prod (status A) id (svc_enableSensor S remote (getHandle s) (ns div 1000) 0 r) else (BAD_VALUE A, r)
     | _ \<Rightarrow> (BAD_VALUE A, r))"
proof -
  have "to_s32 (ns div 1000) = ns div 1000" if "0 \<le> ns" "ns div 1000 \<le> 2147483647"
  proof -
    have "0 \<le> ns div 1000" using that by simp
    then show ?thesis using that by (simp add: to_s32_def signed_of_int signed_take_bit_int_eq_self)
  qed
  moreover have "0 \<le> ns \<Longrightarrow> cdiv ns 1000 = ns div 1000" by (cases "ns = 0") (simp_all add: cdiv_def)
  moreover have "ns div 1000 \<le> 2147483647 \<longleftrightarrow> ns < 2147483648000" by linarith
  ultimately show ?thesis
    by (auto simp: setEventRate_def Let_def map_prod_def split: option.splits prod.splits)
qed

section \<open>Instances\<close>

definition demo_sensor :: sensor_info where
  "demo_sensor = \<lparr>sensorHandle = 1, sensorType = 1, name = ''acc'', vendor = ''m86'', maxRange = 0, resolution = 0, powerUsage = 0, minDelay = 10000\<rparr>"

definition demo_service :: "nat service" where
  "demo_service = \<lparr>getService = (\<lambda>r. (0 < r, r + 1)), svc_getSensorList = (\<lambda>r. (Some ([demo_sensor], FS_OK), True, r)),
     svc_getDefaultSensor = (\<lambda>t r. (Some (demo_sensor, FS_OK), True, r)), svc_createEventQueue = (\<lambda>r. (None, False, r)),
     svc_enableSensor = (\<lambda>q h p l r. (Some FS_OK, r)), svc_disableSensor = (\<lambda>q h r. (None, r))\<rparr>"

definition demo_manager :: "nat sensor_manager" where
  "demo_manager = foldl (manager_step android demo_service) (manager0 0) [GetSensorList True, GetSensorList True]"

theorem gps_sensor_list_stable_witness:
  "mSensors demo_manager = [demo_sensor] \<and>
   mSensors (foldl (manager_step android demo_service) demo_manager [GetDefaultSensor 1]) = [demo_sensor]"
proof -
  have h: "hidl_ok demo_service" by (simp add: hidl_ok_def demo_service_def)
  have c: "mManager demo_manager" "mSensors demo_manager = [demo_sensor]"
    by (simp_all add: demo_manager_def manager_step_def getSensorList_def connect_def manager0_def demo_service_def Let_def)
  from gps_sensor_list_stable [OF h demo_manager_def refl] c show ?thesis by (simp del: foldl.simps)
qed

theorem gps_event_rate_exact_witness:
  "setEventRate android demo_service (Some demo_sensor) 20000999 (SensorEventQueue_construct 5 []\<lparr>mRemote := Some 1\<rparr> :: unit event_queue) 7 =
     map_prod (status android) id (svc_enableSensor demo_service 1 1 20000 0 7)"
  using gps_event_rate_exact [of 20000999 android demo_service "Some demo_sensor" "SensorEventQueue_construct 5 []\<lparr>mRemote := Some 1\<rparr> :: unit event_queue" 7]
  by (simp add: fits_s64_def SensorEventQueue_construct_def getHandle_def demo_sensor_def)

end
