(* ===== verification/Gps_Probe.thy ===== *)
theory Gps_Probe
  imports Gps_Manager
begin

text \<open>
  The sensor probe that \<^verbatim>\<open>gps/vendor/GpsVendor.cpp\<close> builds under \<^verbatim>\<open>M86_GPS_SENSOR_PROBE_MAIN\<close>:
  a client of the sensor manager and of the event queue that asks for one fresh sample. The
  clocks, the outcome of \<^verbatim>\<open>poll\<close> and the arrival of events are the environment: one record per
  round of the waiting loop, and a function from rounds to records, since nothing bounds
  the number of rounds in advance. The loop is therefore a partial function, and that it
  ends is a theorem. A trace keeps the calls and the printed lines in order. The C++ code computes times
  in \<^verbatim>\<open>int64_t\<close>, whose overflow is undefined; they are integers here.
\<close>

section \<open>Data\<close>

text \<open>The members of \<^verbatim>\<open>ASensorEvent\<close> the probe reads; the float \<^verbatim>\<open>data[0]\<close> as its 32 bits.\<close>

record asensor_event =
  ev_sensor :: int
  ev_type :: int
  ev_timestamp :: int
  ev_data0 :: u32

text \<open>
  One round: the reading of the monotonic clock, the events that arrive until \<^verbatim>\<open>poll\<close> returns,
  its error, the events that arrive until the queue is read, and the readings (seconds,
  nanoseconds) of the boot clock for the events in turn, \<^verbatim>\<open>None\<close> where the call fails.
\<close>

record 'h poll_round =
  mono_now :: int
  arrived :: "'h list"
  poll_error :: "errno option"
  arrived_late :: "'h list"
  boot_now :: "nat \<Rightarrow> (int \<times> int) option"

record 'h probe_env =
  convert :: "'h \<Rightarrow> asensor_event"
  outside_int :: "int \<Rightarrow> int"
  new_eventfd :: int
  eventfd_script :: "errno option list"
  mono_start :: int
  rounds :: "nat \<Rightarrow> 'h poll_round"

datatype probe_action =
    ListFailed int | SensorUnavailable | QueueFailed
  | Enabled int | RateSet int | Polled int | EventLine asensor_event int
  | Disabled int | Summary int int string int int bool | ClosedFd int

record probe_state =
  p_queue :: "asensor_event event_queue"
  received :: int
  valid :: bool
  actions :: "probe_action list"

datatype control = Next | Break | Return int

section \<open>The program\<close>

definition requestedType :: "aosp \<Rightarrow> (int \<Rightarrow> int) \<Rightarrow> string list \<Rightarrow> int" where
  "requestedType A outside argv = (if length argv > 1 then atoi outside (argv ! 1) else ASENSOR_TYPE_ACCELEROMETER A)"

definition is_sample :: "int \<Rightarrow> int \<Rightarrow> int \<Rightarrow> asensor_event \<Rightarrow> bool" where
  "is_sample handle ty boot e \<longleftrightarrow> ev_sensor e = handle \<and> ev_timestamp e > 0 \<and> ev_type e = ty \<and>
     ev_timestamp e \<le> boot + 1000000 \<and> ev_timestamp e \<ge> boot - 1000000000"

text \<open>The loop over the events just read, from the index \<open>i\<close> on.\<close>

fun check_events :: "int \<Rightarrow> int \<Rightarrow> (nat \<Rightarrow> (int \<times> int) option) \<Rightarrow> nat \<Rightarrow> asensor_event list \<Rightarrow> probe_state \<Rightarrow> control \<times> probe_state" where
  "check_events handle ty clock i [] s = (Next, s)"
| "check_events handle ty clock i (e # es) s =
     (case clock i of
        None \<Rightarrow> (Return 7, s)
      | Some (tv_sec, tv_nsec) \<Rightarrow>
          (let boot = tv_sec * 1000000000 + tv_nsec;
               s1 = s\<lparr>actions := actions s @ [EventLine e boot]\<rparr>
           in check_events handle ty clock (Suc i) es (if is_sample handle ty boot e then s1\<lparr>valid := True\<rparr> else s1)))"

text \<open>The body of the waiting loop.\<close>

definition probe_round :: "aosp \<Rightarrow> ('h \<Rightarrow> asensor_event) \<Rightarrow> int \<Rightarrow> int \<Rightarrow> int \<Rightarrow> 'h poll_round \<Rightarrow> probe_state \<Rightarrow> control \<times> probe_state" where
  "probe_round A conv handle ty deadline R s =
     (let remaining = deadline - mono_now R
      in if remaining \<le> 0 then (Break, s)
         else let timeout = to_s32 (cdiv (remaining + 999999) 1000000);
                  q1 = fold (enqueue conv) (arrived R) (p_queue s);
                  s1 = s\<lparr>p_queue := q1, actions := actions s @ [Polled timeout]\<rparr>
              in case poll_error R of
                   Some e \<Rightarrow> if e = EINTR then (Next, s1) else (Break, s1)
                 | None \<Rightarrow>
                     if efd_count q1 = 0 then (Break, s1)
                     else let (count, events, q2) = queue_read A True 64 (fold (enqueue conv) (arrived_late R) q1);
                              s2 = s1\<lparr>p_queue := q2\<rparr>
                          in if count < 0 then (Break, s2)
                             else check_events handle ty (boot_now R) 0 events (s2\<lparr>received := received s2 + count\<rparr>))"

partial_function (option) probe_loop :: "aosp \<Rightarrow> ('h \<Rightarrow> asensor_event) \<Rightarrow> int \<Rightarrow> int \<Rightarrow> int \<Rightarrow> (nat \<Rightarrow> 'h poll_round) \<Rightarrow> nat \<Rightarrow> probe_state \<Rightarrow>
    (int option \<times> probe_state) option" where
  "probe_loop A conv handle ty deadline rs k s =
     (if valid s then Some (None, s)
      else case probe_round A conv handle ty deadline (rs k) s of
        (Next, s1) \<Rightarrow> probe_loop A conv handle ty deadline rs (Suc k) s1
      | (Break, s1) \<Rightarrow> Some (None, s1)
      | (Return c, s1) \<Rightarrow> Some (Some c, s1))"

text \<open>What the program does behind the loop.\<close>

definition probe_finish :: "aosp \<Rightarrow> 'r service \<Rightarrow> int \<Rightarrow> sensor_info \<Rightarrow> probe_state \<Rightarrow> 'r \<Rightarrow> int \<times> probe_action list \<times> 'r" where
  "probe_finish A S count sensor s r =
     (let (disabled, r1) = disableSensor A S (Some sensor) (p_queue s) r
      in (if valid s \<and> disabled = OK A then 0 else 6,
          actions s @ [Disabled disabled, Summary count (getHandle sensor) (getName sensor) (received s) disabled (valid s)], r1))"

text \<open>From the creation of the queue on; \<open>r\<close> is the state of the service.\<close>

definition probe_queue :: "aosp \<Rightarrow> 'r service \<Rightarrow> 'h probe_env \<Rightarrow> int \<Rightarrow> int \<Rightarrow> sensor_info \<Rightarrow> asensor_event event_queue \<Rightarrow> 'r \<Rightarrow>
    (int \<times> probe_action list \<times> 'r) option" where
  "probe_queue A S E ty count sensor q r =
     (let (enabled, r1) = enableSensor A S (Some sensor) q r
      in if enabled \<noteq> OK A then Some (4, [Enabled enabled], r1)
         else let (rate, r2) = setEventRate A S (Some sensor) 20000000 q r1
              in if rate \<noteq> OK A
                 then let (disabled, r3) = disableSensor A S (Some sensor) q r2
                      in Some (5, [Enabled enabled, RateSet rate, Disabled disabled], r3)
                 else case probe_loop A (convert E) (getHandle sensor) ty (mono_start E + 5000000000) (rounds E) 0
                        \<lparr>p_queue = q, received = 0, valid = False, actions = [Enabled enabled, RateSet rate]\<rparr> of
                    None \<Rightarrow> None
                  | Some (Some c, s) \<Rightarrow> Some (c, actions s, r2)
                  | Some (None, s) \<Rightarrow> Some (probe_finish A S count sensor s r2))"

text \<open>The program, on the static manager \<open>m\<close> of the process. The queue dies with \<^verbatim>\<open>main\<close>.\<close>

definition probe_main :: "aosp \<Rightarrow> 'r service \<Rightarrow> 'h probe_env \<Rightarrow> string list \<Rightarrow> 'r sensor_manager \<Rightarrow>
    (int \<times> probe_action list \<times> 'r sensor_manager) option" where
  "probe_main A S E argv m =
     (let ty = requestedType A (outside_int E) argv;
          (count, sensors, m1) = getSensorList A S True (getInstanceForPackage m)
      in if count \<le> 0 then Some (1, [ListFailed count], m1)
         else case getDefaultSensor S ty m1 of
           (None, m2) \<Rightarrow> Some (2, [SensorUnavailable], m2)
         | (Some i, m2) \<Rightarrow>
             (case createEventQueue S 0 (new_eventfd E) (eventfd_script E) m2 of
                (None, closed, m3) \<Rightarrow> Some (3, map ClosedFd closed @ [QueueFailed], m3)
              | (Some q, closed, m3) \<Rightarrow>
                  (case probe_queue A S E ty count (mSensors m3 ! i) q (remote_state m3) of
                     None \<Rightarrow> None
                   | Some (c, tr, r) \<Rightarrow> Some (c, tr @ map ClosedFd (SensorEventQueue_destroy q), m3\<lparr>remote_state := r\<rparr>))))"

section \<open>Specification\<close>

text \<open>The events the service delivered, converted, and the documented monotonicity of the clock.\<close>

definition events_delivered :: "'h probe_env \<Rightarrow> asensor_event set" where
  "events_delivered E = {convert E h | h n. h \<in> set (arrived (rounds E n)) \<union> set (arrived_late (rounds E n))}"

definition clock_ok :: "'h probe_env \<Rightarrow> bool" where
  "clock_ok E \<longleftrightarrow> (\<forall>n. mono_start E \<le> mono_now (rounds E n))"

text \<open>What may happen while the probe waits: polls of at most five seconds and delivered events.\<close>

fun waiting_action :: "'h probe_env \<Rightarrow> probe_action \<Rightarrow> bool" where
  "waiting_action E (Polled ms) \<longleftrightarrow> 1 \<le> ms \<and> ms \<le> 5000"
| "waiting_action E (EventLine e boot) \<longleftrightarrow> e \<in> events_delivered E"
| "waiting_action E _ \<longleftrightarrow> False"

fun is_line :: "probe_action \<Rightarrow> bool" where
  "is_line (EventLine e boot) \<longleftrightarrow> True"
| "is_line _ \<longleftrightarrow> False"

definition sampled :: "int \<Rightarrow> int \<Rightarrow> probe_action list \<Rightarrow> bool" where
  "sampled handle ty tr \<longleftrightarrow> (\<exists>e boot. EventLine e boot \<in> set tr \<and> is_sample handle ty boot e)"

definition closes_queue :: "'h probe_env \<Rightarrow> probe_action list" where
  "closes_queue E = (if 0 \<le> new_eventfd E then [ClosedFd (new_eventfd E)] else [])"

text \<open>The exit codes, each with the course of the program that leads to it; \<open>L\<close> are the sensors of the manager.\<close>

inductive probe_spec :: "aosp \<Rightarrow> 'h probe_env \<Rightarrow> int \<Rightarrow> sensor_info list \<Rightarrow> int \<Rightarrow> probe_action list \<Rightarrow> bool"
  for A E ty L where
  no_list: "count \<le> 0 \<Longrightarrow> probe_spec A E ty L 1 [ListFailed count]"
| no_sensor: "probe_spec A E ty L 2 [SensorUnavailable]"
| no_queue: "probe_spec A E ty L 3 (closes_queue E @ [QueueFailed])"
| not_enabled: "st \<noteq> OK A \<Longrightarrow> probe_spec A E ty L 4 (Enabled st # closes_queue E)"
| no_rate: "st \<noteq> OK A \<Longrightarrow> probe_spec A E ty L 5 ([Enabled (OK A), RateSet st, Disabled d] @ closes_queue E)"
| clock_failed: "boot_now (rounds E n) i = None \<Longrightarrow> list_all (waiting_action E) mid \<Longrightarrow>
    probe_spec A E ty L 7 ([Enabled (OK A), RateSet (OK A)] @ mid @ closes_queue E)"
| finished: "sensor \<in> set L \<Longrightarrow> list_all (waiting_action E) mid \<Longrightarrow> v = sampled (getHandle sensor) ty mid \<Longrightarrow>
    c = (if v \<and> d = OK A then 0 else 6) \<Longrightarrow> n = int (length (filter is_line mid)) \<Longrightarrow>
    probe_spec A E ty L c ([Enabled (OK A), RateSet (OK A)] @ mid @
      [Disabled d, Summary (int (length L)) (getHandle sensor) (getName sensor) n d v] @ closes_queue E)"

inductive_cases probe_success: "probe_spec A E ty L 0 tr"

section \<open>Lemmas\<close>

lemma sampled_append [simp]: "sampled h ty (xs @ ys) \<longleftrightarrow> sampled h ty xs \<or> sampled h ty ys"
  by (auto simp: sampled_def)

lemma sampled_simps [simp]:
  "\<not> sampled h ty []" "sampled h ty (EventLine e boot # xs) \<longleftrightarrow> is_sample h ty boot e \<or> sampled h ty xs"
  "sampled h ty (Polled ms # xs) = sampled h ty xs"
  by (auto simp: sampled_def)

text \<open>The progress of the loop from a state whose trace is \<open>pre\<close>.\<close>

definition waits :: "'h probe_env \<Rightarrow> int \<Rightarrow> int \<Rightarrow> probe_action list \<Rightarrow> probe_state \<Rightarrow> bool" where
  "waits E h ty pre s \<longleftrightarrow> set (mEvents (p_queue s)) \<subseteq> events_delivered E \<and> length (mEvents (p_queue s)) \<le> kMaxEvents \<and>
     (\<exists>mid. actions s = pre @ mid \<and> list_all (waiting_action E) mid \<and> valid s = sampled h ty mid \<and>
        received s = int (length (filter is_line mid)))"

lemma check_events_spec:
  assumes "check_events h ty clock i es s = (c, s')"
  shows "\<exists>n mid. p_queue s' = p_queue s \<and> received s' = received s \<and> actions s' = actions s @ mid \<and>
    (valid s' \<longleftrightarrow> valid s \<or> sampled h ty mid) \<and> (\<forall>a \<in> set mid. \<exists>e boot. a = EventLine e boot \<and> e \<in> set es) \<and>
    (if c = Next then length mid = length es else c = Return 7 \<and> clock n = None)"
  using assms
proof (induction es arbitrary: i s)
  case Nil
  then show ?case by (intro exI [of _ 0] exI [of _ "[]"]) simp
next
  case (Cons e es)
  show ?case
  proof (cases "clock i")
    case None
    with Cons.prems show ?thesis by (intro exI [of _ i] exI [of _ "[]"]) auto
  next
    case (Some ts)
    obtain sec nsec where ts: "ts = (sec, nsec)" by fastforce
    define boot where "boot = sec * 1000000000 + nsec"
    let ?s = "s\<lparr>actions := actions s @ [EventLine e boot]\<rparr>"
    let ?s1 = "if is_sample h ty boot e then ?s\<lparr>valid := True\<rparr> else ?s"
    have "check_events h ty clock (Suc i) es ?s1 = (c, s')"
      using Cons.prems Some ts by (auto simp: boot_def Let_def split: if_splits)
    from Cons.IH [OF this] obtain n mid where mid: "p_queue s' = p_queue ?s1 \<and> received s' = received ?s1 \<and> actions s' = actions ?s1 @ mid \<and>
      (valid s' \<longleftrightarrow> valid ?s1 \<or> sampled h ty mid) \<and> (\<forall>a \<in> set mid. \<exists>e boot. a = EventLine e boot \<and> e \<in> set es) \<and>
      (if c = Next then length mid = length es else c = Return 7 \<and> clock n = None)" by blast
    then show ?thesis
      by (intro exI [of _ n] exI [of _ "EventLine e boot # mid"]) (auto split: if_splits)
  qed
qed

lemma enqueue_all:
  assumes "length (mEvents q) \<le> kMaxEvents" "set (mEvents q) \<subseteq> D" "conv ` set hs \<subseteq> D"
  shows "set (mEvents (fold (enqueue conv) hs q)) \<subseteq> D \<and> length (mEvents (fold (enqueue conv) hs q)) \<le> kMaxEvents"
  using assms
proof (induction hs arbitrary: q)
  case (Cons h hs)
  have it: "mEvents (enqueue conv h q) = last_n kMaxEvents (mEvents q @ [conv h])" using Cons.prems(1) by (rule enqueue_items)
  then have "set (mEvents (enqueue conv h q)) \<subseteq> set (mEvents q @ [conv h])"
    using set_mono_suffix [OF suffix_last_n] by (simp only:)
  with Cons.prems have "set (mEvents (enqueue conv h q)) \<subseteq> D" by auto
  with Cons.IH [of "enqueue conv h q"] Cons.prems(3) it show ?case by simp
qed simp

lemma queue_read_64:
  "queue_read A True 64 q = (count, es, q') \<Longrightarrow> es = take 64 (mEvents q) \<and> mEvents q' = drop 64 (mEvents q) \<and> (0 \<le> count \<longrightarrow> count = int (length es))"
  using queue_read_items [of 64 A q]
  by (auto simp: queue_read_def Let_def take_events_eq split: prod.splits if_splits)

lemma poll_timeout:
  assumes "0 < remaining" "remaining \<le> 5000000000"
  shows "1 \<le> to_s32 (cdiv (remaining + 999999) 1000000) \<and> to_s32 (cdiv (remaining + 999999) 1000000) \<le> 5000"
proof -
  let ?t = "(remaining + 999999) div 1000000"
  have c: "cdiv (remaining + 999999) 1000000 = ?t" using assms by (simp add: cdiv_def)
  have "1 \<le> ?t" "?t \<le> 5000" using assms by linarith+
  moreover from this have "to_s32 ?t = ?t" by (simp add: to_s32_def signed_of_int signed_take_bit_int_eq_self)
  ultimately show ?thesis unfolding c by simp
qed

text \<open>One round keeps the progress and never ends the program, unless a clock reading fails.\<close>

lemma probe_round_waits:
  assumes clk: "clock_ok E" and w: "waits E h ty pre s" and nv: "\<not> valid s"
    and r: "probe_round A (convert E) h ty (mono_start E + 5000000000) (rounds E n) s = (c, s')"
  shows "if \<exists>x. c = Return x then c = Return 7 \<and> (\<exists>i. boot_now (rounds E n) i = None) \<and>
      (\<exists>mid. actions s' = pre @ mid \<and> list_all (waiting_action E) mid) else waits E h ty pre s'"
proof (cases "mono_start E + 5000000000 - mono_now (rounds E n) \<le> 0")
  case True
  with r w show ?thesis by (auto simp: probe_round_def)
next
  case False
  let ?R = "rounds E n" and ?rem = "mono_start E + 5000000000 - mono_now (rounds E n)"
  let ?ms = "to_s32 (cdiv (?rem + 999999) 1000000)" and ?q1 = "fold (enqueue (convert E)) (arrived (rounds E n)) (p_queue s)"
  let ?s1 = "s\<lparr>p_queue := ?q1, actions := actions s @ [Polled ?ms]\<rparr>"
  have ms: "waiting_action E (Polled ?ms)" using poll_timeout [of ?rem] False clk by (auto simp: clock_ok_def)
  have d: "convert E ` set (arrived ?R) \<subseteq> events_delivered E" "convert E ` set (arrived_late ?R) \<subseteq> events_delivered E"
    by (auto simp: events_delivered_def)
  have q1: "set (mEvents ?q1) \<subseteq> events_delivered E" "length (mEvents ?q1) \<le> kMaxEvents"
    using enqueue_all [OF _ _ d(1), of "p_queue s"] w by (simp_all add: waits_def)
  obtain mid where mid: "actions s = pre @ mid" "list_all (waiting_action E) mid" "\<not> sampled h ty mid"
    "received s = int (length (filter is_line mid))" using w nv by (auto simp: waits_def)
  have s1: "waits E h ty pre ?s1" unfolding waits_def
    using q1 mid ms nv by (intro conjI exI [of _ "mid @ [Polled ?ms]"]) simp_all
  show ?thesis
  proof (cases "poll_error ?R \<noteq> None \<or> efd_count ?q1 = 0")
    case True
    with r False s1 show ?thesis by (auto simp: probe_round_def Let_def split: option.splits if_splits)
  next
    case ready: False
    let ?q2 = "fold (enqueue (convert E)) (arrived_late ?R) ?q1"
    have q2: "set (mEvents ?q2) \<subseteq> events_delivered E" "length (mEvents ?q2) \<le> kMaxEvents"
      using enqueue_all [OF q1(2,1) d(2)] by simp_all
    obtain count es q3 where rd: "queue_read A True 64 ?q2 = (count, es, q3)" by (metis prod_cases3)
    note rd' = queue_read_64 [OF rd]
    have q3: "set es \<subseteq> events_delivered E" "set (mEvents q3) \<subseteq> events_delivered E" "length (mEvents q3) \<le> kMaxEvents"
      using rd' q2 set_take_subset set_drop_subset by fastforce+
    show ?thesis
    proof (cases "count < 0")
      case True
      with r False ready rd s1 q3 show ?thesis by (auto simp: probe_round_def Let_def waits_def split: option.splits)
    next
      case nonneg: False
      let ?s2 = "?s1\<lparr>p_queue := q3, received := received s + count\<rparr>"
      have ce: "check_events h ty (boot_now ?R) 0 es ?s2 = (c, s')"
        using r False ready rd nonneg by (auto simp: probe_round_def Let_def)
      from check_events_spec [OF ce] obtain i lines where
        l: "p_queue s' = q3" "received s' = received s + count" "actions s' = pre @ mid @ Polled ?ms # lines"
          "valid s' \<longleftrightarrow> sampled h ty lines" "\<forall>a \<in> set lines. \<exists>e boot. a = EventLine e boot \<and> e \<in> set es"
          "if c = Next then length lines = length es else c = Return 7 \<and> boot_now ?R i = None"
        using mid(1) nv by auto
      have wl: "list_all (waiting_action E) lines" "filter is_line lines = lines"
        using l(5) q3(1) by (fastforce simp: list_all_iff filter_id_conv)+
      show ?thesis
      proof (cases "c = Next")
        case True
        with l wl mid ms q3 rd' nonneg show ?thesis
          unfolding waits_def by (auto intro!: exI [of _ "mid @ Polled ?ms # lines"])
      next
        case False
        with l wl mid ms show ?thesis by (auto intro!: exI [of _ "mid @ Polled ?ms # lines"])
      qed
    qed
  qed
qed

lemma probe_loop_waits:
  assumes "probe_loop A conv h ty deadline rs k s = Some (r, s')"
    and "clock_ok E" "waits E h ty pre s" "conv = convert E" "rs = rounds E" "deadline = mono_start E + 5000000000"
  shows "case r of None \<Rightarrow> waits E h ty pre s'
    | Some c \<Rightarrow> c = 7 \<and> (\<exists>n i. boot_now (rounds E n) i = None) \<and> (\<exists>mid. actions s' = pre @ mid \<and> list_all (waiting_action E) mid)"
  using assms
proof (induction A conv h ty deadline rs k s "(r, s')" rule: probe_loop.raw_induct [rotated 1, consumes 1, case_names step])
  case (step loop A conv h ty deadline rs k s)
  show ?case
  proof (cases "valid s")
    case True
    with step.hyps(2) step.prems show ?thesis by auto
  next
    case False
    obtain c s1 where rd: "probe_round A conv h ty deadline (rs k) s = (c, s1)" by fastforce
    note pr = probe_round_waits [OF step.prems(1,2) False rd [unfolded step.prems(3-5)]]
    show ?thesis
    proof (cases c)
      case Next
      with step.hyps(2) rd False pr step.prems step.hyps(1) show ?thesis by auto
    qed (use step.hyps(2) rd False pr in auto, blast)
  qed
qed

text \<open>The loop ends at the latest when the clock reaches the deadline.\<close>

lemma probe_loop_ends:
  assumes "k \<le> n" "deadline \<le> mono_now (rs n)"
  shows "\<exists>y. probe_loop A conv h ty deadline rs k s = Some y"
  using assms(1)
proof (induction "n - k" arbitrary: k s)
  case 0
  with assms(2) show ?case by (subst probe_loop.simps) (simp add: probe_round_def)
next
  case (Suc j)
  then have "\<exists>y. probe_loop A conv h ty deadline rs (Suc k) s1 = Some y" for s1 by simp
  then show ?case by (subst probe_loop.simps) (simp split: control.splits prod.splits)
qed

lemma probe_queue_refines:
  assumes "probe_queue A S E ty (int (length L)) sensor q r = Some (c, tr, r')"
    and "clock_ok E" "sensor \<in> set L" "mEvents q = []"
  shows "probe_spec A E ty L c (tr @ closes_queue E)"
proof -
  obtain en r1 where en: "enableSensor A S (Some sensor) q r = (en, r1)" by fastforce
  show ?thesis
  proof (cases "en = OK A")
    case False
    with assms(1) en show ?thesis by (auto simp: probe_queue_def intro: not_enabled)
  next
    case e: True
    obtain ra r2 where ra: "setEventRate A S (Some sensor) 20000000 q r1 = (ra, r2)" by fastforce
    show ?thesis
    proof (cases "ra = OK A")
      case False
      with assms(1) en e ra no_rate [OF False, of E ty L] show ?thesis by (auto simp: probe_queue_def split: prod.splits)
    next
      case True
      let ?pre = "[Enabled (OK A), RateSet (OK A)]"
      let ?s0 = "\<lparr>p_queue = q, received = 0, valid = False, actions = ?pre\<rparr>"
      obtain res s where l: "probe_loop A (convert E) (getHandle sensor) ty (mono_start E + 5000000000) (rounds E) 0 ?s0 = Some (res, s)"
        using assms(1) en e ra True by (auto simp: probe_queue_def split: option.splits)
      have w0: "waits E (getHandle sensor) ty ?pre ?s0" by (simp add: waits_def assms(4))
      note w = probe_loop_waits [OF l assms(2) w0 refl refl refl]
      show ?thesis
      proof (cases res)
        case (Some x)
        with w obtain n i mid where "x = 7" "boot_now (rounds E n) i = None" "actions s = ?pre @ mid" "list_all (waiting_action E) mid" by auto
        moreover from this assms(1) en e ra True l Some have "c = 7" "tr = ?pre @ mid" by (auto simp: probe_queue_def)
        ultimately show ?thesis using clock_failed [of E n i mid A ty L] by simp
      next
        case None
        with w obtain mid where m: "actions s = ?pre @ mid" "list_all (waiting_action E) mid" "valid s = sampled (getHandle sensor) ty mid"
          "received s = int (length (filter is_line mid))" by (auto simp: waits_def)
        obtain d r3 where d: "disableSensor A S (Some sensor) (p_queue s) r2 = (d, r3)" by fastforce
        from finished [OF assms(3) m(2,3) refl m(4), of A d] assms(1) en e ra True l None d m(1) show ?thesis
          by (auto simp: probe_queue_def probe_finish_def Let_def)
      qed
    qed
  qed
qed

lemma connected_stays: "mManager m \<Longrightarrow> connect S m = (True, m)"
  by (simp add: connect_def)

lemma getSensorList_connects:
  "getSensorList A S True m = (count, l, m') \<Longrightarrow> 0 < count \<Longrightarrow> platform_ok A \<Longrightarrow> mManager m' \<and> count = int (length (mSensors m'))"
  by (auto simp: getSensorList_def connect_def Let_def dest: platform_signs(6)
      split: if_splits prod.splits bool.splits option.splits fs_result.splits)

lemma getDefaultSensor_connected:
  assumes "mManager m" "getDefaultSensor S ty m = (i, m')"
  shows "mManager m' \<and> mSensors m' = mSensors m \<and> (case i of None \<Rightarrow> True | Some j \<Rightarrow> j < length (mSensors m))"
  using assms by (auto simp: getDefaultSensor_def connected_stays Let_def split: prod.splits if_splits option.splits dest: find_handle_Some)

lemma createEventQueue_connected:
  assumes "mManager m" "createEventQueue S 0 (new_eventfd E) fs m = (q, closed, m')"
  shows "mSensors m' = mSensors m \<and> (case q of None \<Rightarrow> map ClosedFd closed = closes_queue E
    | Some x \<Rightarrow> mEvents x = [] \<and> map ClosedFd (SensorEventQueue_destroy x) = closes_queue E)"
  using assms by (auto simp: createEventQueue_def connected_stays initialize_def SensorEventQueue_construct_def SensorEventQueue_destroy_def
      closes_queue_def Let_def split: prod.splits if_splits option.splits fs_result.splits)

lemma probe_main_refines:
  assumes "platform_ok A" "clock_ok E" "probe_main A S E argv m = Some (c, tr, m')"
  shows "probe_spec A E (requestedType A (outside_int E) argv) (mSensors m') c tr"
proof -
  let ?ty = "requestedType A (outside_int E) argv"
  obtain count l m1 where l: "getSensorList A S True (getInstanceForPackage m) = (count, l, m1)" by (metis prod_cases3)
  show ?thesis
  proof (cases "count \<le> 0")
    case True
    with assms(3) l show ?thesis by (auto simp: probe_main_def intro: no_list)
  next
    case False
    with getSensorList_connects [OF l _ assms(1)] have m1: "mManager m1" "count = int (length (mSensors m1))" by auto
    obtain i m2 where d: "getDefaultSensor S ?ty m1 = (i, m2)" by fastforce
    note m2 = getDefaultSensor_connected [OF m1(1) d]
    show ?thesis
    proof (cases i)
      case None
      with assms(3) l False d show ?thesis by (auto simp: probe_main_def intro: no_sensor)
    next
      case (Some j)
      obtain q :: "asensor_event event_queue option" and cl m3 where
        q: "createEventQueue S 0 (new_eventfd E) (eventfd_script E) m2 = (q, cl, m3)" by (metis prod_cases3)
      note m3 = createEventQueue_connected [OF conjunct1 [OF m2] q]
      show ?thesis
      proof (cases q)
        case None
        with assms(3) l False d Some q m3 no_queue [of A E ?ty "mSensors m3"] show ?thesis by (auto simp: probe_main_def)
      next
        case q': (Some x)
        with assms(3) l False d Some q obtain tr0 r where
          p: "probe_queue A S E ?ty count (mSensors m3 ! j) x (remote_state m3) = Some (c, tr0, r)"
          and tr: "tr = tr0 @ map ClosedFd (SensorEventQueue_destroy x)" "m' = m3\<lparr>remote_state := r\<rparr>"
          by (auto simp: probe_main_def split: option.splits)
        from m1(2) m2 m3 Some have n: "count = int (length (mSensors m3))" and "mSensors m3 ! j \<in> set (mSensors m3)" by auto
        with probe_queue_refines [OF p [unfolded n] assms(2)] m3 q' tr show ?thesis by simp
      qed
    qed
  qed
qed

section \<open>Properties\<close>

text \<open>
  C31: The exit code of the sensor probe tells what happened: every run takes one of the courses of
  the specification. In particular the sensor that was enabled is disabled again, unless reading
  the boot clock failed; the eventfd is closed exactly once; every wait is between
  1 and 5000 milliseconds; every event reported was delivered by the service; and the code is 0
  exactly when one of them was a fresh sample of the requested sensor and disabling it succeeded.
\<close>

theorem gps_probe_refines:
  assumes "platform_ok A" "clock_ok E" "probe_main A S E argv m = Some (c, tr, m')"
  shows "probe_spec A E (requestedType A (outside_int E) argv) (mSensors m') c tr"
  using assms by (rule probe_main_refines)

text \<open>
  C32: The probe always comes to an end: whatever the service answers, whatever events arrive and
  however often the wait is interrupted, it returns once the monotonic clock has
  advanced by five seconds.
\<close>

theorem gps_probe_returns:
  assumes "mono_start E + 5000000000 \<le> mono_now (rounds E n)"
  shows "\<exists>c tr m'. probe_main A S E argv m = Some (c, tr, m')"
proof -
  have l: "\<exists>y. probe_loop A (convert E) h ty (mono_start E + 5000000000) (rounds E) 0 s = Some y" for h ty s
    using assms by (intro probe_loop_ends [of 0 n]) simp_all
  have "\<exists>y. probe_queue A S E ty count sensor q r = Some y" for ty count sensor q r
    unfolding probe_queue_def Let_def
    using l [of "getHandle sensor" ty] by (auto split: prod.splits option.splits intro: prod_cases3) (metis option.distinct(1) prod_cases3)+
  then show ?thesis unfolding probe_main_def Let_def
    by (auto split: prod.splits option.splits) (metis option.distinct(1))+
qed

text \<open>
  What exit code 0 is worth: a sensor of the manager delivered, within the waiting time, a sample
  of the requested type stamped at most a second in the past, and was disabled successfully after it.
\<close>

theorem gps_probe_success:
  assumes "platform_ok A" "clock_ok E" "probe_main A S E argv m = Some (0, tr, m')"
  shows "\<exists>sensor \<in> set (mSensors m'). \<exists>e \<in> events_delivered E. \<exists>boot mid rest.
    is_sample (getHandle sensor) (requestedType A (outside_int E) argv) boot e \<and>
    tr = Enabled (OK A) # RateSet (OK A) # mid @ Disabled (OK A) # rest \<and> EventLine e boot \<in> set mid"
proof -
  let ?ty = "requestedType A (outside_int E) argv"
  from probe_main_refines [OF assms] obtain sensor mid n where s: "sensor \<in> set (mSensors m')" "list_all (waiting_action E) mid"
    "sampled (getHandle sensor) ?ty mid"
    and tr: "tr = Enabled (OK A) # RateSet (OK A) # mid @ Disabled (OK A) #
      [Summary (int (length (mSensors m'))) (getHandle sensor) (getName sensor) n (OK A) True] @ closes_queue E"
    by (rule probe_success) (auto split: if_splits)
  from s(3) obtain e boot where e: "EventLine e boot \<in> set mid" "is_sample (getHandle sensor) ?ty boot e"
    by (auto simp: sampled_def)
  with s(2) have "e \<in> events_delivered E" by (auto simp: list_all_iff)
  with s(1) e tr show ?thesis by blast
qed

section \<open>Instances\<close>

text \<open>A run that is interrupted once and then meets an event of another type and a sample.\<close>

definition probe_service :: "nat service" where
  "probe_service = demo_service\<lparr>getService := \<lambda>r. (True, r + 1), svc_createEventQueue := \<lambda>r. (Some (Some 9, FS_OK), True, r),
     svc_disableSensor := \<lambda>q h r. (Some FS_OK, r)\<rparr>"

definition probe_demo :: "asensor_event probe_env" where
  "probe_demo = \<lparr>convert = \<lambda>e. e, outside_int = \<lambda>v. 0, new_eventfd = 5, eventfd_script = [Some EINTR], mono_start = 1000,
     rounds = \<lambda>n. if n = 0
       then \<lparr>mono_now = 2000, arrived = [\<lparr>ev_sensor = 1, ev_type = 33, ev_timestamp = 0, ev_data0 = 0\<rparr>], poll_error = Some EINTR,
         arrived_late = [], boot_now = \<lambda>i. None\<rparr>
       else \<lparr>mono_now = 2000 + 3000000000 * int n, arrived = [],
         poll_error = None, arrived_late = [\<lparr>ev_sensor = 1, ev_type = 1, ev_timestamp = 7000000000, ev_data0 = 0\<rparr>],
         boot_now = \<lambda>i. Some (7, 500)\<rparr>\<rparr>"

lemma probe_demo_queue:
  "probe_queue android probe_service probe_demo 1 1 demo_sensor
     \<lparr>mFd = 5, mRemote = Some 9, mEvents = [], efd_count = 0, efd_script = [Some EINTR]\<rparr> r =
   Some (0, [Enabled 0, RateSet 0, Polled 5000, Polled 2000,
     EventLine \<lparr>ev_sensor = 1, ev_type = 33, ev_timestamp = 0, ev_data0 = 0\<rparr> 7000000500,
     EventLine \<lparr>ev_sensor = 1, ev_type = 1, ev_timestamp = 7000000000, ev_data0 = 0\<rparr> 7000000500,
     Disabled 0, Summary 1 1 ''acc'' 2 0 True], r)"
  by (simp add: probe_queue_def probe_finish_def probe_loop.simps probe_round_def probe_demo_def probe_service_def demo_service_def demo_sensor_def
      android_def enableSensor_def setEventRate_def disableSensor_def status_def getHandle_def getName_def enqueue_def queue_read_def
      kMaxEvents_def efd_max_def is_sample_def to_s32_def cdiv_def take_events_eq signed_of_int signed_take_bit_int_eq_self Let_def)

definition probe_demo_trace :: "probe_action list" where
  "probe_demo_trace = [Enabled 0, RateSet 0, Polled 5000, Polled 2000,
     EventLine \<lparr>ev_sensor = 1, ev_type = 33, ev_timestamp = 0, ev_data0 = 0\<rparr> 7000000500,
     EventLine \<lparr>ev_sensor = 1, ev_type = 1, ev_timestamp = 7000000000, ev_data0 = 0\<rparr> 7000000500,
     Disabled 0, Summary 1 1 ''acc'' 2 0 True, ClosedFd 5]"

lemma requestedType_demo: "requestedType android outside [''probe'', '' 1''] = 1"
  by (simp add: requestedType_def atoi_def scan_int_def is_space_def is_digit_def nat_of_dec_def fits_s32_def)

lemma probe_demo_run:
  "\<exists>m'. probe_main android probe_service probe_demo [''probe'', '' 1''] (manager0 0) = Some (0, probe_demo_trace, m') \<and> mSensors m' = [demo_sensor]"
proof -
  have e: "outside_int probe_demo = (\<lambda>v. 0)" "new_eventfd probe_demo = 5" "eventfd_script probe_demo = [Some EINTR]" by (simp_all add: probe_demo_def)
  show ?thesis using probe_demo_queue
    by (simp add: probe_main_def requestedType_demo e getSensorList_def getInstanceForPackage_def manager0_def connect_def
        getDefaultSensor_def createEventQueue_def initialize_def SensorEventQueue_construct_def SensorEventQueue_destroy_def probe_demo_trace_def
        getHandle_def probe_service_def demo_service_def demo_sensor_def Let_def)
qed

theorem gps_probe_refines_witness:
  "probe_spec android probe_demo 1 [demo_sensor] 0 probe_demo_trace"
proof -
  obtain m' where r: "probe_main android probe_service probe_demo [''probe'', '' 1''] (manager0 0) = Some (0, probe_demo_trace, m')"
    and l: "mSensors m' = [demo_sensor]" using probe_demo_run by blast
  have "clock_ok probe_demo" by (simp add: clock_ok_def probe_demo_def)
  from gps_probe_refines [OF android_ok this r] show ?thesis unfolding l requestedType_demo .
qed

theorem gps_probe_returns_witness:
  "\<exists>c tr m'. probe_main android demo_service probe_demo [] (manager0 0) = Some (c, tr, m')"
  by (rule gps_probe_returns [of _ 2]) (simp add: probe_demo_def)

end
