(* ===== verification/Vendor_Paths.thy ===== *)
theory Vendor_Paths
  imports M86_Prelude "HOL-Library.Sublist"
begin

text \<open>
  The preloaded library of \<^verbatim>\<open>independent/paths/VendorPaths.c\<close> that moves the legacy mount points
  \<^verbatim>\<open>/efs\<close> and \<^verbatim>\<open>/mnv\<close> of the modem services below \<^verbatim>\<open>/mnt/vendor\<close>. Each exported function
  looks up the next definition of its name and calls it with the translated path. The
  functions of libc are parameters, \<open>None\<close> when the lookup fails; they return a value, the
  error number they set, if any, and the new state of the system. A null path is \<open>None\<close>.
\<close>

section \<open>Translation\<close>

definition is_legacy :: "path \<Rightarrow> bool" where
  "is_legacy p \<longleftrightarrow> (take 4 p = ''/efs'' \<or> take 4 p = ''/mnv'') \<and> (length p = 4 \<or> p ! 4 = CHR ''/'')"

text \<open>The returned pointer, and the error number set on the way.\<close>

definition translate :: "path option \<Rightarrow> path option \<times> errno option" where
  "translate p = (case p of
     None \<Rightarrow> (None, None)
   | Some s \<Rightarrow>
       if is_legacy s
       then let out = ''/mnt/vendor'' @ s
            in if length out \<ge> PATH_MAX then (None, Some ENAMETOOLONG) else (Some out, None)
       else (Some s, None))"

section \<open>The exported functions\<close>

type_synonym ('r, 's) libc_result = "'r \<times> errno option \<times> 's"

text \<open>The frame all of them share: the lookup, the translation, the call.\<close>

definition path_call :: "'r \<Rightarrow> (path \<Rightarrow> 's \<Rightarrow> ('r, 's) libc_result) option \<Rightarrow> path option \<Rightarrow> 's \<Rightarrow> ('r, 's) libc_result" where
  "path_call failed real path s = (case real of
     None \<Rightarrow> (failed, Some ENOSYS, s)
   | Some f \<Rightarrow> (case translate path of
       (None, e) \<Rightarrow> (failed, if path = None then Some EFAULT else e, s)
     | (Some mapped, e) \<Rightarrow> f mapped s))"

text \<open>The flag values of Linux on ARM.\<close>

definition O_CREAT :: u32 where "O_CREAT = 0x40"
definition O_TMPFILE :: u32 where "O_TMPFILE = 0x404000"

definition needs_mode :: "u32 \<Rightarrow> bool" where
  "needs_mode flags \<longleftrightarrow> flags AND O_CREAT \<noteq> 0 \<or> flags AND O_TMPFILE = O_TMPFILE"

text \<open>\<open>mode_arg\<close> is the variadic argument; it is read only when the flags ask for it.\<close>

definition vp_open :: "(path \<Rightarrow> u32 \<Rightarrow> u32 \<Rightarrow> 's \<Rightarrow> (int, 's) libc_result) option \<Rightarrow> path option \<Rightarrow> u32 \<Rightarrow> u32 \<Rightarrow> 's \<Rightarrow> (int, 's) libc_result" where
  "vp_open real path flags mode_arg s =
     path_call (- 1) (map_option (\<lambda>f p. f p flags (if needs_mode flags then mode_arg else 0)) real) path s"

definition vp_open_2 :: "(path \<Rightarrow> u32 \<Rightarrow> u32 \<Rightarrow> 's \<Rightarrow> (int, 's) libc_result) option \<Rightarrow> path option \<Rightarrow> u32 \<Rightarrow> 's \<Rightarrow> (int, 's) libc_result" where
  "vp_open_2 real path flags s = (if needs_mode flags then (- 1, Some EINVAL, s) else vp_open real path flags 0 s)"

definition vp_fopen :: "(path \<Rightarrow> string \<Rightarrow> 's \<Rightarrow> (nat option, 's) libc_result) option \<Rightarrow> path option \<Rightarrow> string \<Rightarrow> 's \<Rightarrow> (nat option, 's) libc_result" where
  "vp_fopen real path mode s = path_call None (map_option (\<lambda>f p. f p mode) real) path s"

definition vp_access :: "(path \<Rightarrow> int \<Rightarrow> 's \<Rightarrow> (int, 's) libc_result) option \<Rightarrow> path option \<Rightarrow> int \<Rightarrow> 's \<Rightarrow> (int, 's) libc_result" where
  "vp_access real path mode s = path_call (- 1) (map_option (\<lambda>f p. f p mode) real) path s"

definition vp_chmod :: "(path \<Rightarrow> u32 \<Rightarrow> 's \<Rightarrow> (int, 's) libc_result) option \<Rightarrow> path option \<Rightarrow> u32 \<Rightarrow> 's \<Rightarrow> (int, 's) libc_result" where
  "vp_chmod real path mode s = path_call (- 1) (map_option (\<lambda>f p. f p mode) real) path s"

definition vp_chown :: "(path \<Rightarrow> u32 \<Rightarrow> u32 \<Rightarrow> 's \<Rightarrow> (int, 's) libc_result) option \<Rightarrow> path option \<Rightarrow> u32 \<Rightarrow> u32 \<Rightarrow> 's \<Rightarrow> (int, 's) libc_result" where
  "vp_chown real path uid gid s = path_call (- 1) (map_option (\<lambda>f p. f p uid gid) real) path s"

definition vp_mkdir :: "(path \<Rightarrow> u32 \<Rightarrow> 's \<Rightarrow> (int, 's) libc_result) option \<Rightarrow> path option \<Rightarrow> u32 \<Rightarrow> 's \<Rightarrow> (int, 's) libc_result" where
  "vp_mkdir real path mode s = path_call (- 1) (map_option (\<lambda>f p. f p mode) real) path s"

definition vp_unlink :: "(path \<Rightarrow> 's \<Rightarrow> (int, 's) libc_result) option \<Rightarrow> path option \<Rightarrow> 's \<Rightarrow> (int, 's) libc_result" where
  "vp_unlink real path s = path_call (- 1) real path s"

text \<open>\<^verbatim>\<open>statfs\<close> fills the structure its caller passes: part of the state here.\<close>

definition vp_statfs :: "(path \<Rightarrow> 's \<Rightarrow> (int, 's) libc_result) option \<Rightarrow> path option \<Rightarrow> 's \<Rightarrow> (int, 's) libc_result" where
  "vp_statfs real path s = path_call (- 1) real path s"

section \<open>The specification\<close>

text \<open>The components of an absolute path, and where a path is looked up.\<close>

fun split_path :: "string \<Rightarrow> string list" where
  "split_path [] = [[]]"
| "split_path (c # cs) = (if c = CHR ''/'' then [] # split_path cs else (case split_path cs of d # ds \<Rightarrow> (c # d) # ds | [] \<Rightarrow> [[c]]))"

definition vendor_home :: "path \<Rightarrow> path" where
  "vendor_home p = (case split_path p of
     root # d # ds \<Rightarrow> if root = [] \<and> (d = ''efs'' \<or> d = ''mnv'') then ''/mnt/vendor'' @ p else p
   | _ \<Rightarrow> p)"

lemma split_path_nonempty [simp]: "split_path p \<noteq> []"
  by (induction p) (auto split: list.splits)

lemma split_path_component:
  "split_path (c @ rest) = c # ds \<longleftrightarrow> (rest = [] \<and> ds = [] \<or> (\<exists>r. rest = CHR ''/'' # r \<and> ds = split_path r))" if "CHR ''/'' \<notin> set c"
  using that
proof (induction c)
  case Nil
  then show ?case by (cases rest) (auto split: list.splits)
next
  case (Cons a c)
  then show ?case by (auto split: list.splits)
qed

lemma split_path_hd: "split_path p = d # ds \<Longrightarrow> \<exists>rest. p = d @ rest \<and> CHR ''/'' \<notin> set d"
proof (induction p arbitrary: d ds)
  case (Cons c p)
  then show ?case by (cases "c = CHR ''/''") (auto split: list.splits)
qed simp

text \<open>The test of the code is the test on components.\<close>

lemma legacy_component:
  assumes "d = ''efs'' \<or> d = ''mnv''"
  shows "take 4 p = CHR ''/'' # d \<and> (length p = 4 \<or> p ! 4 = CHR ''/'') \<longleftrightarrow> (\<exists>ds. split_path p = [] # d # ds)"
proof -
  have d: "CHR ''/'' \<notin> set d" "length d = 3" using assms by auto
  show ?thesis
  proof
    assume l: "take 4 p = CHR ''/'' # d \<and> (length p = 4 \<or> p ! 4 = CHR ''/'')"
    define rest where "rest = drop 4 p"
    have p: "p = CHR ''/'' # d @ rest" using l append_take_drop_id [of 4 p] by (simp add: rest_def)
    have "rest = [] \<or> (\<exists>r. rest = CHR ''/'' # r)" using l d by (cases rest) (auto simp: p nth_append)
    then obtain ds where "split_path (d @ rest) = d # ds" using split_path_component [OF d(1)] by blast
    then show "\<exists>ds. split_path p = [] # d # ds" by (simp add: p)
  next
    assume "\<exists>ds. split_path p = [] # d # ds"
    then obtain q ds where p: "p = CHR ''/'' # q" "split_path q = d # ds"
      by (cases p) (auto split: if_splits list.splits)
    then obtain rest where q: "q = d @ rest" using split_path_hd by blast
    with p(2) split_path_component [OF d(1), of rest ds] have "rest = [] \<or> (\<exists>r. rest = CHR ''/'' # r)" by blast
    then show "take 4 p = CHR ''/'' # d \<and> (length p = 4 \<or> p ! 4 = CHR ''/'')"
      using d(2) by (auto simp: p(1) q nth_append)
  qed
qed

lemma is_legacy_components: "is_legacy p \<longleftrightarrow> (\<exists>d ds. split_path p = [] # d # ds \<and> (d = ''efs'' \<or> d = ''mnv''))"
  unfolding is_legacy_def using legacy_component [of "''efs''" p] legacy_component [of "''mnv''" p] by auto

lemma vendor_home_eq: "vendor_home p = (if is_legacy p then ''/mnt/vendor'' @ p else p)"
  by (auto simp: vendor_home_def is_legacy_components split: list.splits)

lemma not_legacy_home: "\<not> is_legacy (vendor_home p)"
  by (auto simp: vendor_home_eq is_legacy_def)

lemma path_call_spec:
  "path_call failed real path s =
     (case (real, path) of
        (None, _) \<Rightarrow> (failed, Some ENOSYS, s)
      | (Some f, None) \<Rightarrow> (failed, Some EFAULT, s)
      | (Some f, Some p) \<Rightarrow>
          if is_legacy p \<and> PATH_MAX \<le> length (vendor_home p) then (failed, Some ENAMETOOLONG, s) else f (vendor_home p) s)"
  by (auto simp: path_call_def translate_def vendor_home_eq Let_def split: option.splits)

text \<open>
  A process that uses the library: the libc it runs on, its calls, and the contract that a
  function of libc touches no path but the one it is given (\<open>seen\<close> are the paths looked up).
\<close>

record 's libc =
  libc_open :: "(path \<Rightarrow> u32 \<Rightarrow> u32 \<Rightarrow> 's \<Rightarrow> (int, 's) libc_result) option"
  libc_fopen :: "(path \<Rightarrow> string \<Rightarrow> 's \<Rightarrow> (nat option, 's) libc_result) option"
  libc_access :: "(path \<Rightarrow> int \<Rightarrow> 's \<Rightarrow> (int, 's) libc_result) option"
  libc_chmod :: "(path \<Rightarrow> u32 \<Rightarrow> 's \<Rightarrow> (int, 's) libc_result) option"
  libc_chown :: "(path \<Rightarrow> u32 \<Rightarrow> u32 \<Rightarrow> 's \<Rightarrow> (int, 's) libc_result) option"
  libc_mkdir :: "(path \<Rightarrow> u32 \<Rightarrow> 's \<Rightarrow> (int, 's) libc_result) option"
  libc_unlink :: "(path \<Rightarrow> 's \<Rightarrow> (int, 's) libc_result) option"
  libc_statfs :: "(path \<Rightarrow> 's \<Rightarrow> (int, 's) libc_result) option"

datatype vp_call =
    Open "path option" u32 u32 | Open_2 "path option" u32 | Fopen "path option" string | Access "path option" int
  | Chmod "path option" u32 | Chown "path option" u32 u32 | Mkdir "path option" u32 | Unlink "path option" | Statfs "path option"

definition vp_step :: "'s libc \<Rightarrow> 's \<Rightarrow> vp_call \<Rightarrow> 's" where
  "vp_step L s c = (case c of
     Open p fl m \<Rightarrow> snd (snd (vp_open (libc_open L) p fl m s))
   | Open_2 p fl \<Rightarrow> snd (snd (vp_open_2 (libc_open L) p fl s))
   | Fopen p m \<Rightarrow> snd (snd (vp_fopen (libc_fopen L) p m s))
   | Access p m \<Rightarrow> snd (snd (vp_access (libc_access L) p m s))
   | Chmod p m \<Rightarrow> snd (snd (vp_chmod (libc_chmod L) p m s))
   | Chown p u g \<Rightarrow> snd (snd (vp_chown (libc_chown L) p u g s))
   | Mkdir p m \<Rightarrow> snd (snd (vp_mkdir (libc_mkdir L) p m s))
   | Unlink p \<Rightarrow> snd (snd (vp_unlink (libc_unlink L) p s))
   | Statfs p \<Rightarrow> snd (snd (vp_statfs (libc_statfs L) p s)))"

definition only_given :: "('s \<Rightarrow> path list) \<Rightarrow> (path \<Rightarrow> 's \<Rightarrow> ('r, 's) libc_result) \<Rightarrow> bool" where
  "only_given seen f \<longleftrightarrow> (\<forall>p s. set (seen (snd (snd (f p s)))) \<subseteq> insert p (set (seen s)))"

definition libc_ok :: "('s \<Rightarrow> path list) \<Rightarrow> 's libc \<Rightarrow> bool" where
  "libc_ok seen L \<longleftrightarrow>
     (\<forall>f. libc_open L = Some f \<longrightarrow> (\<forall>fl m. only_given seen (\<lambda>p. f p fl m))) \<and>
     (\<forall>f. libc_fopen L = Some f \<longrightarrow> (\<forall>m. only_given seen (\<lambda>p. f p m))) \<and>
     (\<forall>f. libc_access L = Some f \<longrightarrow> (\<forall>m. only_given seen (\<lambda>p. f p m))) \<and>
     (\<forall>f. libc_chmod L = Some f \<longrightarrow> (\<forall>m. only_given seen (\<lambda>p. f p m))) \<and>
     (\<forall>f. libc_chown L = Some f \<longrightarrow> (\<forall>u g. only_given seen (\<lambda>p. f p u g))) \<and>
     (\<forall>f. libc_mkdir L = Some f \<longrightarrow> (\<forall>m. only_given seen (\<lambda>p. f p m))) \<and>
     (\<forall>f. libc_unlink L = Some f \<longrightarrow> only_given seen f) \<and>
     (\<forall>f. libc_statfs L = Some f \<longrightarrow> only_given seen f)"

text \<open>The path a call passes, and what the calls may make libc look up.\<close>

fun call_path :: "vp_call \<Rightarrow> path option" where
  "call_path (Open p fl m) = p"
| "call_path (Open_2 p fl) = p"
| "call_path (Fopen p m) = p"
| "call_path (Access p m) = p"
| "call_path (Chmod p m) = p"
| "call_path (Chown p u g) = p"
| "call_path (Mkdir p m) = p"
| "call_path (Unlink p) = p"
| "call_path (Statfs p) = p"

definition looked_up :: "vp_call \<Rightarrow> path set" where
  "looked_up c = vendor_home ` set_option (call_path c)"

lemma path_call_seen:
  assumes "\<And>f. real = Some f \<Longrightarrow> only_given seen f"
  shows "set (seen (snd (snd (path_call failed real path s)))) \<subseteq> vendor_home ` set_option path \<union> set (seen s)"
proof -
  have "set (seen (snd (snd (f (vendor_home p) s)))) \<subseteq> insert (vendor_home p) (set (seen s))" if "real = Some f" for f p
    using assms [OF that] by (simp add: only_given_def)
  then show ?thesis by (auto simp: path_call_spec split: option.splits)
qed

lemma vp_step_seen:
  assumes "libc_ok seen L"
  shows "set (seen (vp_step L s c)) \<subseteq> looked_up c \<union> set (seen s)"
proof -
  note ok = assms [unfolded libc_ok_def]
  show ?thesis
    by (cases c; simp only: vp_step_def vp_call.case looked_up_def call_path.simps vp_open_def vp_open_2_def vp_fopen_def
        vp_access_def vp_chmod_def vp_chown_def vp_mkdir_def vp_unlink_def vp_statfs_def)
      (auto simp: ok dest!: path_call_seen [THEN subsetD, rotated])
qed

text \<open>The legacy mount points, as they are spelled in paths.\<close>

definition on_legacy_mount :: "path \<Rightarrow> bool" where
  "on_legacy_mount q \<longleftrightarrow> q = ''/efs'' \<or> q = ''/mnv'' \<or> prefix ''/efs/'' q \<or> prefix ''/mnv/'' q"

lemma home_not_legacy: "\<not> on_legacy_mount (vendor_home p)"
proof -
  have "is_legacy q" if "on_legacy_mount q" for q
    using that by (auto simp: on_legacy_mount_def is_legacy_def prefix_def)
  then show ?thesis using not_legacy_home by blast
qed

interpretation modem: machine "vp_step L" "\<lambda>s. libc_ok seen L \<and> seen s = []"
  "\<lambda>s. libc_ok seen L \<and> set (seen s) \<subseteq> range vendor_home" for L seen
proof
  fix s c
  assume a: "libc_ok seen L \<and> set (seen s) \<subseteq> range vendor_home"
  with vp_step_seen [of seen L s c] show "libc_ok seen L \<and> set (seen (vp_step L s c)) \<subseteq> range vendor_home"
    by (auto simp: looked_up_def)
qed simp

lemma vp_run_seen:
  assumes "libc_ok seen L"
  shows "set (seen (foldl (vp_step L) s cs)) \<subseteq> (\<Union>c \<in> set cs. looked_up c) \<union> set (seen s)"
proof (induction cs rule: rev_induct)
  case (snoc c cs)
  then show ?case using vp_step_seen [OF assms, of "foldl (vp_step L) s cs" c] by auto
qed simp

section \<open>Properties\<close>

text \<open>
  C34: Exactly the paths whose first component is \<^verbatim>\<open>efs\<close> or \<^verbatim>\<open>mnv\<close> are moved below
  \<^verbatim>\<open>/mnt/vendor\<close>, all others pass unchanged; the buffer of \<open>PATH_MAX\<close> bytes always holds
  the result and its terminator, a longer one is refused with \<open>ENAMETOOLONG\<close>; and a
  translated path is not translated again.
\<close>

theorem translate_meets_spec:
  "translate (Some p) = (if is_legacy p \<and> PATH_MAX \<le> length (vendor_home p) then (None, Some ENAMETOOLONG) else (Some (vendor_home p), None)) \<and>
   (case translate (Some p) of
      (Some m, e) \<Rightarrow> translate (Some m) = (Some m, None) \<and> (m = p \<or> length m + 1 \<le> PATH_MAX)
    | _ \<Rightarrow> True)"
  using not_legacy_home [of p] by (auto simp: translate_def vendor_home_eq Let_def)

text \<open>
  C14: The modem services never touch their legacy mount points: on a libc whose functions
  look up only the path they are given, no sequence of calls of the exported functions makes
  libc look up \<^verbatim>\<open>/efs\<close>, \<^verbatim>\<open>/mnv\<close> or a path that begins with \<^verbatim>\<open>/efs/\<close> or \<^verbatim>\<open>/mnv/\<close>; what it looks up are
  the vendor homes of paths that the calls passed, and every other path reaches it
  unchanged. The translation is lexical, as the code's test is: a path that spells the mount point
  another way, with a doubled slash or through \<^verbatim>\<open>..\<close>, is such another path.
\<close>

theorem legacy_paths_never_used:
  assumes "libc_ok seen L" "seen s = []"
  shows "list_all (\<lambda>q. q \<noteq> ''/efs'' \<and> q \<noteq> ''/mnv'' \<and> \<not> prefix ''/efs/'' q \<and> \<not> prefix ''/mnv/'' q)
      (seen (foldl (vp_step L) s cs)) \<and>
    set (seen (foldl (vp_step L) s cs)) \<subseteq> {vendor_home p |p. Some p \<in> call_path ` set cs}"
proof -
  have "libc_ok seen L \<and> set (seen (foldl (vp_step L) s cs)) \<subseteq> range vendor_home"
    by (rule modem.reach_inv) (use assms in blast)
  then have "list_all (\<lambda>q. \<not> on_legacy_mount q) (seen (foldl (vp_step L) s cs))"
    using home_not_legacy by (auto simp: list_all_iff)
  moreover have "set (seen (foldl (vp_step L) s cs)) \<subseteq> {vendor_home p |p. Some p \<in> call_path ` set cs}"
  proof
    fix q assume "q \<in> set (seen (foldl (vp_step L) s cs))"
    then obtain c where "c \<in> set cs" "q \<in> looked_up c" using vp_run_seen [OF assms(1), of s cs] assms(2) by auto
    then obtain p where "call_path c = Some p" "q = vendor_home p" by (auto simp: looked_up_def)
    with \<open>c \<in> set cs\<close> show "q \<in> {vendor_home p |p. Some p \<in> call_path ` set cs}" by force
  qed
  ultimately show ?thesis by (simp add: on_legacy_mount_def)
qed

text \<open>
  The functions are transparent for other paths and report failures as libc does: with
  the function present, a call for a path outside the legacy mounts is the call of libc with
  the same arguments, a null path gives \<open>EFAULT\<close> and an absent function \<open>ENOSYS\<close>, both
  without any effect; the fortified \<^verbatim>\<open>open\<close> refuses flags that would need a mode.
\<close>

theorem path_calls_transparent:
  "(if is_legacy p then True else vp_open (Some f) (Some p) flags m s = f p flags (if needs_mode flags then m else 0) s) \<and>
   (if is_legacy p then True else vp_chown (Some g) (Some p) uid gid s = g p uid gid s) \<and>
   vp_open_2 (Some f) path flags s = (if needs_mode flags then (- 1, Some EINVAL, s) else vp_open (Some f) path flags m s) \<and>
   vp_open (Some f) None flags m s = (- 1, Some EFAULT, s) \<and> vp_open None path flags m s = (- 1, Some ENOSYS, s)"
  by (auto simp: path_call_spec vendor_home_eq vp_open_def vp_open_2_def vp_chown_def)

section \<open>Instances\<close>

text \<open>A libc that logs the paths it is asked for.\<close>

definition logging_libc :: "path list libc" where
  "logging_libc = \<lparr>libc_open = Some (\<lambda>p fl m s. (3, None, p # s)), libc_fopen = None,
     libc_access = Some (\<lambda>p m s. (0, None, p # s)), libc_chmod = Some (\<lambda>p m s. (0, None, p # s)),
     libc_chown = Some (\<lambda>p u g s. (0, None, p # s)), libc_mkdir = Some (\<lambda>p m s. (0, None, p # s)),
     libc_unlink = Some (\<lambda>p s. (0, None, p # s)), libc_statfs = None\<rparr>"

theorem legacy_paths_never_used_witness:
  "foldl (vp_step logging_libc) [] [Open (Some ''/efs/nv_data.bin'') 0 0] = [''/mnt/vendor/efs/nv_data.bin''] \<and>
   list_all (\<lambda>q. \<not> prefix ''/efs/'' q \<and> \<not> prefix ''/mnv/'' q) [''/mnt/vendor/efs/nv_data.bin'']"
proof -
  have run: "foldl (vp_step logging_libc) [] [Open (Some ''/efs/nv_data.bin'') 0 0] = [''/mnt/vendor/efs/nv_data.bin'']"
    by (simp add: vp_step_def logging_libc_def vp_open_def path_call_def translate_def is_legacy_def PATH_MAX_def Let_def)
  have "libc_ok (\<lambda>s. s) logging_libc" by (simp add: libc_ok_def only_given_def logging_libc_def)
  note never = legacy_paths_never_used [OF this refl, of "[Open (Some ''/efs/nv_data.bin'') 0 0]", THEN conjunct1, unfolded run]
  show ?thesis by (rule conjI [OF run]) (use never in \<open>simp only: list.pred_inject simp_thms\<close>)
qed

end
