(* ===== verification/Services.thy ===== *)
theory Services
  imports Aosp
begin

text \<open>
  The programs that host the HALs (\<^verbatim>\<open>audio/service/service.cpp\<close>, \<^verbatim>\<open>gatekeeper/service.cpp\<close>,
  \<^verbatim>\<open>camera/service.cpp\<close>, \<^verbatim>\<open>power/service.cpp\<close>) and the shims that give old binaries the entry
  points they were linked against (\<^verbatim>\<open>camera/CameraCompat.cpp\<close>, \<^verbatim>\<open>gps/GpsCompat.cpp\<close>). The
  binder and HIDL libraries are not part of the repository: registering an interface, the
  service loop and the forwarded functions are parameters. What a program does is the trace
  of its calls.
\<close>

section \<open>Calls\<close>

datatype service_call =
    IgnoreSigpipe
  | InitWithDriver string
  | StartThreadPool
  | InitWithMmapSize u64
  | ConfigureRpcThreadpool nat bool
  | SetThreadPoolMaxThreadCount nat
  | Chdir path
  | AddService string
  | DefaultPassthroughService
  | PassthroughService string nat
  | JoinThreadPool

section \<open>Audio\<close>








section \<open>Gatekeeper, camera, power\<close>

definition kGatekeeperDataDirectory :: path where
  "kGatekeeperDataDirectory = ''/data/misc/gatekeeper''"

text \<open>\<open>args\<close> are the arguments behind the program name; \<open>chdir\<close> succeeds or not, \<open>serve\<close> is the result of the service loop.\<close>

definition gatekeeper_main :: "(path \<Rightarrow> bool) \<Rightarrow> int \<Rightarrow> string list \<Rightarrow> int \<times> service_call list" where
  "gatekeeper_main chdir serve args =
     (if length args = 1 \<and> args ! 0 = ''/data/vendor/gatekeeper'' \<or> length args = 0
      then let dataDirectory = (if length args = 1 \<and> args ! 0 = ''/data/vendor/gatekeeper'' then args ! 0 else kGatekeeperDataDirectory)
           in if \<not> chdir dataDirectory then (1, [])
              else (serve, [Chdir dataDirectory, DefaultPassthroughService])
      else (1, []))"

definition camera_main :: "int \<Rightarrow> int \<times> service_call list" where
  "camera_main serve = (serve, [InitWithDriver ''/dev/binder'', PassthroughService ''legacy/0'' 6])"

text \<open>\<open>descriptor\<close> is the interface descriptor the AIDL compiler generates; the service loop returns only on failure.\<close>

definition power_main :: "aosp \<Rightarrow> string \<Rightarrow> (string \<Rightarrow> int) \<Rightarrow> int \<times> service_call list" where
  "power_main A descriptor addService =
     (let inst = descriptor @ ''/default''
      in if addService inst \<noteq> OK A then (1, [SetThreadPoolMaxThreadCount 0, AddService inst])
         else (1, [SetThreadPoolMaxThreadCount 0, AddService inst, JoinThreadPool]))"

section \<open>Shims\<close>

definition EFFECT_POINT_BLUE :: string where "EFFECT_POINT_BLUE = ''point-blue''"
definition PIXEL_FORMAT_YUV420SP_NV21 :: string where "PIXEL_FORMAT_YUV420SP_NV21 = ''nv21''"

definition androidGetTid :: "('s \<Rightarrow> int \<times> 's) \<Rightarrow> 's \<Rightarrow> int \<times> 's" where
  "androidGetTid gettid s = gettid s"

definition set_value :: "'s \<Rightarrow> 's" where
  "set_value s = s"

definition jniGetFDFromFileDescriptor :: "('o \<Rightarrow> int) \<Rightarrow> 'o option \<Rightarrow> int" where
  "jniGetFDFromFileDescriptor getFd fileDescriptor = (case fileDescriptor of None \<Rightarrow> - 1 | Some d \<Rightarrow> getFd d)"

text \<open>The two-argument entry point: the current function with an empty attribution tag.\<close>

definition legacyCreateEventQueue :: "('m \<Rightarrow> string \<Rightarrow> int \<Rightarrow> string \<Rightarrow> 's \<Rightarrow> 'q \<times> 's) \<Rightarrow> 'm \<Rightarrow> string \<Rightarrow> int \<Rightarrow> 's \<Rightarrow> 'q \<times> 's" where
  "legacyCreateEventQueue createEventQueue manager packageName mode s = createEventQueue manager packageName mode [] s"

definition Fence_destructor :: "'p \<Rightarrow> 'p" where
  "Fence_destructor inst = inst"

definition legacyGetCurrentBuffer :: "('c \<Rightarrow> int option \<Rightarrow> 'b) \<Rightarrow> 'c \<Rightarrow> 'b" where
  "legacyGetCurrentBuffer getCurrentBuffer consumer = getCurrentBuffer consumer None"

definition legacyGraphicBufferLock :: "('b \<Rightarrow> u32 \<Rightarrow> int option \<Rightarrow> int option \<Rightarrow> 's \<Rightarrow> (int \<times> nat option) \<times> 's) \<Rightarrow> 'b \<Rightarrow> u32 \<Rightarrow> 's \<Rightarrow> (int \<times> nat option) \<times> 's" where
  "legacyGraphicBufferLock lock buffer usage s = lock buffer usage None None s"

definition gps_legacyCreateEventQueue :: "('m \<Rightarrow> string \<Rightarrow> int \<Rightarrow> string \<Rightarrow> 's \<Rightarrow> 'q \<times> 's) \<Rightarrow> 'm \<Rightarrow> string \<Rightarrow> int \<Rightarrow> 's \<Rightarrow> 'q \<times> 's" where
  "gps_legacyCreateEventQueue createEventQueue manager packageName mode s = createEventQueue manager packageName mode [] s"

definition SSLv3_client_method :: "'m \<Rightarrow> 'm" where
  "SSLv3_client_method tls_client_method = tls_client_method"

section \<open>Lemmas\<close>







section \<open>Properties\<close>


text \<open>
  Gatekeeper never serves outside its data directory: the service loop starts only after
  a change to one of the two allowed directories succeeded, directly before it, and every
  other argument list or a failing change ends the program with 1.
\<close>

theorem gatekeeper_enters_directory:
  "case gatekeeper_main chdir serve args of (code, calls) \<Rightarrow>
     if calls = [] then code = 1
     else \<exists>d \<in> {''/data/misc/gatekeeper'', ''/data/vendor/gatekeeper''}. chdir d \<and> calls = [Chdir d, DefaultPassthroughService] \<and>
       args \<in> {[], [''/data/vendor/gatekeeper'']}"
  by (cases args) (auto simp: gatekeeper_main_def kGatekeeperDataDirectory_def Let_def)

section \<open>Instances\<close>


end
