(* ===== verification/Spec2Isabelle.thy ===== *)
theory Spec2Isabelle
  imports Fp_Compat Lights Power_Legacy Power_Boost Sensor_Threads Usb_Serial Gps_Probe Vendor_Paths Services
begin

text \<open>
  Verification of the native code of the Meizu PRO 5 (m86) device tree: the hardware
  abstraction layers (HALs), helpers and shims under \<^verbatim>\<open>src/\<close> that are written in C and C++.

  \<^bold>\<open>The program.\<close> The tree has no single main program. Its parts are libraries and small
  services that sit between the Android framework and the Linux kernel or closed vendor
  libraries. They share no state; what they have in common are conventions: results are 0
  or a negative error number, calls interrupted by a signal are repeated, values reach the
  hardware through sysfs nodes, and the functions of other components are reached through
  tables of function pointers.

  \<^bold>\<open>Foundations.\<close> \<^verbatim>\<open>M86_Prelude\<close> holds the machine integers, error numbers, decimal and
  little-endian encodings, and the locale \<open>machine\<close>: a step function, start states and an
  invariant. Every component with state interprets it on its own step function, so that
  properties of runs follow from one preservation lemma. \<^verbatim>\<open>M86_Posix\<close> holds the system calls
  over an explicit world with files, descriptors, a log of what device nodes accepted, and a
  script of outcomes that the kernel gives to the calls to come (errors, short transfers).
  The script is an arbitrary finite list, so a theorem about every script is a theorem about
  every pattern of failures; a call behind the end of the script meets no fault, so the
  retry loops are total functions and need no fuel. Its locale \<open>interruptible\<close> is the contract of
  \<^verbatim>\<open>TEMP_FAILURE_RETRY\<close>. \<^verbatim>\<open>Nodes\<close> holds the three node-writing helpers (\<^verbatim>\<open>write_node\<close>,
  \<^verbatim>\<open>WriteNode\<close>, \<^verbatim>\<open>write_int\<close>) and the locale \<open>node_writer\<close> that all three interpret. \<^verbatim>\<open>Aosp\<close> names
  the platform constants the sensor code takes from headers outside the tree; they are
  parameters with their documented facts as the hypothesis \<open>platform_ok\<close>.

  \<^bold>\<open>Fingerprint HAL\<close> (\<^verbatim>\<open>fingerprint/FingerprintHAL.c\<close>). \<^verbatim>\<open>Fp_Device\<close>: the device structure and
  the vendor library as parameters. \<^verbatim>\<open>Fp_Store\<close>: the metadata file and the gallery of
  templates; updates are atomic under any faults, saving and loading round-trip, loading
  equals its reference. \<^verbatim>\<open>Fp_Worker\<close>: the enrolment and authentication threads, one definition
  per stretch between two points where other threads can run. \<^verbatim>\<open>Fp_Api\<close>: the entry points of
  the HAL table. \<^verbatim>\<open>Fp_System\<close>: the interleaving of a client and a worker as an inductive step
  relation, with an executable scheduler and the invariant of reachable states. \<^verbatim>\<open>Fp_Safety\<close>:
  no success without a match, no enrolment without a checked token, flags and thread agree,
  progress messages. \<^verbatim>\<open>Fp_Entry\<close>: the behaviour of each entry point, cancellation completes,
  failing opens release everything (library, list, sensor, memory, lock) and closing gives it back. \<^verbatim>\<open>Fp_Compat\<close> (\<^verbatim>\<open>fingerprint/FingerprintCompat.c\<close>): the
  adapter that moves the callbacks of the Flyme library to Android's offsets.

  \<^bold>\<open>Power\<close> (\<^verbatim>\<open>power/\<close>). \<^verbatim>\<open>Power_Legacy\<close>: \<^verbatim>\<open>PowerHAL.c\<close>. \<^verbatim>\<open>Power_Aidl\<close> and \<^verbatim>\<open>Power_Boost\<close>:
  \<^verbatim>\<open>Power.cpp\<close> and \<^verbatim>\<open>Power.h\<close>, the definitions with the lemmas on the CPU floor, and the runs of
  modes, boosts and worker wakeups: descriptors of the floor are held in pairs and only while
  a boost is pending, boosts are bounded and expire, saving modes win, the cached values are
  what the nodes hold. Where the worker stands is part of the state: it waits on the condition variable
  up to a moment or without a limit, and a notification wakes it; the invariant says that a wait nobody has
  ended covers every deadline and every write to be retried, and the destructor joins the thread. The
  configuration is read through the descriptor table from the files of the world, in one read more than the file
  has bytes, which always reaches its end.

  \<^bold>\<open>Lights\<close> (\<^verbatim>\<open>lights/lights.c\<close>): the shared indicator refines a priority specification.

  \<^bold>\<open>Sensors\<close> (\<^verbatim>\<open>sensors/hal/\<close>). \<^verbatim>\<open>Sensor_Time\<close>: clock sampling and timestamp conversion in
  checked 64-bit arithmetic over a scripted timeline; no overflow, and an accuracy of half a
  millisecond on a steady clock. \<^verbatim>\<open>Sensors\<close>: the bridge; the poll loop is a partial function
  because a device may stay silent for ever, what it delivers is characterised by the two clock samples
  around the very call of the device that reported it, and that it returns is a theorem of its own. \<^verbatim>\<open>Sensor_Threads\<close>: the bridge under concurrent calls of its service; the re-entry lock
  has one holder and every reply is one that \<open>poll\<close> alone may send.

  \<^bold>\<open>USB serial\<close> (\<^verbatim>\<open>usb/m86_usb_serial.cpp\<close>), \<^verbatim>\<open>Usb_Serial\<close>: the slot layout round-trips; the
  readiness property follows only a complete publication; a gadget that was disabled is enabled again in
  the state that the attempt to write the serial left.

  \<^bold>\<open>GPS\<close> (\<^verbatim>\<open>gps/vendor/GpsVendor.cpp\<close>). \<^verbatim>\<open>Gps_Queue\<close>: the locale \<open>bounded_queue\<close>, its
  interpretation on the event queue of the code, and the eventfd invariant. \<^verbatim>\<open>Gps_Manager\<close>: the
  sensor manager over the sensor service as a parameter. \<^verbatim>\<open>Gps_Probe\<close>: the probe program that
  composes the two; its loop is a partial function over an unbounded environment, it refines an
  inductive specification of its exit codes, and it returns once its five seconds are over.

  \<^bold>\<open>Vendor paths\<close> (\<^verbatim>\<open>independent/paths/VendorPaths.c\<close>), \<^verbatim>\<open>Vendor_Paths\<close>: the translation meets a
  specification on path components, and what libc looks up are the translations of the paths passed, none of
  them spelled below a legacy mount point.

  \<^bold>\<open>Services and shims\<close> (\<^verbatim>\<open>audio/service\<close>, \<^verbatim>\<open>gatekeeper\<close>, \<^verbatim>\<open>camera\<close>, \<^verbatim>\<open>power/service.cpp\<close>,
  \<^verbatim>\<open>gps/GpsCompat.cpp\<close>), \<^verbatim>\<open>Services\<close>: the host programs as traces of their calls and the
  forwarding entry points.

  \<^bold>\<open>Concurrency.\<close> Code that runs under a lock is one atomic step. The fingerprint HAL releases
  its lock around scans, joins and notifications, and there the steps are the stretches
  between those points and between its looks at the cancel flag, interleaved arbitrarily. The legacy power HAL pulses the
  clusters without its lock, and there each write is a step. The sensor bridge locks only \<open>poll\<close> against itself, and there a step is a round
  of its loop or a call of another method.

  \<^bold>\<open>Not modelled.\<close> Log output; \<^verbatim>\<open>usleep\<close> and other delays; the constant
  module tables of the HALs; memory exhaustion of C++ containers; the
  vendor libraries, binder, HIDL and libcutils, which are parameters; the Java settings
  application, the build-time scripts, patches to other repositories, the tests, and the
  declarative files (makefiles, init scripts, policy, overlays, codec and audio tables).
\<close>

end
